(* ===== verification/Go_Prelude.thy ===== *)
theory Go_Prelude
  imports Main "HOL-Library.Char_ord" "HOL-Library.Sublist" "HOL-Library.Code_Target_Nat"
begin

text \<open>
  Shared vocabulary of the development. Go strings and byte slices are lists of bytes; a byte
  is an Isabelle \<^typ>\<open>char\<close>, which has exactly 256 values. A Go function that returns a value and
  an error is a sum (\<open>Inl\<close> the error); code that also changes a state (a buffered reader, a
  scanner) is a function from the state to the sum and the new state, sequenced by \<open>bindP\<close>,
  whose early exit is Go's \<open>if err != nil { return }\<close>.
\<close>

section \<open>Collections\<close>

named_theorems monad_simps \<open>unfolding of the error-and-state sequencing\<close>
named_theorems byte_simps \<open>evaluation of byte classifications\<close>

section \<open>Bytes\<close>

type_synonym byte = char

abbreviation byteval :: "byte \<Rightarrow> nat" where
  "byteval b \<equiv> of_char b"

abbreviation (input) tab :: byte where "tab \<equiv> CHR 0x09"
abbreviation (input) lf :: byte where "lf \<equiv> CHR 0x0A"
abbreviation (input) vt :: byte where "vt \<equiv> CHR 0x0B"
abbreviation (input) ff :: byte where "ff \<equiv> CHR 0x0C"
abbreviation (input) cr :: byte where "cr \<equiv> CHR 0x0D"
abbreviation (input) sp :: byte where "sp \<equiv> CHR 0x20"

section \<open>Errors and state\<close>

type_synonym ('s, 'e, 'a) op = "'s \<Rightarrow> ('e + 'a) \<times> 's"

definition returnP :: "'a \<Rightarrow> ('s, 'e, 'a) op" where
  "returnP a s = (Inr a, s)"

definition failP :: "'e \<Rightarrow> ('s, 'e, 'a) op" where
  "failP e s = (Inl e, s)"

definition bindP :: "('s, 'e, 'a) op \<Rightarrow> ('a \<Rightarrow> ('s, 'e, 'b) op) \<Rightarrow> ('s, 'e, 'b) op" where
  "bindP m f s = (case m s of (Inl e, s') \<Rightarrow> (Inl e, s') | (Inr a, s') \<Rightarrow> f a s')"

lemma bindP_cong [fundef_cong]:
  assumes "m s = m' s'"
    and "\<And>a t. m' s' = (Inr a, t) \<Longrightarrow> f a t = f' a t"
  shows "bindP m f s = bindP m' f' s'"
  using assms by (auto simp: bindP_def split: prod.splits sum.splits)

lemma returnP_eq [monad_simps]: "returnP a s = (Inr a, s)"
  by (simp add: returnP_def)

lemma failP_eq [monad_simps]: "failP e s = (Inl e, s)"
  by (simp add: failP_def)

lemma bindP_Inr [monad_simps]: "m s = (Inr a, t) \<Longrightarrow> bindP m f s = f a t"
  by (simp add: bindP_def)

lemma bindP_Inl [monad_simps]: "m s = (Inl e, t) \<Longrightarrow> bindP m f s = (Inl e, t)"
  by (simp add: bindP_def)

lemma bindP_eq_Inr [elim?]:
  assumes "bindP m f s = (Inr b, u)"
  obtains a t where "m s = (Inr a, t)" and "f a t = (Inr b, u)"
  using assms by (auto simp: bindP_def split: prod.splits sum.splits)

lemma bindP_eq_Inl:
  assumes "bindP m f s = (Inl e, u)"
  obtains (first) "m s = (Inl e, u)"
    | (second) a t where "m s = (Inr a, t)" and "f a t = (Inl e, u)"
  using assms by (auto simp: bindP_def split: prod.splits sum.splits)

lemma bindP_assoc: "bindP (bindP m f) g = bindP m (\<lambda>a. bindP (f a) g)"
  by (auto simp: bindP_def fun_eq_iff split: prod.splits sum.splits)

section \<open>Lists\<close>

lemma sorted_map_const: "(\<And>x. x \<in> set xs \<Longrightarrow> f x = n) \<Longrightarrow> sorted (map f xs)"
  by (induction xs) auto

lemma set_map_filter: "y \<in> set (List.map_filter f xs) \<longleftrightarrow> (\<exists>x \<in> set xs. f x = Some y)"
  by (force simp: List.map_filter_def)

end
