(* ===== verification/Go_Strings.thy ===== *)
theory Go_Strings
  imports Go_Prelude
begin

text \<open>
  The part of Go's standard library of strings that the server calls: UTF-8 decoding
  (\<^verbatim>\<open>unicode/utf8\<close>), \<^verbatim>\<open>strings.TrimSpace\<close>, \<^verbatim>\<open>Fields\<close>, \<^verbatim>\<open>Cut\<close>, \<^verbatim>\<open>Split\<close>,
  \<^verbatim>\<open>HasPrefix\<close>, \<^verbatim>\<open>Contains\<close>, \<^verbatim>\<open>EqualFold\<close>, \<^verbatim>\<open>ToLower\<close>, \<^verbatim>\<open>url.PathUnescape\<close>,
  \<^verbatim>\<open>textproto.CanonicalMIMEHeaderKey\<close> and \<^verbatim>\<open>strconv.Atoi\<close>. Strings are byte lists, so the
  Unicode-aware functions decode runes exactly as Go does: an invalid sequence is one rune
  U+FFFD of width 1. The case tables of the runes above U+007F are the argument
  \<open>uniLower\<close> of \<open>ToLower\<close>.
\<close>

section \<open>UTF-8\<close>

definition RuneError :: nat where "RuneError = 0xFFFD"

definition contByte :: "nat \<Rightarrow> bool" where
  "contByte n \<longleftrightarrow> 0x80 \<le> n \<and> n \<le> 0xBF"

text \<open>\<open>utf8.RuneStart\<close>: not a continuation byte.\<close>

definition runeStart :: "byte \<Rightarrow> bool" where
  "runeStart b \<longleftrightarrow> \<not> contByte (byteval b)"

text \<open>The accepted range of the second byte of a sequence, by its first byte.\<close>

definition acceptLo :: "nat \<Rightarrow> nat" where
  "acceptLo b0 = (if b0 = 0xE0 then 0xA0 else if b0 = 0xF0 then 0x90 else 0x80)"

definition acceptHi :: "nat \<Rightarrow> nat" where
  "acceptHi b0 = (if b0 = 0xED then 0x9F else if b0 = 0xF4 then 0x8F else 0xBF)"

text \<open>\<open>utf8.DecodeRuneInString\<close>: the first rune and its width in bytes.\<close>

definition decodeRune :: "string \<Rightarrow> nat \<times> nat" where
  "decodeRune s =
    (case s of
       [] \<Rightarrow> (RuneError, 0)
     | c # cs \<Rightarrow>
        (let b0 = byteval c in
         if b0 < 0x80 then (b0, 1)
         else if b0 < 0xC2 \<or> 0xF4 < b0 then (RuneError, 1)
         else
          (case cs of
             [] \<Rightarrow> (RuneError, 1)
           | c1 # cs1 \<Rightarrow>
              (let b1 = byteval c1 in
               if b1 < acceptLo b0 \<or> acceptHi b0 < b1 then (RuneError, 1)
               else if b0 < 0xE0 then ((b0 - 0xC0) * 64 + (b1 - 0x80), 2)
               else
                (case cs1 of
                   [] \<Rightarrow> (RuneError, 1)
                 | c2 # cs2 \<Rightarrow>
                    (let b2 = byteval c2 in
                     if \<not> contByte b2 then (RuneError, 1)
                     else if b0 < 0xF0
                       then ((b0 - 0xE0) * 4096 + (b1 - 0x80) * 64 + (b2 - 0x80), 3)
                     else
                      (case cs2 of
                         [] \<Rightarrow> (RuneError, 1)
                       | c3 # _ \<Rightarrow>
                          (let b3 = byteval c3 in
                           if \<not> contByte b3 then (RuneError, 1)
                           else ((b0 - 0xF0) * 262144 + (b1 - 0x80) * 4096
                                  + (b2 - 0x80) * 64 + (b3 - 0x80), 4)))))))))"

text \<open>
  \<open>utf8.DecodeLastRuneInString\<close>: back up over at most three continuation bytes to a starting
  byte and decode there; the rune counts only if it ends where the string does.
\<close>

definition decodeLastRune :: "string \<Rightarrow> nat \<times> nat" where
  "decodeLastRune s =
    (if s = [] then (RuneError, 0)
     else if byteval (last s) < 0x80 then (byteval (last s), 1)
     else
      (case find (\<lambda>k. k \<le> length s \<and> runeStart (s ! (length s - k))) [2, 3, 4] of
         None \<Rightarrow> (RuneError, 1)
       | Some k \<Rightarrow>
          (let (r, sz) = decodeRune (drop (length s - k) s) in
           if sz = k then (r, k) else (RuneError, 1))))"

text \<open>\<open>unicode.IsSpace\<close>: the runes with property \<open>White_Space\<close>.\<close>

definition isSpace :: "nat \<Rightarrow> bool" where
  "isSpace r \<longleftrightarrow>
     r \<in> {0x09, 0x0A, 0x0B, 0x0C, 0x0D, 0x20, 0x85, 0xA0, 0x1680, 0x2028, 0x2029, 0x202F, 0x205F, 0x3000}
     \<or> 0x2000 \<le> r \<and> r \<le> 0x200A"

lemma decodeRune_width [simp]: "snd (decodeRune s) \<le> length s"
  by (auto simp: decodeRune_def Let_def split: list.splits)

lemma decodeRune_pos [simp]: "0 < snd (decodeRune (c # cs))"
  by (auto simp: decodeRune_def Let_def split: list.splits)

lemma decodeRune_width' [simp]: "snd (decodeRune s) = 0 \<longleftrightarrow> s = []"
  by (cases s) (use decodeRune_pos in \<open>auto simp: decodeRune_def\<close>)

lemma decodeRune_ascii [simp]: "byteval c < 0x80 \<Longrightarrow> decodeRune (c # cs) = (byteval c, 1)"
  by (simp add: decodeRune_def)

lemma decodeLastRune_width:
  assumes ne: "s \<noteq> []"
  shows "0 < snd (decodeLastRune s) \<and> snd (decodeLastRune s) \<le> length s"
proof (cases "find (\<lambda>k. k \<le> length s \<and> runeStart (s ! (length s - k))) [2, 3, 4]")
  case None
  with ne show ?thesis by (cases s) (auto simp: decodeLastRune_def)
next
  case (Some k)
  then have k: "0 < k" "k \<le> length s" by (auto split: if_splits)
  with Some ne show ?thesis
    by (cases "decodeRune (drop (length s - k) s)") (auto simp: decodeLastRune_def)
qed

section \<open>Runes of a string\<close>

text \<open>Go's \<open>for _, r := range s\<close>.\<close>

function runes :: "string \<Rightarrow> nat list" where
  "runes s = (if s = [] then [] else
     (let (r, n) = decodeRune s in r # runes (drop n s)))"
  by pat_completeness auto
termination
proof (relation "measure length")
  fix s x r n
  assume "(s :: string) \<noteq> []" and x: "x = decodeRune s" and "(r, n) = x"
  then have "n = snd (decodeRune s)" and "s \<noteq> []" by (auto simp: prod_eq_iff)
  then show "(drop n s, s) \<in> measure length" by (cases s) auto
qed simp

declare runes.simps [simp del]

lemma runes_Nil [simp]: "runes [] = []"
  by (simp add: runes.simps)

lemma runes_ascii_Cons [simp]: "byteval c < 0x80 \<Longrightarrow> runes (c # cs) = byteval c # runes cs"
  by (simp add: runes.simps [of "c # cs"])

section \<open>TrimSpace\<close>

text \<open>
  \<open>strings.TrimLeftFunc\<close> and \<open>strings.TrimRightFunc\<close> with \<open>unicode.IsSpace\<close>; the byte
  loops of \<open>strings.TrimSpace\<close> for ASCII are a fast path of the same function.
\<close>

function trimLeft :: "string \<Rightarrow> string" where
  "trimLeft s = (if s = [] then [] else
     (let (r, n) = decodeRune s in if isSpace r then trimLeft (drop n s) else s))"
  by pat_completeness auto
termination
proof (relation "measure length")
  fix s x r n
  assume "(s :: string) \<noteq> []" and x: "x = decodeRune s" and "(r, n) = x"
  then have "n = snd (decodeRune s)" and "s \<noteq> []" by (auto simp: prod_eq_iff)
  then show "(drop n s, s) \<in> measure length" by (cases s) auto
qed simp

function trimRight :: "string \<Rightarrow> string" where
  "trimRight s = (if s = [] then [] else
     (let (r, n) = decodeLastRune s in
      if isSpace r then trimRight (take (length s - n) s) else s))"
  by pat_completeness auto
termination
proof (relation "measure length")
  fix s x r n
  assume ne: "(s :: string) \<noteq> []" and x: "x = decodeLastRune s" and "(r, n) = x"
  then have "n = snd (decodeLastRune s)" by (auto simp: prod_eq_iff)
  with decodeLastRune_width [OF ne] ne
  show "(take (length s - n) s, s) \<in> measure length" by auto
qed simp

declare trimLeft.simps [simp del] trimRight.simps [simp del]

definition TrimSpace :: "string \<Rightarrow> string" where
  "TrimSpace s = trimRight (trimLeft s)"

lemma trimLeft_suffix: "suffix (trimLeft s) s"
proof (induction s rule: trimLeft.induct)
  case (1 s)
  show ?case
  proof (cases "s = [] \<or> \<not> isSpace (fst (decodeRune s))")
    case True
    then show ?thesis by (auto simp: trimLeft.simps [of s] split: prod.splits)
  next
    case False
    then have "suffix (trimLeft (drop (snd (decodeRune s)) s)) (drop (snd (decodeRune s)) s)"
      using "1.IH" by (auto simp: prod_eq_iff)
    with False show ?thesis
      by (auto simp: trimLeft.simps [of s] split: prod.splits intro: suffix_order.trans suffix_drop)
  qed
qed

lemma trimRight_prefix: "prefix (trimRight s) s"
proof (induction s rule: trimRight.induct)
  case (1 s)
  let ?t = "take (length s - snd (decodeLastRune s)) s"
  show ?case
  proof (cases "s = [] \<or> \<not> isSpace (fst (decodeLastRune s))")
    case True
    then show ?thesis by (auto simp: trimRight.simps [of s] split: prod.splits)
  next
    case False
    then have "prefix (trimRight ?t) ?t"
      using "1.IH" by (auto simp: prod_eq_iff)
    with False show ?thesis
      by (auto simp: trimRight.simps [of s] split: prod.splits
          intro: prefix_order.trans [OF _ take_is_prefix])
  qed
qed

lemma TrimSpace_sublist: "sublist (TrimSpace s) s"
  unfolding TrimSpace_def
  using trimLeft_suffix [of s] trimRight_prefix [of "trimLeft s"]
  by (meson prefix_imp_sublist suffix_imp_sublist sublist_order.order.trans)

lemma TrimSpace_set: "set (TrimSpace s) \<subseteq> set s"
  using TrimSpace_sublist [of s] by (auto dest: set_mono_sublist)

lemma TrimSpace_length: "length (TrimSpace s) \<le> length s"
  using TrimSpace_sublist [of s] by (rule sublist_length_le)

lemma TrimSpace_Nil [simp]: "TrimSpace [] = []"
  by (simp add: TrimSpace_def trimLeft.simps trimRight.simps)

lemma trimLeft_id: "byteval c < 0x80 \<Longrightarrow> \<not> isSpace (byteval c) \<Longrightarrow> trimLeft (c # cs) = c # cs"
  by (simp add: trimLeft.simps)

lemma trimLeft_space: "byteval c < 0x80 \<Longrightarrow> isSpace (byteval c) \<Longrightarrow> trimLeft (c # cs) = trimLeft cs"
  by (simp add: trimLeft.simps [of "c # cs"])

lemma trimRight_id:
  assumes "s \<noteq> []" and "byteval (last s) < 0x80" and "\<not> isSpace (byteval (last s))"
  shows "trimRight s = s"
  using assms by (simp add: trimRight.simps [of s] decodeLastRune_def)

lemma TrimSpace_id:
  assumes "s \<noteq> []" and "byteval (hd s) < 0x80" and "\<not> isSpace (byteval (hd s))"
    and "byteval (last s) < 0x80" and "\<not> isSpace (byteval (last s))"
  shows "TrimSpace s = s"
  using assms by (cases s) (simp_all add: TrimSpace_def trimLeft_id trimRight_id)

section \<open>Fields, Cut, Split\<close>

text \<open>
  \<open>strings.Fields\<close>: the maximal runs of runes that are no space; \<open>cur\<close> holds the bytes of the
  run being read.
\<close>

function fieldsLoop :: "string \<Rightarrow> string \<Rightarrow> string list" where
  "fieldsLoop cur s =
    (if s = [] then (if cur = [] then [] else [cur])
     else
      (let (r, n) = decodeRune s in
       if isSpace r
       then (if cur = [] then [] else [cur]) @ fieldsLoop [] (drop n s)
       else fieldsLoop (cur @ take n s) (drop n s)))"
  by pat_completeness auto
termination
proof (relation "measure (\<lambda>(cur, s). length s)")
  fix cur s :: string and x r n
  assume "(s :: string) \<noteq> []" and "x = decodeRune s" and "(r, n) = x"
  then have "n = snd (decodeRune s)" and "s \<noteq> []" by (auto simp: prod_eq_iff)
  then have less: "length (drop n s) < length s" by (cases s) auto
  show "(([], drop n s), cur, s) \<in> measure (\<lambda>(cur, s). length s)"
    using less by simp
  show "((cur @ take n s, drop n s), cur, s) \<in> measure (\<lambda>(cur, s). length s)"
    using less by simp
qed simp

declare fieldsLoop.simps [simp del]

definition Fields :: "string \<Rightarrow> string list" where
  "Fields s = fieldsLoop [] s"

text \<open>\<open>strings.Cut\<close> at a one-byte separator: the text before, the text after, and whether it is there.\<close>

definition Cut :: "string \<Rightarrow> byte \<Rightarrow> string \<times> string \<times> bool" where
  "Cut s c = (takeWhile (\<lambda>x. x \<noteq> c) s, drop 1 (dropWhile (\<lambda>x. x \<noteq> c) s), c \<in> set s)"

fun splitLoop :: "string \<Rightarrow> byte \<Rightarrow> string \<Rightarrow> string list" where
  "splitLoop cur c [] = [cur]"
| "splitLoop cur c (x # xs) = (if x = c then cur # splitLoop [] c xs else splitLoop (cur @ [x]) c xs)"

text \<open>\<open>strings.Split\<close> at a one-byte separator.\<close>

definition Split :: "string \<Rightarrow> byte \<Rightarrow> string list" where
  "Split s c = splitLoop [] c s"

definition HasPrefix :: "string \<Rightarrow> string \<Rightarrow> bool" where
  "HasPrefix s p \<longleftrightarrow> prefix p s"

definition ContainsAny :: "string \<Rightarrow> string \<Rightarrow> bool" where
  "ContainsAny s cs \<longleftrightarrow> list_ex (\<lambda>c. c \<in> set cs) s"

lemma Cut_found: "Cut s c = (a, b, True) \<Longrightarrow> s = a @ c # b \<and> c \<notin> set a"
proof -
  assume "Cut s c = (a, b, True)"
  then have a: "a = takeWhile (\<lambda>x. x \<noteq> c) s" and b: "b = drop 1 (dropWhile (\<lambda>x. x \<noteq> c) s)"
    and c: "c \<in> set s" by (simp_all add: Cut_def)
  from c have "dropWhile (\<lambda>x. x \<noteq> c) s = c # b"
    unfolding b by (induction s) auto
  then have "s = a @ c # b" unfolding a by (metis takeWhile_dropWhile_id)
  moreover have "c \<notin> set a" unfolding a by (auto dest: set_takeWhileD)
  ultimately show ?thesis by simp
qed

lemma Cut_append: "c \<notin> set a \<Longrightarrow> Cut (a @ c # b) c = (a, b, True)"
  by (auto simp: Cut_def takeWhile_append dropWhile_append)

lemma Cut_missing: "c \<notin> set s \<Longrightarrow> Cut s c = (s, [], False)"
proof -
  assume c: "c \<notin> set s"
  then have d: "dropWhile (\<lambda>x. x \<noteq> c) s = []" and t: "takeWhile (\<lambda>x. x \<noteq> c) s = s"
    by (auto simp: dropWhile_eq_Nil_conv takeWhile_eq_all_conv)
  from c show ?thesis by (simp only: Cut_def d t drop_Nil)
qed

lemma splitLoop_join: "concat (map (\<lambda>f. f @ [c]) (splitLoop cur c s)) = cur @ s @ [c]"
  by (induction cur c s rule: splitLoop.induct) auto

lemma fieldsLoop_set: "f \<in> set (fieldsLoop cur s) \<Longrightarrow> set f \<subseteq> set cur \<union> set s"
proof (induction cur s rule: fieldsLoop.induct)
  case (1 cur s)
  show ?case
  proof (cases "s = []")
    case True
    with "1.prems" have "f = cur" by (simp add: fieldsLoop.simps [of cur "[]"] split: if_splits)
    then show ?thesis by simp
  next
    case ne: False
    obtain r n where d: "decodeRune s = (r, n)" by (cases "decodeRune s")
    have sub: "set (take n s) \<subseteq> set s" "set (drop n s) \<subseteq> set s"
      by (rule set_take_subset, rule set_drop_subset)
    show ?thesis
    proof (cases "isSpace r")
      case True
      with "1.prems" ne d have "f = cur \<or> f \<in> set (fieldsLoop [] (drop n s))"
        by (auto simp: fieldsLoop.simps [of cur s] split: if_splits)
      with "1.IH"(1) [OF ne d [symmetric] _ True] sub show ?thesis by auto
    next
      case False
      with "1.prems" ne d have "f \<in> set (fieldsLoop (cur @ take n s) (drop n s))"
        by (auto simp: fieldsLoop.simps [of cur s])
      with "1.IH"(2) [OF ne d [symmetric] _ False] sub show ?thesis by auto
    qed
  qed
qed

lemma Fields_set: "f \<in> set (Fields s) \<Longrightarrow> set f \<subseteq> set s"
  using fieldsLoop_set [of f "[]" s] by (simp add: Fields_def)

section \<open>Case\<close>

definition asciiUpperCase :: "byte \<Rightarrow> bool" where
  "asciiUpperCase b \<longleftrightarrow> CHR ''A'' \<le> b \<and> b \<le> CHR ''Z''"

definition asciiLowerCase :: "byte \<Rightarrow> bool" where
  "asciiLowerCase b \<longleftrightarrow> CHR ''a'' \<le> b \<and> b \<le> CHR ''z''"

definition asciiLower :: "byte \<Rightarrow> byte" where
  "asciiLower b = (if asciiUpperCase b then char_of (byteval b + 32) else b)"

definition asciiUpper :: "byte \<Rightarrow> byte" where
  "asciiUpper b = (if asciiLowerCase b then char_of (byteval b - 32) else b)"

definition encodeRune :: "nat \<Rightarrow> string" where
  "encodeRune r =
    (if r < 0x80 then [char_of r]
     else if r < 0x800 then [char_of (0xC0 + r div 64), char_of (0x80 + r mod 64)]
     else if 0x10FFFF < r \<or> 0xD800 \<le> r \<and> r \<le> 0xDFFF then [CHR 0xEF, CHR 0xBF, CHR 0xBD]
     else if r < 0x10000
       then [char_of (0xE0 + r div 4096), char_of (0x80 + r div 64 mod 64), char_of (0x80 + r mod 64)]
     else [char_of (0xF0 + r div 262144), char_of (0x80 + r div 4096 mod 64),
           char_of (0x80 + r div 64 mod 64), char_of (0x80 + r mod 64)])"

text \<open>
  \<open>strings.ToLower\<close>; \<open>uniLower\<close> is the lower-case table of the runes from U+0080 on.
\<close>

definition ToLower :: "(nat \<Rightarrow> nat) \<Rightarrow> string \<Rightarrow> string" where
  "ToLower uniLower s =
    (if list_all (\<lambda>b. byteval b < 0x80) s then map asciiLower s
     else concat (map (\<lambda>r. if r < 0x80 then [asciiLower (char_of r)] else encodeRune (uniLower r)) (runes s)))"

text \<open>
  \<open>strings.EqualFold\<close> for a second argument in ASCII. Two runes above ASCII fold to an ASCII
  letter: the Kelvin sign U+212A to k, the long s U+017F to s.
\<close>

definition foldEq :: "nat \<Rightarrow> byte \<Rightarrow> bool" where
  "foldEq r c \<longleftrightarrow>
     (r < 0x80 \<and> asciiLower (char_of r) = asciiLower c)
     \<or> (r = 0x212A \<and> asciiLower c = CHR ''k'')
     \<or> (r = 0x017F \<and> asciiLower c = CHR ''s'')"

definition EqualFold :: "string \<Rightarrow> string \<Rightarrow> bool" where
  "EqualFold s t \<longleftrightarrow> list_all2 foldEq (runes s) t"

section \<open>Numbers and escapes\<close>

definition isDigit :: "byte \<Rightarrow> bool" where
  "isDigit b \<longleftrightarrow> CHR ''0'' \<le> b \<and> b \<le> CHR ''9''"

definition decval :: "string \<Rightarrow> int" where
  "decval s = foldl (\<lambda>n c. n * 10 + (int (byteval c) - 48)) 0 s"

text \<open>\<open>strconv.Atoi\<close> for a 64-bit \<open>int\<close>: an optional sign and decimal digits, in range.\<close>

definition Atoi :: "string \<Rightarrow> int option" where
  "Atoi s =
    (let neg = (s \<noteq> [] \<and> hd s = CHR ''-'');
         ds = (if s \<noteq> [] \<and> (hd s = CHR ''-'' \<or> hd s = CHR ''+'') then tl s else s);
         n = (if neg then - decval ds else decval ds)
     in if ds = [] \<or> \<not> list_all isDigit ds \<or> n < - (2 ^ 63) \<or> 2 ^ 63 \<le> n then None else Some n)"

definition unhex :: "byte \<Rightarrow> nat option" where
  "unhex b =
    (if isDigit b then Some (byteval b - 48)
     else if CHR ''a'' \<le> b \<and> b \<le> CHR ''f'' then Some (byteval b - 87)
     else if CHR ''A'' \<le> b \<and> b \<le> CHR ''F'' then Some (byteval b - 55)
     else None)"

text \<open>\<open>url.PathUnescape\<close>: \<open>None\<close> is the escape error.\<close>

fun PathUnescape :: "string \<Rightarrow> string option" where
  "PathUnescape [] = Some []"
| "PathUnescape (c # cs) =
    (if c = CHR ''%''
     then (case cs of
             a # b # rest \<Rightarrow>
               (case (unhex a, unhex b) of
                  (Some x, Some y) \<Rightarrow> map_option (Cons (char_of (x * 16 + y))) (PathUnescape rest)
                | _ \<Rightarrow> None)
           | _ \<Rightarrow> None)
     else map_option (Cons c) (PathUnescape cs))"

lemma decval_snoc: "decval (s @ [c]) = decval s * 10 + (int (byteval c) - 48)"
  by (simp add: decval_def)

lemma decval_Cons: "decval (c # s) = (int (byteval c) - 48) * 10 ^ length s + decval s"
proof (induction s rule: rev_induct)
  case (snoc d s)
  have "decval (c # s @ [d]) = decval ((c # s) @ [d])" by simp
  also have "\<dots> = decval (c # s) * 10 + (int (byteval d) - 48)" by (rule decval_snoc)
  finally show ?case using snoc by (simp add: decval_snoc algebra_simps)
qed (simp add: decval_def)

lemma decval_zeros: "decval (replicate n (CHR ''0'') @ s) = decval s"
  by (induction n) (simp_all add: decval_Cons)

lemma decval_nonneg: "list_all isDigit s \<Longrightarrow> 0 \<le> decval s"
proof (induction s rule: rev_induct)
  case Nil
  then show ?case by (simp add: decval_def)
next
  case (snoc c s)
  then have "48 \<le> byteval c" by (simp add: isDigit_def less_eq_char_def)
  with snoc show ?case by (simp add: decval_snoc)
qed

lemma Atoi_digits:
  assumes "s \<noteq> []" and "list_all isDigit s"
  shows "Atoi s = (if decval s < 2 ^ 63 then Some (decval s) else None)"
proof -
  from assms have "isDigit (hd s)" by (cases s) auto
  then have "hd s \<noteq> CHR ''-''" "hd s \<noteq> CHR ''+''" by (auto simp: isDigit_def)
  with assms decval_nonneg [OF assms(2)] show ?thesis by (simp add: Atoi_def)
qed

text \<open>Decimal text of a number, the verb \<open>%d\<close> of \<^verbatim>\<open>fmt\<close>.\<close>

fun digits :: "nat \<Rightarrow> string" where
  "digits n = (if n < 10 then [char_of (48 + n)] else digits (n div 10) @ [char_of (48 + n mod 10)])"

declare digits.simps [simp del]

definition Itoa :: "int \<Rightarrow> string" where
  "Itoa n = (if n < 0 then CHR ''-'' # digits (nat (- n)) else digits (nat n))"

lemma digit_char: "d < 10 \<Longrightarrow> isDigit (char_of (48 + d)) \<and> int (byteval (char_of (48 + d) :: byte)) - 48 = int d"
  by (auto simp: isDigit_def less_eq_char_def)

lemma digits_spec: "decval (digits n) = int n \<and> list_all isDigit (digits n) \<and> digits n \<noteq> []"
proof (induction n rule: digits.induct)
  case (1 n)
  show ?case
  proof (cases "n < 10")
    case True
    then show ?thesis using digit_char [of n] by (simp add: digits.simps [of n] decval_def)
  next
    case False
    have "int (n div 10) * 10 + int (n mod 10) = int n" by (metis div_mult_mod_eq of_nat_add of_nat_mult of_nat_numeral)
    with 1 False digit_char [of "n mod 10"] show ?thesis by (simp add: digits.simps [of n] decval_snoc)
  qed
qed

lemma Itoa_nat: "Itoa (int n) = digits n"
  by (simp add: Itoa_def)

lemma Itoa_set: "c \<in> set (Itoa n) \<Longrightarrow> isDigit c \<or> c = CHR ''-''"
  using digits_spec [of "nat n"] digits_spec [of "nat (- n)"] by (auto simp: Itoa_def list_all_iff split: if_splits)

lemma PathUnescape_length: "PathUnescape s = Some t \<Longrightarrow> length t \<le> length s"
  by (induction s arbitrary: t rule: PathUnescape.induct) (fastforce split: if_splits list.splits option.splits)+

lemma PathUnescape_plain: "CHR ''%'' \<notin> set s \<Longrightarrow> PathUnescape s = Some s"
  by (induction s rule: PathUnescape.induct) auto

section \<open>Header names\<close>

text \<open>The bytes of an HTTP token, \<open>textproto.validHeaderFieldByte\<close>.\<close>

definition validHeaderFieldByte :: "byte \<Rightarrow> bool" where
  "validHeaderFieldByte b \<longleftrightarrow> asciiUpperCase b \<or> asciiLowerCase b \<or> isDigit b
     \<or> b \<in> set ''!#$%&*+-.^_|~'' \<or> b = CHR 0x27 \<or> b = CHR 0x60"

fun canonLoop :: "bool \<Rightarrow> string \<Rightarrow> string" where
  "canonLoop upper [] = []"
| "canonLoop upper (c # cs) =
    (let c' = (if upper then asciiUpper c else asciiLower c) in c' # canonLoop (c' = CHR ''-'') cs)"

text \<open>\<open>textproto.CanonicalMIMEHeaderKey\<close>: a string that is not a token is returned unchanged.\<close>

definition CanonicalMIMEHeaderKey :: "string \<Rightarrow> string" where
  "CanonicalMIMEHeaderKey s = (if list_all validHeaderFieldByte s then canonLoop True s else s)"

lemma canonLoop_length [simp]: "length (canonLoop u s) = length s"
  by (induction u s rule: canonLoop.induct) (auto simp: Let_def)

end
