(* ===== verification/Waf_Normalize.thy ===== *)
theory Waf_Normalize
  imports Go_Strings
begin

text \<open>
  The canonical form in which rules and traffic are compared (\<^verbatim>\<open>security/waf/normalize.go\<close>):
  ASCII letters in lower case, every run of white space and of C comments one blank, no blank at
  either end. The index loops of the code are recursions on the rest of the input.
\<close>

section \<open>Definitions\<close>

definition lowerASCII :: "byte \<Rightarrow> byte" where
  "lowerASCII b = (if CHR ''A'' \<le> b \<and> b \<le> CHR ''Z'' then char_of (byteval b + (97 - 65)) else b)"

definition isWhitespace :: "byte \<Rightarrow> bool" where
  "isWhitespace b \<longleftrightarrow> b \<in> {sp, tab, lf, cr, vt, ff}"

definition trimTrailingSpace :: "string \<Rightarrow> string" where
  "trimTrailingSpace value =
    (if 0 < length value \<and> value ! (length value - 1) = sp
     then take (length value - 1) value else value)"

text \<open>The scan for the end of a comment, from behind its opening; \<open>None\<close> if it is not closed.\<close>

fun skipComment :: "string \<Rightarrow> string option" where
  "skipComment (a # b # rest) =
    (if a = CHR ''*'' \<and> b = CHR ''/'' then Some rest else skipComment (b # rest))"
| "skipComment [a] = None"
| "skipComment [] = None"

lemma skipComment_shorter: "skipComment s = Some r \<Longrightarrow> length r < length s"
  by (induction s rule: skipComment.induct) (auto split: if_splits)

definition opensComment :: "string \<Rightarrow> bool" where
  "opensComment input = (case input of a # b # _ \<Rightarrow> a = CHR ''/'' \<and> b = CHR ''*'' | _ \<Rightarrow> False)"

function normalizeLoop :: "string \<Rightarrow> bool \<Rightarrow> string \<Rightarrow> string" where
  "normalizeLoop out pendingSpace [] = trimTrailingSpace out"
| "normalizeLoop out pendingSpace (b # rest) =
    (if opensComment (b # rest)
     then (case skipComment (tl rest) of
             None \<Rightarrow> trimTrailingSpace out
           | Some rest' \<Rightarrow> normalizeLoop out True rest')
     else if isWhitespace b then normalizeLoop out True rest
     else
      (let out1 = (if pendingSpace \<and> 0 < length out then out @ [sp] else out)
       in normalizeLoop (out1 @ [lowerASCII b]) False rest))"
  by pat_completeness auto
termination
  by (relation "measure (\<lambda>(out, ps, input). length input)")
    (auto dest!: skipComment_shorter)

definition Normalize :: "string \<Rightarrow> string" where
  "Normalize input = normalizeLoop [] False input"

section \<open>The bytes still to be written\<close>

text \<open>
  \<open>emit e p s\<close> is what the loop appends to its output for the rest \<open>s\<close> of the input, when
  something was written before (\<open>e\<close>) and a blank is pending (\<open>p\<close>).
\<close>

function emit :: "bool \<Rightarrow> bool \<Rightarrow> string \<Rightarrow> string" where
  "emit e p [] = []"
| "emit e p (b # rest) =
    (if opensComment (b # rest)
     then (case skipComment (tl rest) of None \<Rightarrow> [] | Some rest' \<Rightarrow> emit e True rest')
     else if isWhitespace b then emit e True rest
     else (if p \<and> e then [sp] else []) @ lowerASCII b # emit True False rest)"
  by pat_completeness auto
termination
  by (relation "measure (\<lambda>(e, p, input). length input)")
    (auto dest!: skipComment_shorter)

lemma lowerASCII_other: "byteval c < 65 \<Longrightarrow> lowerASCII b = c \<longleftrightarrow> b = c"
proof (cases "CHR ''A'' \<le> b \<and> b \<le> CHR ''Z''")
  case True
  assume c: "byteval c < 65"
  from True have b: "65 \<le> byteval b" "byteval b \<le> 90" by (simp_all add: less_eq_char_def)
  with True have "byteval (lowerASCII b) = byteval b + 32" by (simp add: lowerASCII_def)
  with b c have "byteval (lowerASCII b) \<noteq> byteval c" "byteval b \<noteq> byteval c" by linarith+
  then show ?thesis by auto
qed (auto simp: lowerASCII_def)

lemma lowerASCII_not_space: "\<not> isWhitespace b \<Longrightarrow> lowerASCII b \<noteq> sp"
  using lowerASCII_other [of sp b] by (auto simp: isWhitespace_def)

lemma trimTrailingSpace_id: "out = [] \<or> last out \<noteq> sp \<Longrightarrow> trimTrailingSpace out = out"
  by (auto simp: trimTrailingSpace_def last_conv_nth)

lemma normalizeLoop_emit:
  "out = [] \<or> last out \<noteq> sp \<Longrightarrow> normalizeLoop out p s = out @ emit (out \<noteq> []) p s"
proof (induction out p s rule: normalizeLoop.induct)
  case (1 out p)
  then show ?case by (simp add: trimTrailingSpace_id)
next
  case (2 out p b rest)
  show ?case
  proof (cases "opensComment (b # rest) \<or> isWhitespace b")
    case True
    with 2 show ?thesis by (auto simp: trimTrailingSpace_id split: option.splits)
  next
    case False
    then show ?thesis using "2.IH"(3) lowerASCII_not_space [of b] by auto
  qed
qed

lemma Normalize_emit: "Normalize s = emit False False s"
  by (simp add: Normalize_def normalizeLoop_emit)

section \<open>Normal form\<close>

text \<open>
  A normal string has no upper-case letter, no white space but single blanks between other
  bytes, and no opening of a comment.
\<close>

fun innerNormal :: "string \<Rightarrow> bool" where
  "innerNormal [] = True"
| "innerNormal [b] = (\<not> isWhitespace b \<and> lowerASCII b = b)"
| "innerNormal (a # b # rest) =
    ((if a = sp then \<not> isWhitespace b
      else \<not> isWhitespace a \<and> lowerASCII a = a \<and> \<not> (a = CHR ''/'' \<and> b = CHR ''*''))
     \<and> innerNormal (b # rest))"

definition normal :: "string \<Rightarrow> bool" where
  "normal s \<longleftrightarrow> innerNormal s \<and> (s = [] \<or> hd s \<noteq> sp)"

lemma lowerASCII_idem [simp]: "lowerASCII (lowerASCII b) = lowerASCII b"
  by (auto simp: lowerASCII_def less_eq_char_def)

lemma lowerASCII_eq_slash [simp]: "lowerASCII b = CHR ''/'' \<longleftrightarrow> b = CHR ''/''"
  by (rule lowerASCII_other) simp

lemma lowerASCII_eq_star [simp]: "lowerASCII b = CHR ''*'' \<longleftrightarrow> b = CHR ''*''"
  by (rule lowerASCII_other) simp

lemma isWhitespace_lowerASCII: "isWhitespace (lowerASCII b) \<longleftrightarrow> isWhitespace b"
proof (cases "CHR ''A'' \<le> b \<and> b \<le> CHR ''Z''")
  case True
  then have "65 \<le> byteval b" "byteval b \<le> 90" by (simp_all add: less_eq_char_def)
  then have "byteval (lowerASCII b) > 32" "byteval b > 32" using True by (simp_all add: lowerASCII_def)
  then show ?thesis by (auto simp: isWhitespace_def)
next
  case False
  then show ?thesis by (auto simp: lowerASCII_def)
qed

lemma emit_first: "emit False p s \<noteq> [] \<Longrightarrow> hd (emit False p s) \<noteq> sp"
proof (induction "False" p s rule: emit.induct)
  case (2 p b rest)
  then show ?case by (auto simp: lowerASCII_not_space split: if_splits option.splits)
qed simp

lemma emit_pending: "emit True True s = [] \<or> hd (emit True True s) = sp"
proof (induction "True" "True" s rule: emit.induct)
  case (2 b rest)
  then show ?case by (auto split: option.splits)
qed simp

lemma emit_star:
  assumes "emit True False s = CHR ''*'' # t"
  obtains r where "s = CHR ''*'' # r"
proof (cases s)
  case Nil
  with assms show thesis by simp
next
  case (Cons b rest)
  have pend: "emit True True x \<noteq> CHR ''*'' # t" for x
    using emit_pending [of x] by auto
  have "lowerASCII b = CHR ''*''"
    using assms Cons pend by (auto split: if_splits option.splits)
  with Cons show thesis by (intro that) simp
qed

lemma innerNormal_Cons:
  assumes "innerNormal t" and "\<not> isWhitespace b" and "lowerASCII b = b"
    and "b = CHR ''/'' \<Longrightarrow> t = [] \<or> hd t \<noteq> CHR ''*''"
  shows "innerNormal (b # t)"
  using assms by (cases t) (auto simp: isWhitespace_def)

lemma innerNormal_blank: "innerNormal (b # t) \<Longrightarrow> \<not> isWhitespace b \<Longrightarrow> innerNormal (sp # b # t)"
  by simp

lemma innerNormal_emit: "innerNormal (emit e p s)"
proof (induction e p s rule: emit.induct)
  case (2 e p b rest)
  show ?case
  proof (cases "opensComment (b # rest) \<or> isWhitespace b")
    case True
    with 2 show ?thesis by (auto split: option.splits)
  next
    case False
    have "hd (emit True False rest) \<noteq> CHR ''*''" if "b = CHR ''/''" "emit True False rest \<noteq> []"
    proof
      assume "hd (emit True False rest) = CHR ''*''"
      with that obtain t where "emit True False rest = CHR ''*'' # t"
        by (cases "emit True False rest") auto
      then obtain r where "rest = CHR ''*'' # r" by (rule emit_star)
      with that False show False by (simp add: opensComment_def)
    qed
    with False 2 have "innerNormal (lowerASCII b # emit True False rest)"
      by (intro innerNormal_Cons) (auto simp: isWhitespace_lowerASCII)
    with False show ?thesis
      by (simp add: innerNormal_blank isWhitespace_lowerASCII)
  qed
qed simp

lemma emit_innerNormal: "innerNormal s \<Longrightarrow> s = [] \<or> e \<or> hd s \<noteq> sp \<Longrightarrow> emit e False s = s"
proof (induction s arbitrary: e rule: innerNormal.induct)
  case (2 b)
  then show ?case by (simp add: opensComment_def)
next
  case (3 a b rest)
  then have inner: "innerNormal (b # rest)" by simp
  show ?case
  proof (cases "a = sp")
    case True
    with "3.prems" have e: "e" and nb: "\<not> isWhitespace b" by auto
    have open_b: "\<not> opensComment (b # rest)"
      using inner nb by (cases rest) (auto simp: opensComment_def isWhitespace_def)
    from inner "3.IH" [of True] have "emit True False (b # rest) = b # rest" by simp
    with open_b nb have "emit True True (b # rest) = sp # b # rest" by simp
    with True e show ?thesis by (simp add: opensComment_def isWhitespace_def)
  next
    case False
    with "3.prems" have a: "\<not> isWhitespace a" "lowerASCII a = a" "\<not> opensComment (a # b # rest)"
      by (auto simp: opensComment_def)
    from inner "3.IH" [of True] have "emit True False (b # rest) = b # rest" by simp
    with a show ?thesis by simp
  qed
qed simp

lemma normal_Normalize: "normal (Normalize s)"
  using innerNormal_emit [of False False s] emit_first [of False s]
  by (auto simp: normal_def Normalize_emit)

lemma Normalize_normal: "normal s \<Longrightarrow> Normalize s = s"
  by (auto simp: normal_def Normalize_emit emit_innerNormal)

end
