(* ===== verification/Waf_Automaton.thy ===== *)
theory Waf_Automaton
  imports Waf_Normalize
begin

text \<open>
  The Aho-Corasick automaton of \<^verbatim>\<open>security/waf/automaton.go\<close>: the trie of the normalized rules,
  the failure links and inherited outputs, computed by a breadth-first loop over a queue. Nodes
  are cells of a store addressed by position, a pointer is an address, \<open>nil\<close> is \<open>None\<close>, so
  that the sharing of nodes between parents, failure links and the queue is explicit. A Go map is
  an association list; the order in which \<open>range\<close> visits it is the argument \<open>rng\<close>. A loop that
  follows pointers is a partial function, whose value \<open>None\<close> is that it does not end.
\<close>

section \<open>Data\<close>

record Rule =
  ID :: string
  Pattern :: string

record Match =
  mPattern :: string
  mField :: string
  mRuleID :: string

record node =
  nxt :: "(byte \<times> nat) list"
  fail :: "nat option"
  outputRule :: "Rule option"

record Automaton =
  heap :: "node list"
  root :: "nat option"

definition newNode :: node where
  "newNode = \<lparr>nxt = [], fail = None, outputRule = None\<rparr>"

section \<open>Rule identifiers\<close>

function zeroPadDigits :: "int \<Rightarrow> string \<Rightarrow> string" where
  "zeroPadDigits value text =
    (if 0 < value then zeroPadDigits (value div 10) (char_of (nat (48 + value mod 10)) # text) else text)"
  by pat_completeness auto
termination
  by (relation "measure (\<lambda>(value, text). nat value)") auto

declare zeroPadDigits.simps [simp del]

definition zeroPad :: "int \<Rightarrow> nat \<Rightarrow> string" where
  "zeroPad value width =
    (let text = zeroPadDigits value [];
         text1 = (if text = [] then ''0'' else text)
     in replicate (width - length text1) (CHR ''0'') @ text1)"

definition ruleID :: "int \<Rightarrow> string" where
  "ruleID index = ''MTWS-WAF-'' @ zeroPad index 4"

section \<open>Construction\<close>

definition child :: "node list \<Rightarrow> nat \<Rightarrow> byte \<Rightarrow> nat option" where
  "child h i b = map_of (nxt (h ! i)) b"

text \<open>Walk down from \<open>current\<close> along the bytes of a pattern, allocating the missing nodes.\<close>

fun insertPattern :: "node list \<Rightarrow> nat \<Rightarrow> string \<Rightarrow> node list \<times> nat" where
  "insertPattern h current [] = (h, current)"
| "insertPattern h current (b # bs) =
    (case child h current b of
       Some n \<Rightarrow> insertPattern h n bs
     | None \<Rightarrow>
        (let n = length h;
             h' = h[current := (h ! current)\<lparr>nxt := nxt (h ! current) @ [(b, n)]\<rparr>] @ [newNode]
         in insertPattern h' n bs))"

definition namedRule :: "int \<Rightarrow> Rule \<Rightarrow> Rule" where
  "namedRule i rule = (if ID rule = [] then rule\<lparr>ID := ruleID (i + 1)\<rparr> else rule)"

fun insertRules :: "node list \<Rightarrow> int \<Rightarrow> Rule list \<Rightarrow> node list" where
  "insertRules h i [] = h"
| "insertRules h i (rule # rules) =
    (if Pattern rule = [] then insertRules h (i + 1) rules
     else
      (let (h1, current) = insertPattern h 0 (Normalize (Pattern rule));
           h2 = h1[current := (h1 ! current)\<lparr>outputRule := Some (namedRule i rule)\<rparr>]
       in insertRules h2 (i + 1) rules))"

text \<open>The children of the root fail to the root and start the queue.\<close>

fun linkRoot :: "node list \<Rightarrow> nat \<Rightarrow> (byte \<times> nat) list \<Rightarrow> nat list \<Rightarrow> node list \<times> nat list" where
  "linkRoot h r [] queue = (h, queue)"
| "linkRoot h r ((b, c) # entries) queue =
    linkRoot (h[c := (h ! c)\<lparr>fail := Some r\<rparr>]) r entries (queue @ [c])"

text \<open>\<open>for fail != nil && fail.next[b] == nil { fail = fail.fail }\<close>\<close>

partial_function (option) findFail :: "node list \<Rightarrow> nat option \<Rightarrow> byte \<Rightarrow> nat option option" where
  "findFail h f b =
    (case f of
       None \<Rightarrow> Some None
     | Some i \<Rightarrow> if child h i b = None then findFail h (fail (h ! i)) b else Some (Some i))"

definition linkChild :: "node list \<Rightarrow> nat \<Rightarrow> nat option \<Rightarrow> byte \<Rightarrow> nat \<Rightarrow> node list" where
  "linkChild h r f b c =
    (case f of
       None \<Rightarrow> h[c := (h ! c)\<lparr>fail := Some r\<rparr>]
     | Some i \<Rightarrow>
        (let t = the (child h i b);
             h1 = h[c := (h ! c)\<lparr>fail := Some t\<rparr>]
         in if outputRule (h1 ! c) = None
            then h1[c := (h1 ! c)\<lparr>outputRule := outputRule (h1 ! t)\<rparr>] else h1))"

text \<open>The body of the breadth-first loop, for the children of the node \<open>current\<close>.\<close>

fun linkChildren :: "node list \<Rightarrow> nat \<Rightarrow> nat \<Rightarrow> (byte \<times> nat) list \<Rightarrow> nat list
    \<Rightarrow> (node list \<times> nat list) option" where
  "linkChildren h r current [] queue = Some (h, queue)"
| "linkChildren h r current ((b, c) # entries) queue =
    (case findFail h (fail (h ! current)) b of
       None \<Rightarrow> None
     | Some f \<Rightarrow> linkChildren (linkChild h r f b c) r current entries (queue @ [c]))"

partial_function (option) linkQueue ::
    "((byte \<times> nat) list \<Rightarrow> (byte \<times> nat) list) \<Rightarrow> node list \<Rightarrow> nat \<Rightarrow> nat list \<Rightarrow> node list option" where
  "linkQueue rng h r queue =
    (if queue = [] then Some h
     else Option.bind (linkChildren h r (hd queue) (rng (nxt (h ! hd queue))) (tl queue))
       (\<lambda>p. linkQueue rng (fst p) r (snd p)))"

declare findFail.simps [code] linkQueue.simps [code]

definition NewRules ::
    "((byte \<times> nat) list \<Rightarrow> (byte \<times> nat) list) \<Rightarrow> Rule list \<Rightarrow> Automaton option" where
  "NewRules rng rules =
    (let h = insertRules [newNode] 0 rules;
         (h', queue) = linkRoot h 0 (rng (nxt (h ! 0))) []
     in map_option (\<lambda>h''. \<lparr>heap = h'', root = Some 0\<rparr>) (linkQueue rng h' 0 queue))"

fun patternRules :: "int \<Rightarrow> string list \<Rightarrow> Rule list" where
  "patternRules i [] = []"
| "patternRules i (pattern # patterns) =
    (if pattern = [] then patternRules (i + 1) patterns
     else \<lparr>ID = ruleID (i + 1), Pattern = pattern\<rparr> # patternRules (i + 1) patterns)"

text \<open>The constructor \<open>New\<close> from plain patterns.\<close>

definition NewPatterns ::
    "((byte \<times> nat) list \<Rightarrow> (byte \<times> nat) list) \<Rightarrow> string list \<Rightarrow> Automaton option" where
  "NewPatterns rng patterns = NewRules rng (patternRules 0 patterns)"

text \<open>
  What Go promises of \<open>range\<close> over a map: every entry once, in an order of its choice.
\<close>

definition rangeOrder :: "((byte \<times> nat) list \<Rightarrow> (byte \<times> nat) list) \<Rightarrow> bool" where
  "rangeOrder rng \<longleftrightarrow>
    (\<forall>m. distinct (map fst m) \<longrightarrow> distinct (rng m) \<and> set (rng m) = set m)"

lemma rangeOrder_id: "rangeOrder id"
  by (simp add: rangeOrder_def distinct_map)

lemma rangeOrder_rev: "rangeOrder rev"
  by (simp add: rangeOrder_def distinct_map)

end
