(* ===== verification/Waf_Words.thy ===== *)
theory Waf_Words
  imports Waf_Automaton
begin

text \<open>
  The words behind the automaton. A state of the automaton stands for a word of a prefix-closed
  set \<open>W\<close>; after a text the automaton is in the state of the longest suffix of the text in
  \<open>W\<close> (\<open>lsuf\<close>), and it reports the rule of the longest suffix that is a rule (\<open>outOf\<close>).
  \<open>refScan\<close> is the search without an automaton, against which the scanner is verified.
\<close>

section \<open>Definitions\<close>

fun lsuf :: "'a list set \<Rightarrow> 'a list \<Rightarrow> 'a list" where
  "lsuf W [] = []"
| "lsuf W (c # cs) = (if c # cs \<in> W then c # cs else lsuf W cs)"

fun outOf :: "('a list \<Rightarrow> 'r option) \<Rightarrow> 'a list \<Rightarrow> 'r option" where
  "outOf own [] = None"
| "outOf own (c # cs) = (case own (c # cs) of Some r \<Rightarrow> Some r | None \<Rightarrow> outOf own cs)"

text \<open>
  The first position at which a rule ends, and there the longest such rule; \<open>seen\<close> is the
  text already read.
\<close>

fun refScan :: "('a list \<Rightarrow> 'r option) \<Rightarrow> 'a list \<Rightarrow> 'a list \<Rightarrow> 'r option" where
  "refScan own seen [] = None"
| "refScan own seen (b # bs) =
    (case outOf own (seen @ [b]) of Some r \<Rightarrow> Some r | None \<Rightarrow> refScan own (seen @ [b]) bs)"

text \<open>The rule that a normalized pattern stands for: the last one of the list with that pattern.\<close>

fun ownRules :: "(string \<Rightarrow> Rule option) \<Rightarrow> int \<Rightarrow> Rule list \<Rightarrow> string \<Rightarrow> Rule option" where
  "ownRules own i [] = own"
| "ownRules own i (rule # rules) =
    (if Pattern rule = [] then ownRules own (i + 1) rules
     else ownRules (own(Normalize (Pattern rule) := Some (namedRule i rule))) (i + 1) rules)"

abbreviation ruleOf :: "Rule list \<Rightarrow> string \<Rightarrow> Rule option" where
  "ruleOf rules \<equiv> ownRules (\<lambda>_. None) 0 rules"

definition stateWords :: "Rule list \<Rightarrow> string set" where
  "stateWords rules =
    insert [] (\<Union>rule \<in> {r \<in> set rules. Pattern r \<noteq> []}. {u. prefix u (Normalize (Pattern rule))})"

section \<open>Longest suffixes\<close>

lemma lsuf_suffix: "suffix (lsuf W w) w"
  by (induction w) (auto intro: suffix_ConsI)

lemma lsuf_length: "length (lsuf W w) \<le> length w"
  using lsuf_suffix by (rule suffix_length_le)

lemma lsuf_self: "w \<in> W \<Longrightarrow> lsuf W w = w"
  by (cases w) auto

lemma lsuf_greatest: "suffix v w \<Longrightarrow> v \<in> W \<Longrightarrow> suffix v (lsuf W w)"
  by (induction w) (auto simp: suffix_Cons)

text \<open>The contract between a trie and the search: its words are closed under prefixes.\<close>

locale prefix_words =
  fixes W :: "'a list set"
  assumes Nil_W: "[] \<in> W"
    and butlast_W: "w @ [b] \<in> W \<Longrightarrow> w \<in> W"
begin

lemma lsuf_in: "lsuf W w \<in> W"
  by (induction w) (auto intro: Nil_W)

lemma lsuf_snoc: "lsuf W (w @ [b]) = lsuf W (lsuf W w @ [b])"
proof (induction w)
  case (Cons c cs)
  then show ?case using butlast_W [of "c # cs" b] by auto
qed simp

lemma lsuf_fail:
  assumes "v @ [b] \<notin> W" and "v \<noteq> []"
  shows "lsuf W (v @ [b]) = lsuf W (lsuf W (tl v) @ [b])"
proof -
  from assms have "lsuf W (v @ [b]) = lsuf W (tl v @ [b])" by (cases v) auto
  then show ?thesis using lsuf_snoc [of "tl v" b] by simp
qed

lemma outOf_lsuf:
  assumes "\<And>v. own v \<noteq> None \<Longrightarrow> v \<in> W"
  shows "outOf own (lsuf W w) = outOf own w"
proof (induction w)
  case (Cons c cs)
  then show ?case using assms [of "c # cs"] by (auto split: option.splits)
qed simp

end

section \<open>What the reference search finds\<close>

lemma outOf_unfold:
  "w \<noteq> [] \<Longrightarrow> outOf own w = (case own w of Some r \<Rightarrow> Some r | None \<Rightarrow> outOf own (tl w))"
  by (cases w) (simp_all split: option.split)

lemma outOf_Some: "outOf own w = Some r \<Longrightarrow> \<exists>v. suffix v w \<and> v \<noteq> [] \<and> own v = Some r"
  by (induction w) (auto simp: suffix_Cons split: option.splits)

lemma outOf_None: "outOf own w = None \<longleftrightarrow> (\<forall>v. suffix v w \<and> v \<noteq> [] \<longrightarrow> own v = None)"
  by (induction w) (auto simp: suffix_Cons split: option.splits)

lemma refScan_Some:
  "refScan own seen t = Some r \<Longrightarrow>
   \<exists>a b v. t = a @ b \<and> a \<noteq> [] \<and> suffix v (seen @ a) \<and> v \<noteq> [] \<and> own v = Some r"
proof (induction own seen t rule: refScan.induct)
  case (2 own seen c cs)
  show ?case
  proof (cases "outOf own (seen @ [c])")
    case None
    with "2.prems" have "refScan own (seen @ [c]) cs = Some r" by simp
    from "2.IH" [OF None this]
    obtain a b v where "cs = a @ b" "suffix v ((seen @ [c]) @ a)" "v \<noteq> []" "own v = Some r"
      by blast
    then have "c # cs = (c # a) @ b" "suffix v (seen @ c # a)" by simp_all
    with \<open>v \<noteq> []\<close> \<open>own v = Some r\<close> show ?thesis by blast
  next
    case (Some r')
    with "2.prems" have "outOf own (seen @ [c]) = Some r" by simp
    from outOf_Some [OF this]
    obtain v where "suffix v (seen @ [c])" "v \<noteq> []" "own v = Some r" by blast
    moreover have "c # cs = [c] @ cs" by simp
    ultimately show ?thesis by blast
  qed
qed simp

lemma refScan_None:
  "refScan own seen t = None \<longleftrightarrow> (\<forall>a. prefix a t \<and> a \<noteq> [] \<longrightarrow> outOf own (seen @ a) = None)"
proof (induction own seen t rule: refScan.induct)
  case (2 own seen c cs)
  have split: "(\<forall>a. prefix a (c # cs) \<and> a \<noteq> [] \<longrightarrow> P a) \<longleftrightarrow> P [c] \<and> (\<forall>a. prefix a cs \<and> a \<noteq> [] \<longrightarrow> P (c # a))"
    for P by (auto simp: prefix_Cons)
  show ?case
  proof (cases "outOf own (seen @ [c])")
    case None
    with 2 show ?thesis unfolding split by simp
  next
    case (Some r)
    then show ?thesis unfolding split by simp
  qed
qed simp

text \<open>The reference search finds something exactly if some rule occurs in the text.\<close>

lemma refScan_occurs:
  "refScan own [] t \<noteq> None \<longleftrightarrow> (\<exists>v. v \<noteq> [] \<and> own v \<noteq> None \<and> sublist v t)"
proof
  assume "refScan own [] t \<noteq> None"
  then obtain a where "prefix a t" "outOf own a \<noteq> None" by (auto simp: refScan_None)
  then obtain v where "suffix v a" "v \<noteq> []" "own v \<noteq> None" by (auto simp: outOf_None)
  moreover from \<open>suffix v a\<close> \<open>prefix a t\<close> have "sublist v t"
    by (meson prefix_imp_sublist suffix_imp_sublist sublist_order.order.trans)
  ultimately show "\<exists>v. v \<noteq> [] \<and> own v \<noteq> None \<and> sublist v t" by blast
next
  assume "\<exists>v. v \<noteq> [] \<and> own v \<noteq> None \<and> sublist v t"
  then obtain v a where v: "v \<noteq> []" "own v \<noteq> None" "suffix v a" and a: "prefix a t"
    unfolding sublist_altdef by blast
  then have "a \<noteq> []" and "outOf own a \<noteq> None" by (auto simp: outOf_None)
  with a show "refScan own [] t \<noteq> None" by (auto simp: refScan_None)
qed

lemma ownRules_dom:
  "ownRules own i rules v \<noteq> None \<longleftrightarrow>
   own v \<noteq> None \<or> (\<exists>r \<in> set rules. Pattern r \<noteq> [] \<and> Normalize (Pattern r) = v)"
proof (induction rules arbitrary: own i)
  case (Cons rule rules)
  show ?case
  proof (cases "Pattern rule = []")
    case True
    with Cons.IH show ?thesis by simp
  next
    case False
    then have "ownRules own i (rule # rules) v =
        ownRules (own(Normalize (Pattern rule) := Some (namedRule i rule))) (i + 1) rules v" by simp
    with False Cons.IH show ?thesis by (cases "v = Normalize (Pattern rule)") auto
  qed
qed simp

lemma ruleOf_iff:
  "ruleOf rules v \<noteq> None \<longleftrightarrow> (\<exists>r \<in> set rules. Pattern r \<noteq> [] \<and> Normalize (Pattern r) = v)"
  by (simp only: ownRules_dom) simp

interpretation states: prefix_words "stateWords rules" for rules
  by unfold_locales (auto simp: stateWords_def dest: append_prefixD)

lemma ruleOf_stateWords: "ruleOf rules v \<noteq> None \<Longrightarrow> v \<in> stateWords rules"
  by (subst (asm) ruleOf_iff) (auto simp: stateWords_def)

end
