(* ===== verification/Waf_Build.thy ===== *)
theory Waf_Build
  imports Waf_Words
begin

text \<open>
  The construction of the automaton is correct: after \<open>insertRules\<close> the store is the trie of the
  normalized rules, and the breadth-first loop gives every node the failure link and the output
  that its word determines, whatever order \<open>range\<close> takes. The ghost list \<open>ps\<close> holds the word
  of every node.
\<close>

section \<open>Invariants\<close>

definition trie :: "node list \<Rightarrow> string list \<Rightarrow> bool" where
  "trie h ps \<longleftrightarrow>
     length ps = length h \<and> 0 < length h \<and> ps ! 0 = [] \<and> distinct ps
     \<and> (\<forall>i < length h. distinct (map fst (nxt (h ! i))))
     \<and> (\<forall>i < length h. \<forall>b j. child h i b = Some j \<longleftrightarrow> j < length h \<and> ps ! j = ps ! i @ [b])
     \<and> (\<forall>w b. w @ [b] \<in> set ps \<longrightarrow> w \<in> set ps)"

text \<open>A node without links, and a node with the links its word determines.\<close>

definition unlinked :: "node list \<Rightarrow> string list \<Rightarrow> (string \<Rightarrow> Rule option) \<Rightarrow> nat \<Rightarrow> bool" where
  "unlinked h ps own k \<longleftrightarrow> fail (h ! k) = None \<and> outputRule (h ! k) = own (ps ! k)"

definition linked :: "node list \<Rightarrow> string list \<Rightarrow> (string \<Rightarrow> Rule option) \<Rightarrow> nat \<Rightarrow> bool" where
  "linked h ps own k \<longleftrightarrow>
     (if ps ! k = [] then fail (h ! k) = None \<and> outputRule (h ! k) = own []
      else (\<exists>j < length h. fail (h ! k) = Some j \<and> ps ! j = lsuf (set ps) (tl (ps ! k)))
           \<and> outputRule (h ! k) = outOf own (ps ! k))"

definition linkedOn :: "node list \<Rightarrow> string list \<Rightarrow> (string \<Rightarrow> Rule option) \<Rightarrow> nat set \<Rightarrow> bool" where
  "linkedOn h ps own D \<longleftrightarrow>
     trie h ps \<and> 0 \<in> D \<and> (\<forall>v. own v \<noteq> None \<longrightarrow> v \<in> set ps)
     \<and> (\<forall>k < length h. if k \<in> D then linked h ps own k else unlinked h ps own k)"

section \<open>The trie\<close>

lemma trie_closed: "trie h ps \<Longrightarrow> w @ [b] \<in> set ps \<Longrightarrow> w \<in> set ps"
  unfolding trie_def by blast

lemma trie_keys: "trie h ps \<Longrightarrow> i < length h \<Longrightarrow> distinct (map fst (nxt (h ! i)))"
  by (simp add: trie_def)

lemma trie_Nil: "trie h ps \<Longrightarrow> [] \<in> set ps"
  by (metis trie_def nth_mem)

lemma trie_prefix_words: "trie h ps \<Longrightarrow> prefix_words (set ps)"
  by unfold_locales (auto intro: trie_closed trie_Nil)

lemma trie_length: "trie h ps \<Longrightarrow> length ps = length h"
  by (simp add: trie_def)

lemma trie_child: "trie h ps \<Longrightarrow> i < length h \<Longrightarrow> child h i b = Some j \<longleftrightarrow> j < length h \<and> ps ! j = ps ! i @ [b]"
  by (simp add: trie_def)

lemma trie_no_child: "trie h ps \<Longrightarrow> i < length h \<Longrightarrow> child h i b = None \<longleftrightarrow> ps ! i @ [b] \<notin> set ps"
proof -
  assume t: "trie h ps" and i: "i < length h"
  have "child h i b \<noteq> None \<longleftrightarrow> (\<exists>j < length h. ps ! j = ps ! i @ [b])"
    using trie_child [OF t i] by auto
  then show ?thesis using trie_length [OF t] by (auto simp: in_set_conv_nth)
qed

lemma trie_entries:
  "trie h ps \<Longrightarrow> i < length h \<Longrightarrow> (b, c) \<in> set (nxt (h ! i)) \<longleftrightarrow> c < length h \<and> ps ! c = ps ! i @ [b]"
  using trie_child [of h ps i b c] map_of_eq_Some_iff [OF trie_keys, of h ps i b c]
  by (simp add: child_def)

lemma trie_inj: "trie h ps \<Longrightarrow> i < length h \<Longrightarrow> j < length h \<Longrightarrow> ps ! i = ps ! j \<longleftrightarrow> i = j"
  by (simp add: trie_def nth_eq_iff_index_eq)

lemma trie_root: "trie h ps \<Longrightarrow> i < length h \<Longrightarrow> ps ! i = [] \<longleftrightarrow> i = 0"
  using trie_inj [of h ps i 0] by (auto simp: trie_def)

lemma trie_cong:
  assumes "length h' = length h" and "\<And>k. k < length h \<Longrightarrow> nxt (h' ! k) = nxt (h ! k)"
  shows "trie h' ps \<longleftrightarrow> trie h ps"
  using assms by (simp add: trie_def child_def cong: conj_cong)

lemma trie_update: "nxt n = nxt (h ! j) \<Longrightarrow> trie (h[j := n]) ps \<longleftrightarrow> trie h ps"
proof (rule trie_cong)
  show "nxt (h[j := n] ! k) = nxt (h ! k)" if "nxt n = nxt (h ! j)" and "k < length h" for k
    using that by (cases "k = j") auto
qed simp

lemma trie_new: "trie [newNode] [[]]"
  by (auto simp: trie_def newNode_def child_def)

lemma trie_alloc:
  assumes t: "trie h ps" and i: "i < length h" and new: "child h i b = None"
  shows "trie (h[i := (h ! i)\<lparr>nxt := nxt (h ! i) @ [(b, length h)]\<rparr>] @ [newNode]) (ps @ [ps ! i @ [b]])"
    (is "trie ?h ?ps")
proof -
  have len: "length ps = length h" using t by (rule trie_length)
  have fresh: "ps ! i @ [b] \<notin> set ps" using trie_no_child [OF t i] new by simp
  have dist: "distinct (map fst (nxt (?h ! k)))" if "k < length ?h" for k
  proof -
    have "b \<notin> fst ` set (nxt (h ! i))" using new by (simp add: child_def map_of_eq_None_iff)
    with that t i show ?thesis
      by (auto simp: trie_def nth_append nth_list_update newNode_def less_Suc_eq)
  qed
  have children: "child ?h k c = Some j \<longleftrightarrow> j < length ?h \<and> ?ps ! j = ?ps ! k @ [c]"
    if k: "k < length ?h" for k c j
  proof (cases "k = length h")
    case True
    have "?ps ! j \<noteq> (ps ! i @ [b]) @ [c]" if "j < length ?h"
    proof (cases "j = length h")
      case False
      with that len have "?ps ! j \<in> set ps" by (simp add: nth_append)
      moreover have "(ps ! i @ [b]) @ [c] \<notin> set ps"
        using fresh trie_closed [OF t, of "ps ! i @ [b]" c] by auto
      ultimately show ?thesis by auto
    qed (use len in \<open>simp add: nth_append\<close>)
    with True len show ?thesis by (auto simp: child_def nth_append newNode_def)
  next
    case False
    with k have kl: "k < length h" by simp
    have old: "child h k c = Some j \<longleftrightarrow> j < length h \<and> ps ! j = ps ! k @ [c]"
      using t kl by (rule trie_child)
    have nth: "?ps ! k = ps ! k" using kl len by (simp add: nth_append)
    have last: "ps ! k @ [c] = ps ! i @ [b] \<longleftrightarrow> k = i \<and> c = b"
      using trie_inj [OF t kl i] by auto
    show ?thesis
    proof (cases "k = i")
      case True
      then have "child ?h k c = (case child h i c of None \<Rightarrow> if c = b then Some (length h) else None | Some j \<Rightarrow> Some j)"
        using i by (auto simp: child_def nth_append map_add_def split: option.splits)
      with True old nth last new len show ?thesis
        by (auto simp: nth_append less_Suc_eq split: option.splits if_splits)
    next
      case ne: False
      with kl have "child ?h k c = child h k c" by (simp add: child_def nth_append)
      with ne old nth last len show ?thesis by (auto simp: nth_append less_Suc_eq)
    qed
  qed
  have closed: "w \<in> set ?ps" if "w @ [c] \<in> set ?ps" for w c
    using that trie_closed [OF t, of w c] i len by (auto intro: nth_mem)
  show ?thesis
    unfolding trie_def using t i len fresh dist children closed by (auto simp: nth_append trie_def)
qed

section \<open>Inserting the rules\<close>

text \<open>A trie none of whose nodes is linked yet.\<close>

definition plainTrie :: "node list \<Rightarrow> string list \<Rightarrow> (string \<Rightarrow> Rule option) \<Rightarrow> bool" where
  "plainTrie h ps own \<longleftrightarrow>
     trie h ps \<and> (\<forall>v. own v \<noteq> None \<longrightarrow> v \<in> set ps) \<and> (\<forall>k < length h. unlinked h ps own k)"

lemma plainTrie_alloc:
  assumes p: "plainTrie h ps own" and i: "i < length h" and new: "child h i b = None"
  shows "plainTrie (h[i := (h ! i)\<lparr>nxt := nxt (h ! i) @ [(b, length h)]\<rparr>] @ [newNode])
           (ps @ [ps ! i @ [b]]) own"
proof -
  from p have t: "trie h ps" and dom: "\<And>v. own v \<noteq> None \<Longrightarrow> v \<in> set ps"
    and u: "\<And>k. k < length h \<Longrightarrow> unlinked h ps own k" by (auto simp: plainTrie_def)
  have "own (ps ! i @ [b]) = None"
    using dom [of "ps ! i @ [b]"] trie_no_child [OF t i] new by fastforce
  with u t i trie_length [OF t] trie_alloc [OF t i new] dom show ?thesis
    by (auto simp: plainTrie_def unlinked_def nth_append nth_list_update newNode_def less_Suc_eq)
qed

lemma insertPattern_plainTrie:
  assumes "plainTrie h ps own" and "i < length h" and "insertPattern h i w = (h', j)"
  shows "\<exists>qs. plainTrie h' (ps @ qs) own \<and> j < length h' \<and> (ps @ qs) ! j = ps ! i @ w
    \<and> set (ps @ qs) = set ps \<union> {ps ! i @ u | u. prefix u w}"
  using assms
proof (induction h i w arbitrary: ps rule: insertPattern.induct)
  case (1 h i)
  then have "ps ! i \<in> set ps" by (auto simp: plainTrie_def trie_length)
  with 1 show ?case by (auto intro!: exI [of _ "[]"])
next
  case (2 h i b bs)
  from "2.prems" have t: "trie h ps" and i: "i < length h" by (auto simp: plainTrie_def)
  have len: "length ps = length h" using t by (rule trie_length)
  have ext: "{ps ! i @ u | u. prefix u (b # bs)}
      = insert (ps ! i) {(ps ! i @ [b]) @ u | u. prefix u bs}"
    by (auto simp: prefix_Cons)
  have here: "ps ! i \<in> set ps" using i len by simp
  show ?case
  proof (cases "child h i b")
    case (Some n)
    then have n: "n < length h" and w: "ps ! n = ps ! i @ [b]"
      using trie_child [OF t i] by auto
    from Some "2.prems" have "insertPattern h n bs = (h', j)" by simp
    from "2.IH"(2) [OF Some "2.prems"(1) n this] ext here w show ?thesis by auto
  next
    case None
    let ?h = "h[i := (h ! i)\<lparr>nxt := nxt (h ! i) @ [(b, length h)]\<rparr>] @ [newNode]"
    let ?ps = "ps @ [ps ! i @ [b]]"
    have p: "plainTrie ?h ?ps own" using "2.prems"(1) i None by (rule plainTrie_alloc)
    have ins: "insertPattern ?h (length h) bs = (h', j)" using None "2.prems"(3) by (simp add: Let_def)
    have w: "?ps ! length h = ps ! i @ [b]" using len by (simp add: nth_append)
    have "length h < length ?h" by simp
    from "2.IH"(1) [OF None refl refl p this ins] w
    obtain qs where qs: "plainTrie h' (?ps @ qs) own" "j < length h'" "(?ps @ qs) ! j = (ps ! i @ [b]) @ bs"
        "set (?ps @ qs) = set ?ps \<union> {(ps ! i @ [b]) @ u | u. prefix u bs}"
      by auto
    have "(ps ! i @ [b]) \<in> {(ps ! i @ [b]) @ u | u. prefix u bs}" by auto
    then have "set (?ps @ qs) = set ps \<union> {ps ! i @ u | u. prefix u (b # bs)}"
      unfolding qs(4) ext using here by auto
    with qs(1-3) show ?thesis by (intro exI [of _ "(ps ! i @ [b]) # qs"]) simp
  qed
qed

lemma plainTrie_setOutput:
  assumes p: "plainTrie h ps own" and j: "j < length h"
  shows "plainTrie (h[j := (h ! j)\<lparr>outputRule := Some r\<rparr>]) ps (own(ps ! j := Some r))"
proof -
  from p have t: "trie h ps" by (simp add: plainTrie_def)
  then have "trie (h[j := (h ! j)\<lparr>outputRule := Some r\<rparr>]) ps"
    by (simp add: trie_update)
  with p j trie_inj [OF t _ j] trie_length [OF t] show ?thesis
    by (auto simp: plainTrie_def unlinked_def nth_list_update)
qed

lemma insertRules_plainTrie:
  assumes "plainTrie h ps own"
  shows "\<exists>qs. plainTrie (insertRules h i rules) (ps @ qs) (ownRules own i rules)
    \<and> set (ps @ qs) = set ps \<union> stateWords rules"
  using assms
proof (induction rules arbitrary: h ps own i)
  case Nil
  then have "[] \<in> set ps" by (auto simp: plainTrie_def intro: trie_Nil)
  with Nil show ?case by (auto simp: stateWords_def intro!: exI [of _ "[]"])
next
  case (Cons rule rules)
  show ?case
  proof (cases "Pattern rule = []")
    case True
    then have "stateWords (rule # rules) = stateWords rules" by (auto simp: stateWords_def)
    with True Cons show ?thesis by simp
  next
    case False
    let ?w = "Normalize (Pattern rule)"
    from Cons.prems have t: "trie h ps" by (simp add: plainTrie_def)
    then have z: "0 < length h" "ps ! 0 = []" by (auto simp: trie_def)
    obtain h1 j where ins: "insertPattern h 0 ?w = (h1, j)" by (cases "insertPattern h 0 ?w")
    from insertPattern_plainTrie [OF Cons.prems z(1) ins] z(2)
    obtain qs where qs: "plainTrie h1 (ps @ qs) own" "j < length h1" "(ps @ qs) ! j = ?w"
      "set (ps @ qs) = set ps \<union> {u. prefix u ?w}" by auto
    let ?h2 = "h1[j := (h1 ! j)\<lparr>outputRule := Some (namedRule i rule)\<rparr>]"
    have "plainTrie ?h2 (ps @ qs) (own(?w := Some (namedRule i rule)))"
      using plainTrie_setOutput [OF qs(1,2)] qs(3) by simp
    from Cons.IH [OF this]
    obtain rs where rs: "plainTrie (insertRules ?h2 (i + 1) rules) ((ps @ qs) @ rs)
        (ownRules (own(?w := Some (namedRule i rule))) (i + 1) rules)"
      "set ((ps @ qs) @ rs) = set (ps @ qs) \<union> stateWords rules" by blast
    have "stateWords (rule # rules) = {u. prefix u ?w} \<union> stateWords rules"
      using False by (auto simp: stateWords_def)
    with rs(2) qs(4) have "set (ps @ qs @ rs) = set ps \<union> stateWords (rule # rules)"
      by (auto simp del: Un_iff)
    with False ins rs(1) show ?thesis by (intro exI [of _ "qs @ rs"]) simp
  qed
qed

lemma plainTrie_new: "plainTrie [newNode] [[]] (\<lambda>_. None)"
  using trie_new by (simp add: plainTrie_def unlinked_def newNode_def)

corollary insertRules_built:
  "\<exists>ps. plainTrie (insertRules [newNode] 0 rules) ps (ruleOf rules) \<and> set ps = stateWords rules"
proof -
  obtain qs where "plainTrie (insertRules [newNode] 0 rules) ([[]] @ qs) (ruleOf rules)"
    "set ([[]] @ qs) = set [[]] \<union> stateWords rules"
    using insertRules_plainTrie [OF plainTrie_new, of 0 rules] by blast
  moreover have "[] \<in> stateWords rules" by (simp add: stateWords_def)
  ultimately show ?thesis by (intro exI [of _ "[[]] @ qs"]) auto
qed

section \<open>Following failure links\<close>

lemma linkedOn_trie: "linkedOn h ps own D \<Longrightarrow> trie h ps"
  by (simp add: linkedOn_def)

lemma linkedOn_linked: "linkedOn h ps own D \<Longrightarrow> k < length h \<Longrightarrow> k \<in> D \<Longrightarrow> linked h ps own k"
  by (simp add: linkedOn_def)

lemma linkedOn_unlinked: "linkedOn h ps own D \<Longrightarrow> k < length h \<Longrightarrow> k \<notin> D \<Longrightarrow> unlinked h ps own k"
  by (simp add: linkedOn_def)

lemma linkedOn_own: "linkedOn h ps own D \<Longrightarrow> own v \<noteq> None \<Longrightarrow> v \<in> set ps"
  by (simp add: linkedOn_def)

lemma linked_root: "linked h ps own k \<Longrightarrow> ps ! k = [] \<Longrightarrow> fail (h ! k) = None"
  by (simp add: linked_def)

lemma linked_output: "linked h ps own k \<Longrightarrow> own [] = None \<Longrightarrow> outputRule (h ! k) = outOf own (ps ! k)"
  by (cases "ps ! k = []") (simp_all add: linked_def)

lemma linked_fail:
  assumes "linked h ps own k" and "ps ! k \<noteq> []"
  obtains j where "j < length h" "fail (h ! k) = Some j" "ps ! j = lsuf (set ps) (tl (ps ! k))"
  using assms by (auto simp: linked_def)

text \<open>
  Following failure links from the node of a word \<open>v\<close> until a child for \<open>b\<close> exists finds
  the longest suffix of \<open>v @ [b]\<close> that is a state; \<open>nil\<close> is the empty one.
\<close>

lemma findFail_lsuf:
  assumes l: "linkedOn h ps own D" and i: "i < length h"
    and low: "\<And>k. k < length h \<Longrightarrow> length (ps ! k) \<le> length (ps ! i) \<Longrightarrow> k \<in> D"
  shows "\<exists>f. findFail h (Some i) b = Some f
    \<and> (case f of None \<Rightarrow> lsuf (set ps) (ps ! i @ [b]) = []
       | Some j \<Rightarrow> j < length h \<and> ps ! j @ [b] \<in> set ps \<and> lsuf (set ps) (ps ! i @ [b]) = ps ! j @ [b])"
  using i low
proof (induction "length (ps ! i)" arbitrary: i rule: less_induct)
  case less
  have t: "trie h ps" using l by (rule linkedOn_trie)
  show ?case
  proof (cases "child h i b")
    case (Some c)
    then have "ps ! i @ [b] \<in> set ps" using trie_no_child [OF t less.prems(1), of b] by auto
    with Some less.prems(1) show ?thesis by (simp add: findFail.simps lsuf_self)
  next
    case None
    then have out: "ps ! i @ [b] \<notin> set ps" using trie_no_child [OF t less.prems(1)] by simp
    have lk: "linked h ps own i" using linkedOn_linked [OF l less.prems(1)] less.prems by blast
    show ?thesis
    proof (cases "ps ! i = []")
      case True
      with lk have "fail (h ! i) = None" by (rule linked_root)
      with None True out show ?thesis by (simp add: findFail.simps [of h "Some i"] findFail.simps [of h None])
    next
      case False
      with lk obtain j where j: "j < length h" "fail (h ! i) = Some j"
        "ps ! j = lsuf (set ps) (tl (ps ! i))" by (rule linked_fail)
      have shorter: "length (ps ! j) < length (ps ! i)"
        using False lsuf_length [of "set ps" "tl (ps ! i)"] j(3) by (cases "ps ! i") auto
      have lowj: "k \<in> D" if "k < length h" "length (ps ! k) \<le> length (ps ! j)" for k
        using that shorter less.prems(2) [of k] by simp
      have same: "lsuf (set ps) (ps ! i @ [b]) = lsuf (set ps) (ps ! j @ [b])"
        using prefix_words.lsuf_fail [OF trie_prefix_words [OF t] out False] j(3) by simp
      have next_step: "findFail h (Some i) b = findFail h (Some j) b"
        using None j(2) by (simp add: findFail.simps [of h "Some i"])
      show ?thesis
        unfolding same next_step using less.hyps [OF shorter j(1) lowj] .
    qed
  qed
qed

section \<open>Linking a node\<close>

lemma node_same_output: "outputRule n = r \<Longrightarrow> n\<lparr>fail := f, outputRule := r\<rparr> = n\<lparr>fail := f\<rparr>"
  by (cases n) simp

lemma linked_cong:
  assumes "length h' = length h" and "h' ! k = h ! k"
  shows "linked h' ps own k = linked h ps own k" and "unlinked h' ps own k = unlinked h ps own k"
  using assms by (simp_all add: linked_def unlinked_def)

lemma linkedOn_update:
  assumes l: "linkedOn h ps own D" and c: "c < length h" and n: "nxt n = nxt (h ! c)"
    and lk: "linked (h[c := n]) ps own c"
  shows "linkedOn (h[c := n]) ps own (insert c D)"
proof -
  have "if k \<in> insert c D then linked (h[c := n]) ps own k else unlinked (h[c := n]) ps own k"
    if "k < length h" for k
  proof (cases "k = c")
    case False
    with that l show ?thesis
      by (simp add: linkedOn_def linked_cong [of "h[c := n]" h])
  qed (use lk in simp)
  with l n show ?thesis by (simp add: linkedOn_def trie_update)
qed

lemma linkRoot_step:
  assumes l: "linkedOn h ps own D" and c: "c < length h" and w: "ps ! c = [b]" and new: "c \<notin> D"
  shows "linkedOn (h[c := (h ! c)\<lparr>fail := Some 0\<rparr>]) ps own (insert c D)"
proof (rule linkedOn_update [OF l c])
  have "outputRule (h ! c) = own [b]" using linkedOn_unlinked [OF l c new] w by (simp add: unlinked_def)
  moreover have "0 < length h" "ps ! 0 = []" using linkedOn_trie [OF l] by (auto simp: trie_def)
  ultimately show "linked (h[c := (h ! c)\<lparr>fail := Some 0\<rparr>]) ps own c"
    using c w by (auto simp: linked_def split: option.splits)
qed simp

lemma linkChild_step:
  assumes l: "linkedOn h ps own D" and c: "c < length h" and new: "c \<notin> D"
    and cu: "cu < length h" "cu \<in> D" "ps ! cu \<noteq> []" and w: "ps ! c = ps ! cu @ [b]"
    and low: "\<And>k. k < length h \<Longrightarrow> length (ps ! k) \<le> length (ps ! cu) \<Longrightarrow> k \<in> D"
  shows "\<exists>f. findFail h (fail (h ! cu)) b = Some f \<and> linkedOn (linkChild h 0 f b c) ps own (insert c D)"
proof -
  have t: "trie h ps" using l by (rule linkedOn_trie)
  note words = trie_prefix_words [OF t]
  have root: "0 < length h" "ps ! 0 = []" using t by (auto simp: trie_def)
  obtain j where j: "j < length h" "fail (h ! cu) = Some j" "ps ! j = lsuf (set ps) (tl (ps ! cu))"
    using linkedOn_linked [OF l cu(1,2)] cu(3) by (rule linked_fail)
  have lowj: "k \<in> D" if "k < length h" "length (ps ! k) \<le> length (ps ! j)" for k
    using that low [of k] lsuf_length [of "set ps" "tl (ps ! cu)"] j(3) by simp
  obtain f where f: "findFail h (Some j) b = Some f"
    and spec: "case f of None \<Rightarrow> lsuf (set ps) (ps ! j @ [b]) = []
       | Some i \<Rightarrow> i < length h \<and> ps ! i @ [b] \<in> set ps \<and> lsuf (set ps) (ps ! j @ [b]) = ps ! i @ [b]"
    using findFail_lsuf [OF l j(1) lowj] by blast
  have target: "lsuf (set ps) (tl (ps ! c)) = lsuf (set ps) (ps ! j @ [b])"
    using w cu(3) j(3) prefix_words.lsuf_snoc [OF words, of "tl (ps ! cu)" b] by simp
  have own_c: "outputRule (h ! c) = own (ps ! c)"
    using linkedOn_unlinked [OF l c new] by (simp add: unlinked_def)
  have tail: "outOf own (ps ! c) = (case own (ps ! c) of Some r \<Rightarrow> Some r | None \<Rightarrow> outOf own (tl (ps ! c)))"
    using w by (intro outOf_unfold) simp
  have inherit: "outOf own (tl (ps ! c)) = outOf own (lsuf (set ps) (tl (ps ! c)))"
    using prefix_words.outOf_lsuf [OF words] linkedOn_own [OF l] by metis
  have "linkedOn (linkChild h 0 f b c) ps own (insert c D)"
  proof (cases f)
    case None
    with spec target have e: "lsuf (set ps) (tl (ps ! c)) = []" by simp
    have "linkedOn (h[c := (h ! c)\<lparr>fail := Some 0\<rparr>]) ps own (insert c D)"
      using e w root own_c tail inherit c
      by (intro linkedOn_update [OF l c]) (auto simp: linked_def split: option.splits)
    with None show ?thesis by (simp add: linkChild_def)
  next
    case (Some i)
    with spec target have i: "i < length h" "ps ! i @ [b] \<in> set ps"
      and e: "lsuf (set ps) (tl (ps ! c)) = ps ! i @ [b]" by auto
    obtain u where u: "child h i b = Some u" using trie_no_child [OF t i(1), of b] i(2) by auto
    then have ul: "u < length h" and uw: "ps ! u = ps ! i @ [b]" using trie_child [OF t i(1)] by auto
    have "length (ps ! u) \<le> length (ps ! cu)"
      using e uw lsuf_length [of "set ps" "tl (ps ! c)"] w by simp
    then have ud: "u \<in> D" using low ul by blast
    then have uc: "u \<noteq> c" using new by auto
    have ou: "outputRule (h ! u) = outOf own (ps ! u)"
      using linkedOn_linked [OF l ul ud] uw by (simp add: linked_def)
    define n where "n = (h ! c)\<lparr>fail := Some u, outputRule := outOf own (ps ! c)\<rparr>"
    have "linkChild h 0 f b c = h[c := n]"
      using Some u c uc ou own_c tail inherit e uw
      by (auto simp: linkChild_def n_def Let_def node_same_output split: option.splits)
    moreover have "linkedOn (h[c := n]) ps own (insert c D)"
      using c e uw ul w by (intro linkedOn_update [OF l c]) (auto simp: linked_def n_def)
    ultimately show ?thesis by simp
  qed
  with f j(2) show ?thesis by auto
qed

section \<open>The loops\<close>

lemma nxt_list_update: "nxt n = nxt (h ! c) \<Longrightarrow> nxt (h[c := n] ! k) = nxt (h ! k)"
  by (cases "c < length h"; cases "k = c") (auto simp: list_update_beyond not_less)

lemma linkRoot_linkedOn:
  assumes "linkedOn h ps own D" and "distinct es"
    and "\<And>b c. (b, c) \<in> set es \<Longrightarrow> c < length h \<and> ps ! c = [b] \<and> c \<notin> D"
    and "linkRoot h 0 es q = (h', q')"
  shows "linkedOn h' ps own (D \<union> snd ` set es) \<and> q' = q @ map snd es \<and> length h' = length h
    \<and> (\<forall>k. nxt (h' ! k) = nxt (h ! k))"
  using assms
proof (induction es arbitrary: h D q)
  case (Cons e es)
  obtain b c where e: "e = (b, c)" by (cases e)
  let ?h = "h[c := (h ! c)\<lparr>fail := Some 0\<rparr>]"
  have bc: "c < length h" "ps ! c = [b]" "c \<notin> D" using Cons.prems(3) [of b c] e by auto
  have step: "linkedOn ?h ps own (insert c D)" using linkRoot_step [OF Cons.prems(1) bc] .
  have rest: "c' < length ?h \<and> ps ! c' = [b'] \<and> c' \<notin> insert c D" if "(b', c') \<in> set es" for b' c'
    using Cons.prems(2,3) that e bc(2) by fastforce
  have "linkRoot ?h 0 es (q @ [c]) = (h', q')" using Cons.prems(4) e by simp
  from Cons.IH [OF step _ rest this] Cons.prems(2) e show ?case
    by (simp add: nxt_list_update)
qed simp

lemma linkChildren_linkedOn:
  assumes "linkedOn h ps own D" and "distinct es"
    and cu: "cu < length h" "cu \<in> D" "ps ! cu \<noteq> []"
    and low: "\<And>k. k < length h \<Longrightarrow> length (ps ! k) \<le> length (ps ! cu) \<Longrightarrow> k \<in> D"
    and "\<And>b c. (b, c) \<in> set es \<Longrightarrow> c < length h \<and> ps ! c = ps ! cu @ [b] \<and> c \<notin> D"
  shows "\<exists>h'. linkChildren h 0 cu es q = Some (h', q @ map snd es)
    \<and> linkedOn h' ps own (D \<union> snd ` set es) \<and> length h' = length h \<and> (\<forall>k. nxt (h' ! k) = nxt (h ! k))"
  using assms
proof (induction es arbitrary: h D q)
  case (Cons e es)
  obtain b c where e: "e = (b, c)" by (cases e)
  have bc: "c < length h" "ps ! c = ps ! cu @ [b]" "c \<notin> D" using Cons.prems(7) [of b c] e by auto
  obtain f where f: "findFail h (fail (h ! cu)) b = Some f"
    and step: "linkedOn (linkChild h 0 f b c) ps own (insert c D)"
    using linkChild_step [OF Cons.prems(1) bc(1,3) Cons.prems(3-5) bc(2) Cons.prems(6)] by blast
  let ?h = "linkChild h 0 f b c"
  have len: "length ?h = length h" and nx: "nxt (?h ! k) = nxt (h ! k)" for k
    by (auto simp: linkChild_def Let_def nxt_list_update split: option.splits)
  have rest: "c' < length ?h \<and> ps ! c' = ps ! cu @ [b'] \<and> c' \<notin> insert c D" if "(b', c') \<in> set es" for b' c'
    using Cons.prems(2,7) that e bc(2) len by fastforce
  have low': "k \<in> insert c D" if "k < length ?h" "length (ps ! k) \<le> length (ps ! cu)" for k
    using Cons.prems(6) [of k] that len by simp
  have "\<exists>h'. linkChildren ?h 0 cu es (q @ [c]) = Some (h', (q @ [c]) @ map snd es)
    \<and> linkedOn h' ps own (insert c D \<union> snd ` set es) \<and> length h' = length ?h \<and> (\<forall>k. nxt (h' ! k) = nxt (?h ! k))"
    using Cons.prems(2-5) len low' rest by (intro Cons.IH [OF step]) auto
  with f e len nx show ?case by auto
qed simp

text \<open>
  The invariant of the breadth-first loop: \<open>S\<close> are the nodes already taken from the queue \<open>q\<close>.
  Linked are the root, \<open>S\<close> and the queue; these are the children of the root and of \<open>S\<close>; the
  queue is ordered by depth and spans at most two levels.
\<close>

definition queueInv ::
    "node list \<Rightarrow> string list \<Rightarrow> (string \<Rightarrow> Rule option) \<Rightarrow> nat set \<Rightarrow> nat list \<Rightarrow> bool" where
  "queueInv h ps own S q \<longleftrightarrow>
     linkedOn h ps own ({0} \<union> S \<union> set q) \<and> distinct q \<and> S \<inter> set q = {} \<and> 0 \<notin> S \<union> set q
     \<and> S \<union> set q \<subseteq> {..<length h}
     \<and> sorted (map (\<lambda>k. length (ps ! k)) q) \<and> (\<forall>k \<in> set q. length (ps ! k) \<le> Suc (length (ps ! hd q)))
     \<and> (\<forall>k < length h. k \<noteq> 0 \<longrightarrow> (k \<in> S \<union> set q \<longleftrightarrow> (\<exists>p \<in> insert 0 S. \<exists>b. ps ! k = ps ! p @ [b])))"

lemma trie_parent:
  assumes t: "trie h ps" and k: "k < length h" "k \<noteq> 0"
  obtains p b where "p < length h" "ps ! k = ps ! p @ [b]"
proof -
  have "ps ! k \<noteq> []" using trie_root [OF t k(1)] k(2) by simp
  then obtain w b where wb: "ps ! k = w @ [b]" by (cases "ps ! k" rule: rev_cases) auto
  moreover have "ps ! k \<in> set ps" using k trie_length [OF t] by simp
  ultimately have "w \<in> set ps" using trie_closed [OF t, of w b] by simp
  then obtain p where "p < length h" "ps ! p = w" using trie_length [OF t] by (auto simp: in_set_conv_nth)
  with wb show thesis by (intro that) auto
qed

lemma queueInv_low:
  assumes i: "queueInv h ps own S q" and k: "k < length h"
    and low: "\<And>p. p \<in> set q \<Longrightarrow> length (ps ! k) \<le> length (ps ! p)"
  shows "k \<in> {0} \<union> S \<union> set q"
  using k low
proof (induction "length (ps ! k)" arbitrary: k rule: less_induct)
  case less
  have t: "trie h ps" using i by (auto simp: queueInv_def linkedOn_def)
  show ?case
  proof (cases "k = 0")
    case False
    then obtain p b where p: "p < length h" "ps ! k = ps ! p @ [b]"
      using trie_parent [OF t less.prems(1)] by blast
    have "p \<in> {0} \<union> S \<union> set q"
      using p less.prems(2) by (intro less.hyps) force+
    moreover have "p \<notin> set q" using less.prems(2) [of p] p(2) by auto
    ultimately have "p \<in> insert 0 S" by auto
    with p less.prems(1) False i show ?thesis unfolding queueInv_def by blast
  qed simp
qed

lemma queueInv_step:
  assumes i: "queueInv h ps own S (cu # q)" and rng: "rangeOrder rng"
  shows "\<exists>h'. linkChildren h 0 cu (rng (nxt (h ! cu))) q = Some (h', q @ map snd (rng (nxt (h ! cu))))
    \<and> queueInv h' ps own (insert cu S) (q @ map snd (rng (nxt (h ! cu)))) \<and> length h' = length h"
proof -
  let ?es = "rng (nxt (h ! cu))" and ?D = "{0} \<union> S \<union> set (cu # q)"
  have l: "linkedOn h ps own ?D" using i by (simp add: queueInv_def)
  then have t: "trie h ps" by (rule linkedOn_trie)
  have cu: "cu < length h" "cu \<noteq> 0" "cu \<notin> S" "cu \<notin> set q" using i by (auto simp: queueInv_def)
  have es: "distinct ?es" "set ?es = set (nxt (h ! cu))"
    using rng trie_keys [OF t cu(1)] by (auto simp: rangeOrder_def)
  have entry: "(b, c) \<in> set ?es \<longleftrightarrow> c < length h \<and> ps ! c = ps ! cu @ [b]" for b c
    using trie_entries [OF t cu(1)] es(2) by simp
  have closure: "k \<in> S \<union> set (cu # q) \<longleftrightarrow> (\<exists>p \<in> insert 0 S. \<exists>b. ps ! k = ps ! p @ [b])"
    if "k < length h" "k \<noteq> 0" for k using i that by (simp add: queueInv_def)
  have S_sub: "insert 0 S \<subseteq> {..<length h}" using i t by (auto simp: queueInv_def trie_def)
  have fresh: "c \<notin> ?D" if c: "c < length h" "ps ! c = ps ! cu @ [b]" for b c
  proof
    assume "c \<in> ?D"
    moreover have "c \<noteq> 0" using c trie_root [OF t c(1)] by auto
    ultimately obtain p b' where p: "p \<in> insert 0 S" "ps ! c = ps ! p @ [b']"
      using closure [OF c(1)] by auto
    with c have "ps ! p = ps ! cu" by simp
    with p S_sub trie_inj [OF t _ cu(1), of p] have "p = cu" by auto
    with p cu show False by auto
  qed
  have low: "k \<in> ?D" if k: "k < length h" and "length (ps ! k) \<le> length (ps ! cu)" for k
  proof (rule queueInv_low [OF i k])
    show "length (ps ! k) \<le> length (ps ! p)" if "p \<in> set (cu # q)" for p
      using that \<open>length (ps ! k) \<le> length (ps ! cu)\<close> i by (auto simp: queueInv_def)
  qed
  have ne: "ps ! cu \<noteq> []" using cu trie_root [OF t cu(1)] by simp
  have cu_in: "cu \<in> ?D" by simp
  have new: "c < length h \<and> ps ! c = ps ! cu @ [b] \<and> c \<notin> ?D" if "(b, c) \<in> set ?es" for b c
    using that entry fresh by blast
  from linkChildren_linkedOn [OF l es(1) cu(1) cu_in ne low new, of q]
  obtain h' where h': "linkChildren h 0 cu ?es q = Some (h', q @ map snd ?es)"
      "linkedOn h' ps own (?D \<union> snd ` set ?es)" "length h' = length h"
    by blast
  have kids: "snd ` set ?es = {c. c < length h \<and> (\<exists>b. ps ! c = ps ! cu @ [b])}"
    using entry by (auto simp: image_iff) force
  have "inj_on snd (set ?es)" using entry by (auto simp: inj_on_def)
  then have dist: "distinct (map snd ?es)" using es(1) by (simp add: distinct_map)
  have depth: "length (ps ! c) = Suc (length (ps ! cu))" if "c \<in> snd ` set ?es" for c
    using that kids by auto
  have qd: "length (ps ! cu) \<le> length (ps ! k)" "length (ps ! k) \<le> Suc (length (ps ! cu))" if "k \<in> set q" for k
    using i that by (auto simp: queueInv_def)
  let ?q = "q @ map snd ?es"
  have "queueInv h' ps own (insert cu S) ?q"
    unfolding queueInv_def
  proof (intro conjI allI impI)
    show "linkedOn h' ps own ({0} \<union> insert cu S \<union> set ?q)"
      using h'(2) by (simp add: Un_assoc)
    show "distinct ?q" using i dist kids fresh by (auto simp: queueInv_def)
    show "insert cu S \<inter> set ?q = {}" using i cu kids fresh by (auto simp: queueInv_def)
    show "0 \<notin> insert cu S \<union> set ?q" using i cu kids fresh by (auto simp: queueInv_def)
    show "insert cu S \<union> set ?q \<subseteq> {..<length h'}" using i cu kids h'(3) by (auto simp: queueInv_def)
    show "sorted (map (\<lambda>k. length (ps ! k)) ?q)"
      using i depth qd sorted_map_const [of "map snd ?es" "\<lambda>k. length (ps ! k)"]
      by (auto simp: queueInv_def sorted_append)
    show "\<forall>k \<in> set ?q. length (ps ! k) \<le> Suc (length (ps ! hd ?q))"
    proof
      fix k assume k: "k \<in> set ?q"
      have range: "length (ps ! cu) \<le> length (ps ! x) \<and> length (ps ! x) \<le> Suc (length (ps ! cu))"
        if "x \<in> set ?q" for x
        using that depth [of x] qd [of x] by (cases "x \<in> set q") simp_all
      from k have "hd ?q \<in> set ?q" by (intro hd_in_set) auto
      from range [OF this] range [OF k] show "length (ps ! k) \<le> Suc (length (ps ! hd ?q))" by simp
    qed
    show "k \<in> insert cu S \<union> set ?q \<longleftrightarrow> (\<exists>p \<in> insert 0 (insert cu S). \<exists>b. ps ! k = ps ! p @ [b])"
      if "k < length h'" "k \<noteq> 0" for k
      using closure [of k] that kids h'(3) by auto
  qed
  with h' show ?thesis by blast
qed

lemma linkQueue_linkedOn:
  assumes "queueInv h ps own S q" and "rangeOrder rng"
  shows "\<exists>h'. linkQueue rng h 0 q = Some h' \<and> linkedOn h' ps own {..<length h'}"
  using assms(1)
proof (induction "length h - card S" arbitrary: h S q rule: less_induct)
  case less
  have l: "linkedOn h ps own ({0} \<union> S \<union> set q)" and sub: "S \<union> set q \<subseteq> {..<length h}"
    using less.prems by (simp_all add: queueInv_def)
  show ?case
  proof (cases q)
    case Nil
    have "k \<in> {0} \<union> S" if "k < length h" for k
      using queueInv_low [OF less.prems that] Nil by simp
    then have "{0} \<union> S = {..<length h}"
      using sub linkedOn_trie [OF l] by (auto simp: trie_def)
    with l Nil have "linkedOn h ps own {..<length h}" by simp
    with Nil show ?thesis by (simp add: linkQueue.simps [of rng h])
  next
    case (Cons cu q')
    let ?es = "rng (nxt (h ! cu))"
    obtain h' where h': "linkChildren h 0 cu ?es q' = Some (h', q' @ map snd ?es)"
      and i: "queueInv h' ps own (insert cu S) (q' @ map snd ?es)" and len: "length h' = length h"
      using queueInv_step [OF less.prems [unfolded Cons] assms(2)] by blast
    have "finite S" "cu \<notin> S" "insert cu S \<subseteq> {..<length h}"
      using sub less.prems Cons by (auto simp: queueInv_def intro: finite_subset)
    then have "Suc (card S) \<le> length h"
      using card_mono [of "{..<length h}" "insert cu S"] by simp
    with \<open>finite S\<close> \<open>cu \<notin> S\<close> len have "length h' - card (insert cu S) < length h - card S" by simp
    from less.hyps [OF this i] h' Cons show ?thesis
      by (simp add: linkQueue.simps [of rng h 0 "cu # q'"])
  qed
qed

text \<open>The automaton that \<open>NewRules\<close> returns, and that it returns one.\<close>

definition built :: "Automaton \<Rightarrow> string list \<Rightarrow> (string \<Rightarrow> Rule option) \<Rightarrow> bool" where
  "built a ps own \<longleftrightarrow> root a = Some 0 \<and> linkedOn (heap a) ps own {..<length (heap a)}"

theorem NewRules_built:
  assumes rng: "rangeOrder rng"
  shows "\<exists>a ps. NewRules rng rules = Some a \<and> built a ps (ruleOf rules) \<and> set ps = stateWords rules"
proof -
  let ?h = "insertRules [newNode] 0 rules" and ?own = "ruleOf rules"
  obtain ps where p: "plainTrie ?h ps ?own" and ps: "set ps = stateWords rules"
    using insertRules_built by blast
  then have t: "trie ?h ps" by (simp add: plainTrie_def)
  have z: "0 < length ?h" "ps ! 0 = []" using t by (auto simp: trie_def)
  have l: "linkedOn ?h ps ?own {0}"
    using p z by (auto simp: plainTrie_def linkedOn_def linked_def unlinked_def)
  let ?es = "rng (nxt (?h ! 0))"
  have es: "distinct ?es" "set ?es = set (nxt (?h ! 0))"
    using rng trie_keys [OF t z(1)] by (auto simp: rangeOrder_def)
  have entry: "(b, c) \<in> set ?es \<longleftrightarrow> c < length ?h \<and> ps ! c = [b]" for b c
    using trie_entries [OF t z(1)] es(2) z(2) by simp
  have entries: "c < length ?h \<and> ps ! c = [b] \<and> c \<notin> {0}" if "(b, c) \<in> set ?es" for b c
    using that entry z(2) by (metis list.distinct(1) singletonD)
  obtain h' q where hq: "linkRoot ?h 0 ?es [] = (h', q)" by (cases "linkRoot ?h 0 ?es []")
  from linkRoot_linkedOn [OF l es(1) entries hq]
  have h': "linkedOn h' ps ?own ({0} \<union> snd ` set ?es)" "q = map snd ?es" "length h' = length ?h" by auto
  have kids: "snd ` set ?es = {c. c < length ?h \<and> (\<exists>b. ps ! c = [b])}"
    using entry by (auto simp: image_iff) force
  have "inj_on snd (set ?es)" using entry by (auto simp: inj_on_def)
  then have "distinct (map snd ?es)" using es(1) by (simp add: distinct_map)
  moreover have ones: "length (ps ! c) = 1" if "c \<in> set q" for c using that h'(2) kids by auto
  moreover have "sorted (map (\<lambda>k. length (ps ! k)) q)" using ones by (intro sorted_map_const) auto
  ultimately have "queueInv h' ps ?own {} q"
    using h' kids z by (auto simp: queueInv_def)
  from linkQueue_linkedOn [OF this rng] hq show ?thesis
    using ps by (auto simp: NewRules_def Let_def built_def)
qed

end
