(* ===== verification/Waf_Scanner.thy ===== *)
theory Waf_Scanner
  imports Waf_Build
begin

text \<open>
  The streaming scanner of \<^verbatim>\<open>security/waf/automaton.go\<close>: it normalizes raw bytes on the fly and
  feeds the normalized bytes to the automaton. Each method is an operation on the scanner; its
  early return of a match is the left side of the sum. \<open>Crash\<close> is a loop that does not end or a
  nil dereference; the theorems show that it does not occur.
\<close>

section \<open>Definitions\<close>

record Scanner =
  automaton :: "Automaton option"
  state :: "nat option"
  pendingSpace :: bool
  pendingSlash :: bool
  inBlockComment :: bool
  pendingCommentStar :: bool
  emitted :: bool

datatype stop = Found Match | Crash

definition NewScanner :: "Automaton option \<Rightarrow> Scanner" where
  "NewScanner a =
    (let s = \<lparr>automaton = None, state = None, pendingSpace = False, pendingSlash = False,
              inBlockComment = False, pendingCommentStar = False, emitted = False\<rparr>
     in case a of
          None \<Rightarrow> s
        | Some au \<Rightarrow> (if root au = None then s else s\<lparr>automaton := Some au, state := root au\<rparr>))"

text \<open>
  \<open>for s.state != s.automaton.root && s.state.next[b] == nil { s.state = s.state.fail }\<close>; the
  result \<open>Some None\<close> is the dereference of a nil state.
\<close>

partial_function (option) followFail ::
    "node list \<Rightarrow> nat option \<Rightarrow> nat option \<Rightarrow> byte \<Rightarrow> nat option option" where
  "followFail h r st b =
    (if st = r then Some st
     else
      (case st of
         None \<Rightarrow> Some None
       | Some i \<Rightarrow> if child h i b = None then followFail h r (fail (h ! i)) b else Some (Some i)))"

declare followFail.simps [code]

definition hit :: "string \<Rightarrow> Rule \<Rightarrow> Match" where
  "hit field r = \<lparr>mPattern = Pattern r, mField = field, mRuleID = ID r\<rparr>"

definition feedNormalized :: "string \<Rightarrow> byte \<Rightarrow> (Scanner, stop, unit) op" where
  "feedNormalized field b s =
    (let s1 = s\<lparr>emitted := True\<rparr> in
     case automaton s of
       None \<Rightarrow> (Inl Crash, s1)
     | Some a \<Rightarrow>
        (case followFail (heap a) (root a) (state s) b of
           None \<Rightarrow> (Inl Crash, s1)
         | Some None \<Rightarrow> (Inl Crash, s1)
         | Some (Some i) \<Rightarrow>
            (let j = (case child (heap a) i b of Some n \<Rightarrow> n | None \<Rightarrow> i);
                 s2 = s1\<lparr>state := Some j\<rparr>
             in case outputRule (heap a ! j) of
                  Some r \<Rightarrow> (Inl (Found (hit field r)), s2)
                | None \<Rightarrow> (Inr (), s2))))"

text \<open>The blank that is due before the next byte.\<close>

definition flushSpace :: "string \<Rightarrow> (Scanner, stop, unit) op" where
  "flushSpace field s =
    bindP (if pendingSpace s \<and> emitted s then feedNormalized field sp else returnP ())
      (\<lambda>_ s'. (Inr (), s'\<lparr>pendingSpace := False\<rparr>)) s"

definition flushSlash :: "string \<Rightarrow> (Scanner, stop, unit) op" where
  "flushSlash field s =
    bindP (flushSpace field) (\<lambda>_. feedNormalized field (CHR ''/'')) (s\<lparr>pendingSlash := False\<rparr>)"

definition feedPlain :: "string \<Rightarrow> byte \<Rightarrow> (Scanner, stop, unit) op" where
  "feedPlain field raw s =
    (if raw = CHR ''/'' then (Inr (), s\<lparr>pendingSlash := True\<rparr>)
     else if isWhitespace raw then (Inr (), s\<lparr>pendingSpace := True\<rparr>)
     else bindP (flushSpace field) (\<lambda>_. feedNormalized field (lowerASCII raw)) s)"

definition feedRaw :: "string \<Rightarrow> byte \<Rightarrow> (Scanner, stop, unit) op" where
  "feedRaw field raw s =
    (if inBlockComment s
     then (if pendingCommentStar s \<and> raw = CHR ''/''
           then (Inr (), s\<lparr>inBlockComment := False, pendingCommentStar := False, pendingSpace := True\<rparr>)
           else (Inr (), s\<lparr>pendingCommentStar := (raw = CHR ''*'')\<rparr>))
     else if pendingSlash s
     then (if raw = CHR ''*''
           then (Inr (), s\<lparr>pendingSlash := False, inBlockComment := True, pendingSpace := True\<rparr>)
           else bindP (flushSlash field) (\<lambda>_. feedPlain field raw) s)
     else feedPlain field raw s)"

fun feedAll :: "string \<Rightarrow> string \<Rightarrow> (Scanner, stop, unit) op" where
  "feedAll field [] s = (Inr (), s)"
| "feedAll field (raw # data) s = bindP (feedRaw field raw) (\<lambda>_. feedAll field data) s"

definition idle :: "Scanner \<Rightarrow> bool" where
  "idle s \<longleftrightarrow> (case automaton s of None \<Rightarrow> True | Some a \<Rightarrow> root a = None)"

definition Feed :: "string \<Rightarrow> string \<Rightarrow> (Scanner, stop, unit) op" where
  "Feed field data s = (if idle s then (Inr (), s) else feedAll field data s)"

definition Finish :: "string \<Rightarrow> (Scanner, stop, unit) op" where
  "Finish field s =
    (if idle s then (Inr (), s)
     else bindP (if pendingSlash s then flushSlash field else returnP ())
       (\<lambda>_ s'. (Inr (), s'\<lparr>pendingSpace := False, inBlockComment := False, pendingCommentStar := False\<rparr>)) s)"

text \<open>A field delivered in pieces: one \<open>Feed\<close> per piece, then \<open>Finish\<close>.\<close>

fun feedPieces :: "string \<Rightarrow> string list \<Rightarrow> (Scanner, stop, unit) op" where
  "feedPieces field [] s = (Inr (), s)"
| "feedPieces field (data # pieces) s = bindP (Feed field data) (\<lambda>_. feedPieces field pieces) s"

definition scanPieces :: "Automaton option \<Rightarrow> string \<Rightarrow> string list \<Rightarrow> stop + unit" where
  "scanPieces a field pieces =
    fst (bindP (feedPieces field pieces) (\<lambda>_. Finish field) (NewScanner a))"

section \<open>One normalized byte\<close>

text \<open>
  The scanner is in the state of the longest suffix of the normalized text \<open>t\<close> read so far.
\<close>

definition sim :: "Automaton \<Rightarrow> string list \<Rightarrow> Scanner \<Rightarrow> string \<Rightarrow> bool" where
  "sim a ps s t \<longleftrightarrow>
     automaton s = Some a \<and> emitted s = (t \<noteq> [])
     \<and> (\<exists>i < length (heap a). state s = Some i \<and> ps ! i = lsuf (set ps) t)"

lemma built_linked: "built a ps own \<Longrightarrow> i < length (heap a) \<Longrightarrow> linked (heap a) ps own i"
  by (auto simp: built_def linkedOn_def)

lemma built_trie: "built a ps own \<Longrightarrow> trie (heap a) ps"
  by (auto simp: built_def linkedOn_def)

lemma followFail_lsuf:
  assumes b: "built a ps own" and i: "i < length (heap a)"
  shows "\<exists>j < length (heap a). followFail (heap a) (root a) (Some i) c = Some (Some j)
    \<and> lsuf (set ps) (ps ! i @ [c]) = (if child (heap a) j c = None then [] else ps ! j @ [c])
    \<and> (child (heap a) j c = None \<longrightarrow> ps ! j = [])"
  using i
proof (induction "length (ps ! i)" arbitrary: i rule: less_induct)
  case less
  let ?h = "heap a"
  have t: "trie ?h ps" using b by (rule built_trie)
  have r: "root a = Some 0" using b by (simp add: built_def)
  have missing: "child ?h i c = None \<longleftrightarrow> ps ! i @ [c] \<notin> set ps" using trie_no_child [OF t less.prems] .
  show ?case
  proof (cases "ps ! i = [] \<or> child ?h i c \<noteq> None")
    case True
    then have "followFail ?h (root a) (Some i) c = Some (Some i)"
      using r trie_root [OF t less.prems] by (auto simp: followFail.simps)
    moreover have "lsuf (set ps) (ps ! i @ [c]) = (if child ?h i c = None then [] else ps ! i @ [c])"
      using True missing lsuf_self [of "ps ! i @ [c]" "set ps"] by auto
    ultimately show ?thesis using less.prems True by auto
  next
    case False
    obtain j where j: "j < length ?h" "fail (?h ! i) = Some j" "ps ! j = lsuf (set ps) (tl (ps ! i))"
      using built_linked [OF b less.prems] False by (auto elim: linked_fail)
    have shorter: "length (ps ! j) < length (ps ! i)"
      using False lsuf_length [of "set ps" "tl (ps ! i)"] j(3) by (cases "ps ! i") auto
    have "i \<noteq> 0" using False trie_root [OF t less.prems] by simp
    then have step: "followFail ?h (root a) (Some i) c = followFail ?h (root a) (Some j) c"
      using False j(2) r by (simp add: followFail.simps [of _ _ "Some i"])
    have same: "lsuf (set ps) (ps ! i @ [c]) = lsuf (set ps) (ps ! j @ [c])"
      using prefix_words.lsuf_fail [OF trie_prefix_words [OF t]] False missing j(3) by simp
    show ?thesis unfolding step same using less.hyps [OF shorter j(1)] .
  qed
qed

lemma feedNormalized_spec:
  assumes b: "built a ps own" and blank: "own [] = None" and s: "sim a ps s t"
  shows "\<exists>j. sim a ps (s\<lparr>emitted := True, state := Some j\<rparr>) (t @ [c])
    \<and> feedNormalized field c s =
       ((case outOf own (t @ [c]) of Some r \<Rightarrow> Inl (Found (hit field r)) | None \<Rightarrow> Inr ()),
        s\<lparr>emitted := True, state := Some j\<rparr>)"
proof -
  let ?h = "heap a" and ?W = "set ps"
  have t: "trie ?h ps" using b by (rule built_trie)
  note words = trie_prefix_words [OF t]
  have dom: "own v \<noteq> None \<Longrightarrow> v \<in> ?W" for v using b by (auto simp: built_def linkedOn_def)
  obtain i where i: "i < length ?h" "state s = Some i" "ps ! i = lsuf ?W t" and a: "automaton s = Some a"
    using s by (auto simp: sim_def)
  obtain j where j: "j < length ?h" "followFail ?h (root a) (Some i) c = Some (Some j)"
    and lj: "lsuf ?W (ps ! i @ [c]) = (if child ?h j c = None then [] else ps ! j @ [c])"
    and root: "child ?h j c = None \<longrightarrow> ps ! j = []"
    using followFail_lsuf [OF b i(1), of c] by (elim exE conjE) (rule that)
  define k where "k = (case child ?h j c of Some n \<Rightarrow> n | None \<Rightarrow> j)"
  have next_state: "lsuf ?W (t @ [c]) = lsuf ?W (ps ! i @ [c])"
    unfolding i(3) by (rule prefix_words.lsuf_snoc [OF words])
  have k: "k < length ?h \<and> ps ! k = lsuf ?W (t @ [c])"
  proof (cases "child ?h j c")
    case None
    with j(1) lj root show ?thesis by (simp add: k_def next_state)
  next
    case (Some n)
    with trie_child [OF t j(1), of c n] lj show ?thesis by (simp add: k_def next_state)
  qed
  have "outputRule (?h ! k) = outOf own (ps ! k)"
    using linked_output [of ?h ps own k] built_linked [OF b, of k] k blank by blast
  also have "\<dots> = outOf own (t @ [c])"
    using prefix_words.outOf_lsuf [OF words, of own "t @ [c]"] dom k by simp
  finally have out: "outputRule (?h ! k) = outOf own (t @ [c])" .
  have "sim a ps (s\<lparr>emitted := True, state := Some k\<rparr>) (t @ [c])"
    using a k by (auto simp: sim_def)
  moreover have "feedNormalized field c s =
       ((case outOf own (t @ [c]) of Some r \<Rightarrow> Inl (Found (hit field r)) | None \<Rightarrow> Inr ()),
        s\<lparr>emitted := True, state := Some k\<rparr>)"
    using a i(2) j(2) out
    by (simp add: feedNormalized_def Let_def k_def [symmetric] split: option.splits)
  ultimately show ?thesis by blast
qed

section \<open>Operations that emit normalized bytes\<close>

type_synonym flags = "bool \<times> bool \<times> bool \<times> bool"

definition flags :: "Scanner \<Rightarrow> flags" where
  "flags s = (pendingSpace s, pendingSlash s, inBlockComment s, pendingCommentStar s)"

definition verdict :: "string \<Rightarrow> Rule option \<Rightarrow> stop + unit" where
  "verdict field r = (case r of Some r' \<Rightarrow> Inl (Found (hit field r')) | None \<Rightarrow> Inr ())"

text \<open>
  \<open>emits\<close>: run after the text \<open>t\<close>, the operation feeds the bytes \<open>bs\<close> and stops at the first
  match, or ends with the flags \<open>F\<close>.
\<close>

definition emits :: "Automaton \<Rightarrow> string list \<Rightarrow> (string \<Rightarrow> Rule option) \<Rightarrow> string
    \<Rightarrow> (Scanner, stop, unit) op \<Rightarrow> Scanner \<Rightarrow> string \<Rightarrow> string \<Rightarrow> flags \<Rightarrow> bool" where
  "emits a ps own field m s t bs F \<longleftrightarrow>
     (case refScan own t bs of
        Some r \<Rightarrow> fst (m s) = Inl (Found (hit field r))
      | None \<Rightarrow> (\<exists>s'. m s = (Inr (), s') \<and> sim a ps s' (t @ bs) \<and> flags s' = F))"

lemma refScan_append:
  "refScan own t (x @ y) = (case refScan own t x of Some r \<Rightarrow> Some r | None \<Rightarrow> refScan own (t @ x) y)"
  by (induction own t x rule: refScan.induct) (auto split: option.split)

lemma emits_bind:
  assumes "emits a ps own field m s t bs F"
    and "\<And>s'. sim a ps s' (t @ bs) \<Longrightarrow> flags s' = F \<Longrightarrow> emits a ps own field (k ()) s' (t @ bs) cs G"
  shows "emits a ps own field (bindP m k) s t (bs @ cs) G"
proof (cases "refScan own t bs")
  case None
  with assms(1) obtain s' where "m s = (Inr (), s')" "sim a ps s' (t @ bs)" "flags s' = F"
    by (auto simp: emits_def)
  with assms(2) [of s'] None show ?thesis
    by (simp add: emits_def refScan_append bindP_Inr [of m s] split: option.splits)
next
  case (Some r)
  with assms(1) show ?thesis
    by (cases "m s") (simp add: emits_def refScan_append bindP_def)
qed

lemma emits_cong: "m s = m' s' \<Longrightarrow> emits a ps own field m s t bs F = emits a ps own field m' s' t bs F"
  by (simp add: emits_def split: option.split)

lemma emits_silent:
  assumes "m s = (Inr (), s')" and "sim a ps s' t" and "flags s' = F"
  shows "emits a ps own field m s t [] F"
  using assms by (simp add: emits_def)

lemma emits_verdict: "emits a ps own field m s t bs F \<Longrightarrow> fst (m s) = verdict field (refScan own t bs)"
  by (auto simp: emits_def verdict_def split: option.splits)

lemma sim_flags [simp]:
  "sim a ps (s\<lparr>pendingSpace := x\<rparr>) t = sim a ps s t"
  "sim a ps (s\<lparr>pendingSlash := x\<rparr>) t = sim a ps s t"
  "sim a ps (s\<lparr>inBlockComment := x\<rparr>) t = sim a ps s t"
  "sim a ps (s\<lparr>pendingCommentStar := x\<rparr>) t = sim a ps s t"
  by (simp_all add: sim_def)

text \<open>An automaton without a rule for the empty word.\<close>

definition matcher :: "Automaton \<Rightarrow> string list \<Rightarrow> (string \<Rightarrow> Rule option) \<Rightarrow> bool" where
  "matcher a ps own \<longleftrightarrow> built a ps own \<and> own [] = None"

lemma emits_feedNormalized:
  assumes m: "matcher a ps own" and s: "sim a ps s t"
  shows "emits a ps own field (feedNormalized field c) s t [c] (flags s)"
proof -
  from m have "built a ps own" "own [] = None" by (simp_all add: matcher_def)
  from feedNormalized_spec [OF this s, of c field] show ?thesis
    by (auto simp: emits_def flags_def split: option.splits)
qed

lemma emits_flushSpace:
  assumes m: "matcher a ps own" and s: "sim a ps s t" and F: "flags s = (p, q, x, y)"
  shows "emits a ps own field (flushSpace field) s t (if p \<and> t \<noteq> [] then [sp] else []) (False, q, x, y)"
proof -
  let ?bs = "if p \<and> t \<noteq> [] then [sp] else []"
  have e: "emitted s = (t \<noteq> [])" "pendingSpace s = p" using s F by (auto simp: sim_def flags_def)
  have "emits a ps own field (bindP (if p \<and> t \<noteq> [] then feedNormalized field sp else returnP ())
      (\<lambda>_ s'. (Inr (), s'\<lparr>pendingSpace := False\<rparr>))) s t (?bs @ []) (False, q, x, y)"
  proof (rule emits_bind)
    show "emits a ps own field (if p \<and> t \<noteq> [] then feedNormalized field sp else returnP ()) s t ?bs (flags s)"
      using emits_feedNormalized [OF m s] s by (auto intro: emits_silent simp: returnP_def)
  qed (use F in \<open>auto intro!: emits_silent simp: flags_def\<close>)
  then show ?thesis using e by (subst emits_cong) (auto simp: flushSpace_def)
qed

lemma emits_flushSlash:
  assumes m: "matcher a ps own" and s: "sim a ps s t" and F: "flags s = (p, q, x, y)"
  shows "emits a ps own field (flushSlash field) s t
     ((if p \<and> t \<noteq> [] then [sp] else []) @ [CHR ''/'']) (False, False, x, y)"
proof -
  let ?s = "s\<lparr>pendingSlash := False\<rparr>"
  have "emits a ps own field (bindP (flushSpace field) (\<lambda>_. feedNormalized field (CHR ''/''))) ?s t
     ((if p \<and> t \<noteq> [] then [sp] else []) @ [CHR ''/'']) (False, False, x, y)"
  proof (rule emits_bind)
    show "emits a ps own field (flushSpace field) ?s t (if p \<and> t \<noteq> [] then [sp] else []) (False, False, x, y)"
      using s F by (intro emits_flushSpace [OF m]) (auto simp: flags_def)
  qed (use emits_feedNormalized [OF m] in fastforce)
  then show ?thesis by (subst emits_cong) (auto simp: flushSlash_def)
qed

lemma emits_feedPlain:
  assumes m: "matcher a ps own" and s: "sim a ps s t" and F: "flags s = (p, False, x, y)"
    and raw: "raw \<noteq> CHR ''/''" "\<not> isWhitespace raw"
  shows "emits a ps own field (feedPlain field raw) s t
     ((if p \<and> t \<noteq> [] then [sp] else []) @ [lowerASCII raw]) (False, False, x, y)"
proof -
  have "emits a ps own field (bindP (flushSpace field) (\<lambda>_. feedNormalized field (lowerASCII raw))) s t
     ((if p \<and> t \<noteq> [] then [sp] else []) @ [lowerASCII raw]) (False, False, x, y)"
  proof (rule emits_bind)
    show "emits a ps own field (flushSpace field) s t (if p \<and> t \<noteq> [] then [sp] else []) (False, False, x, y)"
      using emits_flushSpace [OF m s F] .
  qed (use emits_feedNormalized [OF m] in fastforce)
  then show ?thesis using raw by (subst emits_cong) (auto simp: feedPlain_def)
qed

section \<open>A whole field\<close>

text \<open>
  The normalized bytes that are still to come when the scanner has the flags \<open>F\<close>, has written
  something or not (\<open>e\<close>), and the raw bytes \<open>rest\<close> are left.
\<close>

fun resid :: "bool \<Rightarrow> flags \<Rightarrow> string \<Rightarrow> string" where
  "resid e (p, slash, comment, star) rest =
    (if comment
     then (case skipComment (if star then CHR ''*'' # rest else rest) of
             None \<Rightarrow> [] | Some r \<Rightarrow> emit e True r)
     else emit e p (if slash then CHR ''/'' # rest else rest))"

text \<open>The flag combinations that occur.\<close>

fun flagsOk :: "flags \<Rightarrow> bool" where
  "flagsOk (p, slash, comment, star) = (if comment then p \<and> \<not> slash else \<not> star)"

lemma skipComment_no_star: "a \<noteq> CHR ''*'' \<Longrightarrow> skipComment (a # rest) = skipComment rest"
  by (cases rest) auto

lemma not_whitespace_slash [simp]: "\<not> isWhitespace (CHR ''/'')"
  by (simp add: isWhitespace_def)

lemma emit_slash:
  "raw \<noteq> CHR ''*'' \<Longrightarrow>
   emit e p (CHR ''/'' # raw # rest) = (if p \<and> e then [sp] else []) @ CHR ''/'' # emit True False (raw # rest)"
  by (simp add: opensComment_def lowerASCII_def)

text \<open>What a raw byte outside of comments emits, and the flags it leaves.\<close>

definition plainOut :: "bool \<Rightarrow> bool \<Rightarrow> byte \<Rightarrow> string" where
  "plainOut e p raw =
    (if raw = CHR ''/'' \<or> isWhitespace raw then []
     else (if p \<and> e then [sp] else []) @ [lowerASCII raw])"

definition plainFlags :: "bool \<Rightarrow> byte \<Rightarrow> flags" where
  "plainFlags p raw =
    (if raw = CHR ''/'' then (p, True, False, False)
     else if isWhitespace raw then (True, False, False, False)
     else (False, False, False, False))"

lemma emits_plain_byte:
  assumes m: "matcher a ps own" and s: "sim a ps s t" and F: "flags s = (p, False, False, False)"
  shows "emits a ps own field (feedPlain field raw) s t (plainOut (t \<noteq> []) p raw) (plainFlags p raw)"
proof (cases "raw = CHR ''/'' \<or> isWhitespace raw")
  case True
  with s F show ?thesis
    by (auto intro!: emits_silent simp: feedPlain_def flags_def plainOut_def plainFlags_def)
next
  case False
  then have "raw \<noteq> CHR ''/''" "\<not> isWhitespace raw" by auto
  from emits_feedPlain [OF m s F this] False show ?thesis by (simp add: plainOut_def plainFlags_def)
qed

lemma emit_plain:
  "emit e p (raw # rest) = plainOut e p raw @ resid (e \<or> plainOut e p raw \<noteq> []) (plainFlags p raw) rest"
proof (cases "raw = CHR ''/''")
  case True
  then show ?thesis by (simp add: plainOut_def plainFlags_def del: emit.simps)
next
  case False
  then have "\<not> opensComment (raw # rest)" by (simp add: opensComment_def split: list.splits)
  with False show ?thesis by (cases "isWhitespace raw") (simp_all add: plainOut_def plainFlags_def)
qed

lemma flagsOk_plainFlags: "flagsOk (plainFlags p raw)"
  by (simp add: plainFlags_def)

text \<open>One raw byte of input emits what \<open>resid\<close> loses.\<close>

lemma emits_byte:
  assumes m: "matcher a ps own" and s: "sim a ps s t" and ok: "flagsOk (flags s)"
  shows "\<exists>bs G. emits a ps own field (feedRaw field raw) s t bs G \<and> flagsOk G
    \<and> resid (t \<noteq> []) (flags s) (raw # rest) = bs @ resid (t @ bs \<noteq> []) G rest"
proof -
  obtain p slash comment star where F: "flags s = (p, slash, comment, star)" by (cases "flags s")
  consider (comment) "comment" | (opens) "\<not> comment" "slash" "raw = CHR ''*''"
    | (slash) "\<not> comment" "slash" "raw \<noteq> CHR ''*''" | (plain) "\<not> comment" "\<not> slash" by blast
  then show ?thesis
  proof cases
    case comment
    with F ok have fl: "flags s = (True, False, True, star)" by simp
    let ?G = "if star \<and> raw = CHR ''/'' then (True, False, False, False) else (True, False, True, raw = CHR ''*'')"
    have "emits a ps own field (feedRaw field raw) s t [] ?G"
      using fl s by (auto intro!: emits_silent simp: feedRaw_def flags_def)
    moreover have "flagsOk ?G" by simp
    moreover have "resid (t \<noteq> []) (flags s) (raw # rest) = [] @ resid (t @ [] \<noteq> []) ?G rest"
      using fl skipComment_no_star [of raw rest] by simp
    ultimately show ?thesis by blast
  next
    case opens
    with F ok have fl: "flags s = (p, True, False, False)" by simp
    have "emits a ps own field (feedRaw field raw) s t [] (True, False, True, False)"
      using fl s opens by (auto intro!: emits_silent simp: feedRaw_def flags_def)
    moreover have "resid (t \<noteq> []) (flags s) (raw # rest) = [] @ resid (t @ [] \<noteq> []) (True, False, True, False) rest"
      using fl opens by (simp add: opensComment_def)
    moreover have "flagsOk (True, False, True, False)" by simp
    ultimately show ?thesis by blast
  next
    case slash
    with F ok have fl: "flags s = (p, True, False, False)" by simp
    let ?b = "(if p \<and> t \<noteq> [] then [sp] else []) @ [CHR ''/'']"
    have run: "feedRaw field raw s = bindP (flushSlash field) (\<lambda>_. feedPlain field raw) s"
      using fl slash by (simp add: feedRaw_def flags_def)
    have "emits a ps own field (bindP (flushSlash field) (\<lambda>_. feedPlain field raw)) s t
        (?b @ plainOut True False raw) (plainFlags False raw)"
    proof (rule emits_bind [OF emits_flushSlash [OF m s fl]])
      show "emits a ps own field (feedPlain field raw) s' (t @ ?b) (plainOut True False raw) (plainFlags False raw)"
        if "sim a ps s' (t @ ?b)" "flags s' = (False, False, False, False)" for s'
        using emits_plain_byte [OF m that] by simp
    qed
    then have "emits a ps own field (feedRaw field raw) s t (?b @ plainOut True False raw) (plainFlags False raw)"
      unfolding emits_def run .
    moreover have "resid (t \<noteq> []) (flags s) (raw # rest)
        = (?b @ plainOut True False raw) @ resid (t @ ?b @ plainOut True False raw \<noteq> []) (plainFlags False raw) rest"
      using fl emit_slash [OF slash(3)] emit_plain [of True False raw rest] by (simp del: emit.simps)
    ultimately show ?thesis using flagsOk_plainFlags by blast
  next
    case plain
    with F ok have fl: "flags s = (p, False, False, False)" by simp
    have run: "feedRaw field raw s = feedPlain field raw s" using fl by (simp add: feedRaw_def flags_def)
    have "emits a ps own field (feedRaw field raw) s t (plainOut (t \<noteq> []) p raw) (plainFlags p raw)"
      using emits_plain_byte [OF m s fl] unfolding emits_def run .
    moreover have "resid (t \<noteq> []) (flags s) (raw # rest) = plainOut (t \<noteq> []) p raw
        @ resid (t @ plainOut (t \<noteq> []) p raw \<noteq> []) (plainFlags p raw) rest"
      using fl emit_plain [of "t \<noteq> []" p raw rest] by (simp del: emit.simps)
    ultimately show ?thesis using flagsOk_plainFlags by blast
  qed
qed

lemma emits_Finish:
  assumes m: "matcher a ps own" and s: "sim a ps s t" and ok: "flagsOk (flags s)"
  shows "\<exists>G. emits a ps own field (Finish field) s t (resid (t \<noteq> []) (flags s) []) G"
proof -
  obtain p slash comment star where F: "flags s = (p, slash, comment, star)" by (cases "flags s")
  define fin where "fin = (\<lambda>_ :: unit. \<lambda>s' :: Scanner. (Inr () :: stop + unit,
    s'\<lparr>pendingSpace := False, inBlockComment := False, pendingCommentStar := False\<rparr>))"
  have busy: "\<not> idle s" using s m by (auto simp: sim_def idle_def matcher_def built_def)
  show ?thesis
  proof (cases "slash \<and> \<not> comment")
    case True
    with F ok have fl: "flags s = (p, True, False, False)" by simp
    have run: "Finish field s = bindP (flushSlash field) fin s"
      using busy fl by (simp add: Finish_def flags_def fin_def)
    have em: "emits a ps own field (bindP (flushSlash field) fin) s t
        (((if p \<and> t \<noteq> [] then [sp] else []) @ [CHR ''/'']) @ []) (False, False, False, False)"
      by (rule emits_bind [OF emits_flushSlash [OF m s fl]])
        (auto intro!: emits_silent simp: fin_def flags_def)
    have r: "resid (t \<noteq> []) (flags s) [] = ((if p \<and> t \<noteq> [] then [sp] else []) @ [CHR ''/'']) @ []"
      using fl by (simp add: opensComment_def)
    have "emits a ps own field (Finish field) s t (resid (t \<noteq> []) (flags s) []) (False, False, False, False)"
      unfolding r using em unfolding emits_def run .
    then show ?thesis by blast
  next
    case False
    with F ok have r: "resid (t \<noteq> []) (flags s) [] = []" and "\<not> pendingSlash s"
      by (auto simp: flags_def split: if_splits)
    then have run: "Finish field s = fin () s" using busy by (simp add: Finish_def fin_def monad_simps)
    have "emits a ps own field (Finish field) s t [] (flags (snd (fin () s)))"
      using s run by (intro emits_silent [where s' = "snd (fin () s)"]) (auto simp: fin_def)
    with r show ?thesis by metis
  qed
qed

lemma scan_verdict:
  assumes m: "matcher a ps own" and "sim a ps s t" and "flagsOk (flags s)"
  shows "fst (bindP (feedAll field data) (\<lambda>_. Finish field) s)
    = verdict field (refScan own t (resid (t \<noteq> []) (flags s) data))"
  using assms(2,3)
proof (induction data arbitrary: s t)
  case Nil
  from emits_Finish [OF m Nil] obtain G
    where "emits a ps own field (Finish field) s t (resid (t \<noteq> []) (flags s) []) G" by blast
  from emits_verdict [OF this] show ?case by (simp add: bindP_Inr)
next
  case (Cons raw data)
  obtain bs F where bs: "emits a ps own field (feedRaw field raw) s t bs F" "flagsOk F"
    and r: "resid (t \<noteq> []) (flags s) (raw # data) = bs @ resid (t @ bs \<noteq> []) F data"
    using emits_byte [OF m Cons.prems] by blast
  show ?case
  proof (cases "refScan own t bs")
    case (Some x)
    with bs(1) have "fst (feedRaw field raw s) = Inl (Found (hit field x))" by (simp add: emits_def)
    with Some r show ?thesis
      by (cases "feedRaw field raw s") (simp add: bindP_def verdict_def refScan_append)
  next
    case None
    with bs(1) obtain s' where s': "feedRaw field raw s = (Inr (), s')" "sim a ps s' (t @ bs)" "flags s' = F"
      by (auto simp: emits_def)
    have "fst (bindP (feedAll field (raw # data)) (\<lambda>_. Finish field) s)
        = fst (bindP (feedAll field data) (\<lambda>_. Finish field) s')"
      using s'(1) by (simp add: bindP_def)
    with Cons.IH [OF s'(2)] s'(3) bs(2) None r show ?thesis
      by (simp add: refScan_append del: feedAll.simps)
  qed
qed

section \<open>Delivery in pieces\<close>

lemma feedNormalized_automaton [simp]: "automaton (snd (feedNormalized field b s)) = automaton s"
  by (simp add: feedNormalized_def Let_def split: option.splits)

lemma bindP_automaton:
  assumes "\<And>s. automaton (snd (m s)) = automaton s" and "\<And>x s. automaton (snd (k x s)) = automaton s"
  shows "automaton (snd (bindP m k s)) = automaton s"
  using assms(1) [of s] assms(2) by (auto simp: bindP_def split: prod.splits sum.splits)

lemma flushSpace_automaton [simp]: "automaton (snd (flushSpace field s)) = automaton s"
  unfolding flushSpace_def by (rule bindP_automaton) (auto simp: returnP_def)

lemma flushSlash_automaton [simp]: "automaton (snd (flushSlash field s)) = automaton s"
  unfolding flushSlash_def by (subst bindP_automaton) auto

lemma feedPlain_automaton [simp]: "automaton (snd (feedPlain field raw s)) = automaton s"
  by (auto simp: feedPlain_def intro!: bindP_automaton)

lemma feedRaw_automaton [simp]: "automaton (snd (feedRaw field raw s)) = automaton s"
  by (auto simp: feedRaw_def intro!: bindP_automaton)

lemma feedAll_automaton [simp]: "automaton (snd (feedAll field data s)) = automaton s"
  by (induction data arbitrary: s) (auto intro!: bindP_automaton)

lemma feedAll_append: "feedAll field (x @ y) s = bindP (feedAll field x) (\<lambda>_. feedAll field y) s"
  by (induction x arbitrary: s) (auto simp: bindP_def split: prod.splits sum.splits)

lemma feedPieces_concat: "\<not> idle s \<Longrightarrow> feedPieces field pieces s = feedAll field (concat pieces) s"
proof (induction pieces arbitrary: s)
  case (Cons data pieces)
  obtain r s' where run: "feedAll field data s = (r, s')" by (cases "feedAll field data s")
  have "automaton s' = automaton s" using feedAll_automaton [of field data s] run by simp
  then have busy: "\<not> idle s'" using Cons.prems by (simp add: idle_def)
  with Cons run show ?case
    by (cases r) (simp_all add: Feed_def feedAll_append bindP_def)
qed simp

lemma feedPieces_idle: "idle s \<Longrightarrow> feedPieces field pieces s = (Inr (), s)"
  by (induction pieces) (simp_all add: Feed_def bindP_def)

section \<open>The scanner against the reference search\<close>

text \<open>No rule is blank: none normalizes to the empty word.\<close>

definition noBlankRule :: "Rule list \<Rightarrow> bool" where
  "noBlankRule rules \<longleftrightarrow> list_all (\<lambda>r. Pattern r \<noteq> [] \<longrightarrow> Normalize (Pattern r) \<noteq> []) rules"

lemma noBlankRule_ruleOf: "noBlankRule rules \<Longrightarrow> ruleOf rules [] = None"
proof (rule ccontr)
  assume "noBlankRule rules" and "ruleOf rules [] \<noteq> None"
  then show False using ruleOf_iff [of rules "[]"] by (auto simp: noBlankRule_def list_all_iff)
qed

lemma scanPieces_concat:
  "scanPieces a field pieces = fst (bindP (Feed field (concat pieces)) (\<lambda>_. Finish field) (NewScanner a))"
proof (cases "idle (NewScanner a)")
  case True
  then show ?thesis by (simp add: scanPieces_def feedPieces_idle Feed_def bindP_def)
next
  case False
  then show ?thesis by (simp add: scanPieces_def bindP_def feedPieces_concat Feed_def)
qed

lemma scanPieces_built:
  assumes m: "matcher a ps own"
  shows "scanPieces (Some a) field pieces = verdict field (refScan own [] (Normalize (concat pieces)))"
proof -
  let ?s = "NewScanner (Some a)"
  have b: "built a ps own" using m by (simp add: matcher_def)
  then have r: "root a = Some 0" and t: "trie (heap a) ps" by (auto simp: built_def linkedOn_def)
  have "0 < length (heap a)" "ps ! 0 = []" using t by (auto simp: trie_def)
  with r have s: "sim a ps ?s []" by (auto simp: sim_def NewScanner_def)
  have f: "flags ?s = (False, False, False, False)" and busy: "\<not> idle ?s"
    using r by (simp_all add: NewScanner_def flags_def idle_def)
  show ?thesis
    using scan_verdict [OF m s, of field "concat pieces"] f busy
    by (simp add: scanPieces_concat Feed_def bindP_def Normalize_emit)
qed

theorem scanPieces_rules:
  assumes rng: "rangeOrder rng" and blank: "noBlankRule rules"
  shows "scanPieces (NewRules rng rules) field pieces
    = verdict field (refScan (ruleOf rules) [] (Normalize (concat pieces)))"
proof -
  obtain a ps where a: "NewRules rng rules = Some a" "built a ps (ruleOf rules)"
    using NewRules_built [OF rng, of rules] by (elim exE conjE) (rule that)
  then have "matcher a ps (ruleOf rules)" using noBlankRule_ruleOf [OF blank] by (simp add: matcher_def)
  from scanPieces_built [OF this] a(1) show ?thesis by simp
qed

end
