(* ===== verification/Waf_Policy.thy ===== *)
theory Waf_Policy
  imports Waf_Scanner
begin

text \<open>
  Where the rules come from (\<^verbatim>\<open>security/waf/policy.go\<close>) and what the whole rule engine promises.
  The environment and the file system are arguments: \<open>getenv\<close> gives the value of a variable
  (empty if unset), \<open>readFile\<close> the contents of a file or \<open>None\<close> if it cannot be opened.
\<close>

section \<open>Definitions\<close>

definition policyFileEnv :: string where
  "policyFileEnv = ''MTWS_WAF_POLICY_FILE''"

definition defaultPatterns :: "string list" where
  "defaultPatterns = [
    ''union select'', ''select * from'', ''information_schema'', ''drop table'', ''sleep('',
    ''benchmark('', CHR 0x27 # '' or 1=1'', CHR 0x22 # '' or 1=1'', ''<script'', ''</script'',
    ''javascript:'', ''onerror='', ''onload='', ''../'', ''..'' @ [CHR 0x5C], ''/etc/passwd'',
    ''cmd.exe'', ''/bin/sh'', ''powershell -'', ''169.254.169.254'', ''metadata.google.internal'']"

definition DefaultPatterns :: "string list" where
  "DefaultPatterns = defaultPatterns"

text \<open>
  \<open>bufio.Scanner\<close> with \<open>ScanLines\<close>: the lines without their terminator, one trailing carriage
  return dropped; a line of 65536 bytes or more ends the scan with an error.
\<close>

definition maxScanTokenSize :: nat where "maxScanTokenSize = 65536"

definition dropCR :: "string \<Rightarrow> string" where
  "dropCR line = (if line \<noteq> [] \<and> last line = cr then butlast line else line)"

fun rawLines :: "string \<Rightarrow> string \<Rightarrow> string list" where
  "rawLines cur [] = (if cur = [] then [] else [cur])"
| "rawLines cur (c # cs) = (if c = lf then cur # rawLines [] cs else rawLines (cur @ [c]) cs)"

definition scanLines :: "string \<Rightarrow> string list option" where
  "scanLines content =
    (let ls = rawLines [] content in
     if list_ex (\<lambda>l. maxScanTokenSize \<le> length l) ls then None else Some (map dropCR ls))"

definition policyLine :: "string \<Rightarrow> string option" where
  "policyLine text =
    (let line = TrimSpace text in
     if line = [] \<or> HasPrefix line ''#'' then None else Some line)"

definition LoadPatternsFile :: "(string \<Rightarrow> string option) \<Rightarrow> string \<Rightarrow> string list option" where
  "LoadPatternsFile readFile path =
    (case readFile path of
       None \<Rightarrow> None
     | Some content \<Rightarrow> map_option (List.map_filter policyLine) (scanLines content))"

definition LoadPatterns ::
    "(string \<Rightarrow> string) \<Rightarrow> (string \<Rightarrow> string option) \<Rightarrow> string list" where
  "LoadPatterns getenv readFile =
    (let policyFile = TrimSpace (getenv policyFileEnv) in
     if policyFile = [] then DefaultPatterns
     else
      (case LoadPatternsFile readFile policyFile of
         None \<Rightarrow> DefaultPatterns
       | Some patterns \<Rightarrow> if patterns = [] then DefaultPatterns else patterns))"

definition NewDefaultAutomaton ::
    "((byte \<times> nat) list \<Rightarrow> (byte \<times> nat) list) \<Rightarrow> (string \<Rightarrow> string) \<Rightarrow> (string \<Rightarrow> string option)
     \<Rightarrow> Automaton option" where
  "NewDefaultAutomaton rng getenv readFile = NewPatterns rng (LoadPatterns getenv readFile)"

section \<open>Rules of a list of patterns\<close>

lemma patternRules_Pattern: "map Pattern (patternRules i patterns) = filter (\<lambda>p. p \<noteq> []) patterns"
  by (induction i patterns rule: patternRules.induct) auto

lemma patternRules_iff:
  "(\<exists>r \<in> set (patternRules i patterns). Pattern r \<noteq> [] \<and> Q (Pattern r))
   \<longleftrightarrow> (\<exists>p \<in> set patterns. p \<noteq> [] \<and> Q p)"
proof -
  have img: "Pattern ` set (patternRules i patterns) = {p \<in> set patterns. p \<noteq> []}"
    using arg_cong [OF patternRules_Pattern [of i patterns], of set] by simp
  have "(\<exists>r \<in> set (patternRules i patterns). Pattern r \<noteq> [] \<and> Q (Pattern r))
      \<longleftrightarrow> (\<exists>p \<in> Pattern ` set (patternRules i patterns). p \<noteq> [] \<and> Q p)" by simp
  then show ?thesis unfolding img by auto
qed

text \<open>No pattern is blank.\<close>

definition noBlankPattern :: "string list \<Rightarrow> bool" where
  "noBlankPattern patterns \<longleftrightarrow> list_all (\<lambda>p. p \<noteq> [] \<longrightarrow> Normalize p \<noteq> []) patterns"

lemma noBlankPattern_rules: "noBlankRule (patternRules i patterns) \<longleftrightarrow> noBlankPattern patterns"
  using patternRules_iff [of i patterns "\<lambda>p. Normalize p = []"]
  by (auto simp: noBlankRule_def noBlankPattern_def list_all_iff)

lemma verdict_hit: "verdict field r \<noteq> Inr () \<longleftrightarrow> r \<noteq> None"
  by (simp add: verdict_def split: option.splits)

lemma scan_detects:
  assumes "rangeOrder rng" and "noBlankPattern patterns"
  shows "scanPieces (NewPatterns rng patterns) field pieces \<noteq> Inr ()
    \<longleftrightarrow> (\<exists>p \<in> set patterns. p \<noteq> [] \<and> sublist (Normalize p) (Normalize (concat pieces)))"
proof -
  let ?rules = "patternRules 0 patterns" and ?t = "Normalize (concat pieces)"
  have blank: "noBlankRule ?rules" using assms(2) by (simp add: noBlankPattern_rules)
  have "scanPieces (NewPatterns rng patterns) field pieces \<noteq> Inr ()
      \<longleftrightarrow> (\<exists>v. v \<noteq> [] \<and> ruleOf ?rules v \<noteq> None \<and> sublist v ?t)"
    unfolding NewPatterns_def scanPieces_rules [OF assms(1) blank] verdict_hit by (rule refScan_occurs)
  also have "\<dots> \<longleftrightarrow> (\<exists>r \<in> set ?rules. Pattern r \<noteq> [] \<and> Normalize (Pattern r) \<noteq> [] \<and> sublist (Normalize (Pattern r)) ?t)"
    unfolding ruleOf_iff by auto
  also have "\<dots> \<longleftrightarrow> (\<exists>p \<in> set patterns. p \<noteq> [] \<and> Normalize p \<noteq> [] \<and> sublist (Normalize p) ?t)"
    by (rule patternRules_iff)
  finally show ?thesis using assms(2) by (auto simp: noBlankPattern_def list_all_iff)
qed

section \<open>Rule identifiers\<close>

lemma zeroPadDigits_decval: "0 \<le> n \<Longrightarrow> decval (zeroPadDigits n acc) = n * 10 ^ length acc + decval acc"
proof (induction n acc rule: zeroPadDigits.induct)
  case (1 n acc)
  show ?case
  proof (cases "0 < n")
    case True
    let ?c = "char_of (nat (48 + n mod 10)) :: byte"
    have regroup: "q * (10 * p) + (r * p + d) = (10 * q + r) * p + d" for q r p d :: int
      by (simp add: algebra_simps)
    have digit: "int (byteval ?c) - 48 = n mod 10" using True by (simp add: nat_less_iff)
    have "decval (zeroPadDigits n acc) = decval (zeroPadDigits (n div 10) (?c # acc))"
      using True by (simp add: zeroPadDigits.simps [of n acc])
    also have "\<dots> = n div 10 * 10 ^ Suc (length acc) + decval (?c # acc)"
      using "1.IH" True by simp
    also have "\<dots> = (10 * (n div 10) + n mod 10) * 10 ^ length acc + decval acc"
      by (simp only: decval_Cons digit power_Suc regroup)
    also have "10 * (n div 10) + n mod 10 = n" by (rule mult_div_mod_eq)
    finally show ?thesis .
  next
    case False
    with 1 show ?thesis by (simp add: zeroPadDigits.simps [of 0 acc])
  qed
qed

text \<open>The printed number reads back as the number.\<close>

lemma zeroPad_decval: "0 \<le> n \<Longrightarrow> decval (zeroPad n w) = n"
proof -
  assume n: "0 \<le> n"
  have "decval ''0'' = 0" by (simp add: decval_def)
  moreover have "zeroPadDigits n [] = [] \<Longrightarrow> n = 0"
    using zeroPadDigits_decval [OF n, of "[]"] by (simp add: decval_def)
  ultimately show ?thesis
    using zeroPadDigits_decval [OF n, of "[]"]
    by (auto simp: zeroPad_def Let_def decval_zeros) (simp_all add: decval_def)
qed

lemma ruleID_inject:
  assumes "0 \<le> i" and "0 \<le> j"
  shows "ruleID i = ruleID j \<longleftrightarrow> i = j"
proof
  assume "ruleID i = ruleID j"
  then have "zeroPad i 4 = zeroPad j 4" by (simp add: ruleID_def)
  from arg_cong [OF this, of decval] show "i = j" by (simp add: zeroPad_decval assms)
qed simp

lemma patternRules_ID: "r \<in> set (patternRules i patterns) \<Longrightarrow> \<exists>k > i. ID r = ruleID k"
proof (induction i patterns rule: patternRules.induct)
  case (2 i p ps)
  have "\<exists>k > i. ID r = ruleID k" if "r \<in> set (patternRules (i + 1) ps)"
    using 2 that by (cases "p = []") force+
  with "2.prems" show ?case by (auto split: if_splits intro: exI [of _ "i + 1"])
qed simp

lemma patternRules_distinct: "0 \<le> i \<Longrightarrow> distinct (map ID (patternRules i patterns))"
proof (induction i patterns rule: patternRules.induct)
  case (2 i p ps)
  have "ruleID (i + 1) \<notin> ID ` set (patternRules (i + 1) ps)"
  proof
    assume "ruleID (i + 1) \<in> ID ` set (patternRules (i + 1) ps)"
    then obtain k where "k > i + 1" "ruleID (i + 1) = ruleID k"
      using patternRules_ID by fastforce
    with ruleID_inject [of "i + 1" k] "2.prems" show False by simp
  qed
  with 2 show ?case by simp
qed simp

section \<open>Policy files\<close>

lemma policyLine_Some: "policyLine l = Some p \<Longrightarrow> p \<noteq> [] \<and> \<not> HasPrefix p ''#''"
  by (auto simp: policyLine_def Let_def split: if_splits)

lemma LoadPatternsFile_lines:
  "LoadPatternsFile readFile path = Some patterns \<Longrightarrow> p \<in> set patterns \<Longrightarrow> p \<noteq> [] \<and> \<not> HasPrefix p ''#''"
  by (auto simp: LoadPatternsFile_def set_map_filter dest!: policyLine_Some split: option.splits)

lemma defaultPatterns_noBlank: "noBlankPattern defaultPatterns"
  by code_simp

lemma defaultPatterns_lines: "p \<in> set defaultPatterns \<Longrightarrow> p \<noteq> [] \<and> \<not> HasPrefix p ''#''"
  by (auto simp: defaultPatterns_def HasPrefix_def)

end
