(* ===== verification/Waf_Properties.thy ===== *)
theory Waf_Properties
  imports Waf_Policy
begin

text \<open>
  What the rule engine of \<^verbatim>\<open>security/waf\<close> promises, each property with a concrete run.
\<close>

section \<open>Properties of the rule engine\<close>

text \<open>
  C22. The scanner is exact. For every order in which Go ranges over its maps, every list of rules
  none of which normalizes to the empty word, and every division of a field into pieces, feeding
  the pieces and finishing returns what the search without an automaton finds in the normalized
  field: the rule of the longest pattern that ends first, and nothing if no pattern occurs. In
  particular construction and scan always return and never dereference nil.
\<close>

theorem scanner_refines_reference_search:
  assumes "rangeOrder rng" and "noBlankRule rules"
  shows "scanPieces (NewRules rng rules) field pieces
    = verdict field (refScan (ruleOf rules) [] (Normalize (concat pieces)))"
  using assms by (rule scanPieces_rules)

theorem scanner_refines_reference_search_witness:
  "scanPieces (NewRules id [\<lparr>ID = ''a'', Pattern = ''UNION select''\<rparr>, \<lparr>ID = [], Pattern = ''<script''\<rparr>])
     ''body'' [''1 union/*x'', ''*/SEL'', ''ECT 2'']
   = Inl (Found \<lparr>mPattern = ''UNION select'', mField = ''body'', mRuleID = ''a''\<rparr>)"
proof -
  have rng: "rangeOrder id" by (rule rangeOrder_id)
  have blank: "noBlankRule [\<lparr>ID = ''a'', Pattern = ''UNION select''\<rparr>, \<lparr>ID = [], Pattern = ''<script''\<rparr>]"
    by code_simp
  show ?thesis
    unfolding scanner_refines_reference_search [OF rng blank] by code_simp
qed

text \<open>
  C23. Detection is complete and sound. A field is reported exactly if the normal form of some
  pattern occurs in the normal form of the field, however the field is cut into pieces.
\<close>

theorem scanner_detects_exactly_the_patterns:
  assumes "rangeOrder rng" and "noBlankPattern patterns"
  shows "(\<exists>m. scanPieces (NewPatterns rng patterns) field pieces = Inl (Found m))
    \<longleftrightarrow> (\<exists>p \<in> set patterns. p \<noteq> [] \<and> sublist (Normalize p) (Normalize (concat pieces)))"
proof -
  have "scanPieces (NewPatterns rng patterns) field pieces \<noteq> Inl Crash"
    using scanPieces_rules [OF assms(1), of "patternRules 0 patterns"] assms(2)
    by (simp add: noBlankPattern_rules NewPatterns_def verdict_def split: option.splits)
  then have "(\<exists>m. scanPieces (NewPatterns rng patterns) field pieces = Inl (Found m))
    \<longleftrightarrow> scanPieces (NewPatterns rng patterns) field pieces \<noteq> Inr ()"
    by (metis (full_types) Inl_Inr_False old.unit.exhaust stop.exhaust sumE)
  with scan_detects [OF assms] show ?thesis by blast
qed

theorem scanner_detects_exactly_the_patterns_witness:
  "\<exists>m. scanPieces (NewPatterns rev [''<script'', ''drop table'']) ''uri'' [''x=DR'', ''op  TA'', ''BLE''] = Inl (Found m)"
proof -
  have blank: "noBlankPattern [''<script'', ''drop table'']" by code_simp
  have "\<exists>p \<in> set [''<script'', ''drop table'']. p \<noteq> [] \<and>
      sublist (Normalize p) (Normalize (concat [''x=DR'', ''op  TA'', ''BLE'']))" by code_simp
  then show ?thesis using scanner_detects_exactly_the_patterns [OF rangeOrder_rev blank] by blast
qed

text \<open>
  C24. How a field is cut into pieces does not matter, for any automaton at all: no match is lost
  or invented at the boundary of two network reads or two chunks.
\<close>

theorem scan_independent_of_pieces:
  "concat pieces = concat pieces' \<Longrightarrow> scanPieces a field pieces = scanPieces a field pieces'"
  by (simp add: scanPieces_concat)

theorem scan_independent_of_pieces_witness:
  "scanPieces (NewPatterns id [''<script'']) ''body'' [''<s'', ''cript>'']
   = scanPieces (NewPatterns id [''<script'']) ''body'' [''<'', [], ''scr'', ''ipt>'']"
  by (rule scan_independent_of_pieces) simp

text \<open>
  C25. Normalization is a normal form: its result has no upper-case letter, no white space but
  single inner blanks, no comment opening, and normalizing again changes nothing.
\<close>

theorem Normalize_canonical: "normal (Normalize s) \<and> Normalize (Normalize s) = Normalize s"
  using normal_Normalize [of s] Normalize_normal by blast

text \<open>The comments of a text are all closed.\<close>

function commentsClosed :: "string \<Rightarrow> bool" where
  "commentsClosed [] = True"
| "commentsClosed (b # rest) =
    (if opensComment (b # rest)
     then (case skipComment (tl rest) of None \<Rightarrow> False | Some rest' \<Rightarrow> commentsClosed rest')
     else commentsClosed rest)"
  by pat_completeness auto
termination by (relation "measure length") (auto dest!: skipComment_shorter)

lemma skipComment_append: "skipComment s = Some r \<Longrightarrow> skipComment (s @ t) = Some (r @ t)"
  by (induction s rule: skipComment.induct) (auto split: if_splits)

lemma opensComment_before: "s \<noteq> [] \<Longrightarrow> opensComment (s @ ''/*'' @ t) = opensComment s"
  by (cases s; cases "tl s") (auto simp: opensComment_def)

lemma emit_open_comment:
  assumes "skipComment s = None"
  shows "commentsClosed pre \<Longrightarrow> emit e p (pre @ ''/*'' @ s) = emit e p pre"
proof (induction e p pre rule: emit.induct)
  case (1 e p)
  show ?case using assms by (simp add: opensComment_def)
next
  case (2 e p b rest)
  have opens: "opensComment (b # rest @ ''/*'' @ s) = opensComment (b # rest)" using opensComment_before [of "b # rest" s] by simp
  show ?case
  proof (cases "opensComment (b # rest)")
    case True
    then obtain rest' c t where r: "skipComment t = Some rest'" "rest = c # t" and closed: "commentsClosed rest'"
      using "2.prems" by (auto simp: opensComment_def split: list.splits option.splits)
    have "emit e True (rest' @ ''/*'' @ s) = emit e True rest'" using "2.IH"(1) [OF True] r closed by simp
    with True opens r skipComment_append [OF r(1), of "''/*'' @ s"] show ?thesis by simp
  next
    case False
    with "2.prems" have "commentsClosed rest" by simp
    with False opens "2.IH"(2,3) [OF False] show ?thesis by simp
  qed
qed

text \<open>
  C40. A comment that is never closed hides the rest of the field. Wherever in a field it opens, after any text whose own
  comments are closed, and however the field is cut into pieces, the scanner returns for the whole field what it returns for the text before the opening, whatever
  follows: an attack behind an open comment passes the rule engine. The patterns are any that do not normalize to nothing.
\<close>

theorem open_comment_hides_the_rest:
  assumes "rangeOrder rng" and "noBlankPattern patterns" and "commentsClosed pre" and "skipComment s = None"
    and "concat pieces = pre @ ''/*'' @ s"
  shows "scanPieces (NewPatterns rng patterns) field pieces = scanPieces (NewPatterns rng patterns) field [pre]"
proof -
  have "Normalize (concat pieces) = Normalize (concat [pre])"
    unfolding assms(5) using emit_open_comment [OF assms(4,3)] by (simp add: Normalize_emit)
  then show ?thesis unfolding NewPatterns_def
    using scanPieces_rules [OF assms(1), of "patternRules 0 patterns"] assms(2) by (simp add: noBlankPattern_rules)
qed

theorem open_comment_hides_the_rest_witness:
  "scanPieces (NewPatterns id defaultPatterns) ''body'' [''a /* b */ x'', ''/'', ''*<script>alert(1)</script> union select''] = Inr ()"
proof -
  have "commentsClosed ''a /* b */ x''" "skipComment ''<script>alert(1)</script> union select'' = None" by code_simp+
  moreover have "\<not> (\<exists>p \<in> set defaultPatterns. p \<noteq> [] \<and> sublist (Normalize p) (Normalize (concat [''a /* b */ x''])))" by code_simp
  then have "scanPieces (NewPatterns id defaultPatterns) ''body'' [''a /* b */ x''] = Inr ()"
    using scan_detects [OF rangeOrder_id defaultPatterns_noBlank] by blast
  ultimately show ?thesis
    using open_comment_hides_the_rest [OF rangeOrder_id defaultPatterns_noBlank,
        of "''a /* b */ x''" "''<script>alert(1)</script> union select''" "[''a /* b */ x'', ''/'', ''*<script>alert(1)</script> union select'']" "''body''"]
    by simp
qed

text \<open>
  A pattern that is not empty but normalizes to the empty word turns the engine into one that
  blocks harmless fields: the root of the automaton becomes a match.
\<close>

lemma blank_pattern_blocks_harmless_field:
  "scanPieces (NewPatterns id [''union select'', ''/* retired rule */'']) ''uri'' [''/index.html'']
   = Inl (Found \<lparr>mPattern = ''/* retired rule */'', mField = ''uri'', mRuleID = ''MTWS-WAF-0002''\<rparr>)"
  by code_simp

text \<open>
  Every rule made from a list of patterns has an identifier of its own, so that a report names
  one rule.
\<close>

lemma rule_identifiers_distinct: "distinct (map ID (patternRules 0 patterns))"
  by (rule patternRules_distinct) simp

text \<open>
  Whatever the environment and the policy file hold, the engine is never without rules: the
  loaded list is not empty and none of its lines is empty or a comment line.
\<close>

lemma LoadPatterns_never_empty:
  "LoadPatterns getenv readFile \<noteq> []
   \<and> list_all (\<lambda>p. p \<noteq> [] \<and> \<not> HasPrefix p ''#'') (LoadPatterns getenv readFile)"
proof -
  have "defaultPatterns \<noteq> []" by (simp add: defaultPatterns_def)
  then show ?thesis
    using defaultPatterns_lines LoadPatternsFile_lines [of readFile "TrimSpace (getenv policyFileEnv)"]
    by (auto simp: LoadPatterns_def DefaultPatterns_def Let_def list_all_iff split: option.splits)
qed

end
