(* ===== verification/Go_Reader.thy ===== *)
theory Go_Reader
  imports Go_Strings
begin

text \<open>
  The part of \<^verbatim>\<open>bufio.Reader\<close> and \<^verbatim>\<open>io.ReadFull\<close> the server uses, over a connection. A connection
  is the list of pieces the network will deliver, then an error that every later read repeats.
  Whether the last bytes come together with that error (\<open>together\<close>) is open: a TCP connection never
  does that, a TLS connection does when an alert follows the data. The reader holds the bytes
  that were read from the connection and not yet handed out; a read that is as large as the
  buffer bypasses it. The locale \<open>byte_source\<close> states what its clients rely on.
\<close>

section \<open>Definitions\<close>

datatype ioError = EOF | UnexpectedEOF | NetError string

record reader =
  buffered :: string
  segments :: "string list"
  final :: ioError
  together :: bool

definition defaultBufSize :: nat where "defaultBufSize = 4096"

text \<open>
  One read of at most \<open>n\<close> bytes from the connection: the data, the error and the pieces left. An
  empty piece is no delivery.
\<close>

fun connRead :: "nat \<Rightarrow> string list \<Rightarrow> ioError \<Rightarrow> bool \<Rightarrow> (string \<times> ioError option) \<times> string list" where
  "connRead n [] e t = (([], Some e), [])"
| "connRead n (s # ss) e t =
    (if s = [] then connRead n ss e t
     else if n < length s then ((take n s, None), drop n s # ss)
     else ((s, if t \<and> concat ss = [] then Some e else None), ss))"

definition ReadByte :: "(reader, ioError, byte) op" where
  "ReadByte r =
    (case buffered r of
       b # bs \<Rightarrow> (Inr b, r\<lparr>buffered := bs\<rparr>)
     | [] \<Rightarrow>
        (let ((data, e), ss) = connRead defaultBufSize (segments r) (final r) (together r) in
         case data of
           [] \<Rightarrow> (Inl (final r), r\<lparr>segments := ss\<rparr>)
         | b # bs \<Rightarrow> (Inr b, r\<lparr>buffered := bs, segments := ss\<rparr>)))"

text \<open>\<open>Read\<close> into a slice of length \<open>n\<close>: the bytes read and the error, which may come together.\<close>

definition Read :: "nat \<Rightarrow> reader \<Rightarrow> (string \<times> ioError option) \<times> reader" where
  "Read n r =
    (if n = 0 then (([], None), r)
     else if buffered r \<noteq> [] then ((take n (buffered r), None), r\<lparr>buffered := drop n (buffered r)\<rparr>)
     else if defaultBufSize \<le> n
     then (let (res, ss) = connRead n (segments r) (final r) (together r) in (res, r\<lparr>segments := ss\<rparr>))
     else
      (let ((data, e), ss) = connRead defaultBufSize (segments r) (final r) (together r) in
       if data = [] then (([], Some (final r)), r\<lparr>segments := ss\<rparr>)
       else ((take n data, None), r\<lparr>buffered := drop n data, segments := ss\<rparr>)))"

text \<open>All that is still to come.\<close>

definition pending :: "reader \<Rightarrow> string" where
  "pending r = buffered r @ concat (segments r)"

lemma connRead_spec:
  assumes "connRead n ss e t = ((data, err), ss')" and "0 < n"
  shows "concat ss = data @ concat ss' \<and> length data \<le> n \<and> (data = [] \<longrightarrow> concat ss = [])
    \<and> (err = None \<or> err = Some e \<and> concat ss' = []) \<and> (data = [] \<longrightarrow> err = Some e)
    \<and> (t \<or> data = [] \<or> err = None)"
  using assms by (induction n ss e t rule: connRead.induct) (auto split: if_splits)

lemma ReadByte_final: "ReadByte r = (x, r') \<Longrightarrow> final r' = final r \<and> together r' = together r"
  by (auto simp: ReadByte_def Let_def split: list.splits prod.splits)

lemma Read_final: "Read n r = (x, r') \<Longrightarrow> final r' = final r \<and> together r' = together r"
  by (auto simp: Read_def Let_def split: if_splits prod.splits)

lemma defaultBufSize_pos [simp]: "0 < defaultBufSize"
  by (simp add: defaultBufSize_def)

lemma ReadByte_spec:
  assumes "ReadByte r = (x, r')"
  shows "(case x of Inr b \<Rightarrow> pending r = b # pending r' | Inl e \<Rightarrow> pending r = [] \<and> pending r' = [] \<and> e = final r)"
proof (cases "buffered r")
  case Nil
  obtain data e ss where c: "connRead defaultBufSize (segments r) (final r) (together r) = ((data, e), ss)"
    by (metis surj_pair)
  from connRead_spec [OF this] Nil assms c show ?thesis
    by (cases data) (auto simp: ReadByte_def pending_def)
next
  case (Cons b bs)
  with assms show ?thesis by (auto simp: ReadByte_def pending_def)
qed

lemma Read_spec:
  assumes "Read n r = ((data, err), r')" and "0 < n"
  shows "pending r = data @ pending r' \<and> length data \<le> n \<and> (data = [] \<longrightarrow> pending r = [] \<and> err \<noteq> None)
    \<and> (err = None \<or> err = Some (final r) \<and> pending r' = [] \<and> (data = [] \<or> together r))"
proof (cases "buffered r")
  case Nil
  define m where "m = (if defaultBufSize \<le> n then n else defaultBufSize)"
  obtain d e ss where c: "connRead m (segments r) (final r) (together r) = ((d, e), ss)"
    by (metis surj_pair)
  have "0 < m" using assms(2) by (simp add: m_def)
  note spec = connRead_spec [OF c this]
  have run: "Read n r =
      (if defaultBufSize \<le> n then ((d, e), r\<lparr>segments := ss\<rparr>)
       else if d = [] then (([], Some (final r)), r\<lparr>segments := ss\<rparr>)
       else ((take n d, None), r\<lparr>buffered := drop n d, segments := ss\<rparr>))"
    using Nil assms(2) c by (cases "defaultBufSize \<le> n") (simp_all add: Read_def m_def)
  consider "defaultBufSize \<le> n" | "\<not> defaultBufSize \<le> n" "d = []" | "\<not> defaultBufSize \<le> n" "d \<noteq> []" by blast
  then show ?thesis
  proof cases
    case 1
    with run assms(1) have "data = d" "err = e" "r' = r\<lparr>segments := ss\<rparr>" by simp_all
    with spec 1 Nil m_def show ?thesis by (simp add: pending_def) blast
  next
    case 2
    with run assms(1) have "data = []" "err = Some (final r)" "r' = r\<lparr>segments := ss\<rparr>" by simp_all
    with spec 2 Nil show ?thesis by (simp add: pending_def) blast
  next
    case 3
    with run assms(1) have "data = take n d" "err = None" "r' = r\<lparr>buffered := drop n d, segments := ss\<rparr>" by simp_all
    with spec 3 Nil assms(2) show ?thesis by (simp add: pending_def)
  qed
next
  case (Cons b bs)
  with assms have "data = take n (buffered r)" "err = None" "r' = r\<lparr>buffered := drop n (buffered r)\<rparr>"
    by (simp_all add: Read_def)
  with Cons assms(2) show ?thesis by (simp add: pending_def take_Cons' drop_Cons')
qed

section \<open>The interface\<close>

text \<open>
  What a client may rely on: bytes come in order and exactly once, an error comes only when
  nothing is left and is the error of the connection, a read of a positive size delivers
  something or reports the error.
\<close>

locale byte_source =
  fixes readByte :: "('r, 'e, byte) op"
    and readSome :: "nat \<Rightarrow> 'r \<Rightarrow> (string \<times> 'e option) \<times> 'r"
    and rest :: "'r \<Rightarrow> string"
    and closing :: "'r \<Rightarrow> 'e"
  assumes readByte_Inr: "readByte r = (Inr b, r') \<Longrightarrow> rest r = b # rest r'"
    and readByte_Inl: "readByte r = (Inl e, r') \<Longrightarrow> rest r = [] \<and> rest r' = [] \<and> e = closing r"
    and readByte_closing: "readByte r = (x, r') \<Longrightarrow> closing r' = closing r"
    and readSome_data: "readSome n r = ((data, err), r') \<Longrightarrow> 0 < n \<Longrightarrow>
      rest r = data @ rest r' \<and> length data \<le> n"
    and readSome_stop: "readSome n r = ((data, err), r') \<Longrightarrow> 0 < n \<Longrightarrow>
      (data = [] \<longrightarrow> err \<noteq> None) \<and> (err \<noteq> None \<longrightarrow> err = Some (closing r) \<and> rest r' = [])"
    and readSome_closing: "readSome n r = (y, r') \<Longrightarrow> closing r' = closing r"
begin

lemma readByte_Cons:
  assumes "rest r = b # bs"
  obtains r' where "readByte r = (Inr b, r')" and "rest r' = bs" and "closing r' = closing r"
proof (cases "readByte r")
  case (Pair x r')
  show ?thesis
  proof (cases x)
    case (Inl e)
    with Pair readByte_Inl assms show ?thesis by fastforce
  next
    case (Inr c)
    with Pair readByte_Inr [of r c r'] readByte_closing [of r x r'] assms that show ?thesis by simp
  qed
qed

lemma readByte_Nil:
  assumes "rest r = []"
  obtains r' where "readByte r = (Inl (closing r), r')" and "rest r' = []" and "closing r' = closing r"
proof (cases "readByte r")
  case (Pair x r')
  show ?thesis
  proof (cases x)
    case (Inl e)
    with Pair readByte_Inl [of r e r'] readByte_closing [of r x r'] that show ?thesis by simp
  next
    case (Inr c)
    with Pair readByte_Inr [of r c r'] assms show ?thesis by simp
  qed
qed

lemma readByte_same:
  assumes "rest r = rest q" and "closing r = closing q"
    and "readByte r = (x, r')" and "readByte q = (y, q')"
  shows "x = y \<and> rest r' = rest q' \<and> closing r' = closing q'"
proof (cases "rest r")
  case Nil
  then obtain r1 where "readByte r = (Inl (closing r), r1)" "rest r1 = []" "closing r1 = closing r"
    by (rule readByte_Nil)
  moreover obtain q1 where "readByte q = (Inl (closing q), q1)" "rest q1 = []" "closing q1 = closing q"
    using Nil assms(1) by (metis readByte_Nil)
  ultimately show ?thesis using assms by simp
next
  case (Cons b bs)
  then obtain r1 where "readByte r = (Inr b, r1)" "rest r1 = bs" "closing r1 = closing r"
    by (rule readByte_Cons)
  moreover obtain q1 where "readByte q = (Inr b, q1)" "rest q1 = bs" "closing q1 = closing q"
    using Cons assms(1) by (metis readByte_Cons)
  ultimately show ?thesis using assms by simp
qed

lemma readSome_progress:
  assumes "readSome n r = ((data, None), r')" and "0 < n"
  shows "data \<noteq> []" and "length (rest r') < length (rest r)"
  using readSome_stop [OF assms] readSome_data [OF assms] by auto

end

interpretation bufio: byte_source ReadByte Read pending final
proof
  show "ReadByte r = (Inr b, r') \<Longrightarrow> pending r = b # pending r'" for r b r'
    using ReadByte_spec by fastforce
  show "ReadByte r = (Inl e, r') \<Longrightarrow> pending r = [] \<and> pending r' = [] \<and> e = final r" for r e r'
    using ReadByte_spec by fastforce
  show "Read n r = ((data, err), r') \<Longrightarrow> 0 < n \<Longrightarrow> pending r = data @ pending r' \<and> length data \<le> n" for n r data err r'
    using Read_spec by blast
  show "Read n r = ((data, err), r') \<Longrightarrow> 0 < n \<Longrightarrow>
      (data = [] \<longrightarrow> err \<noteq> None) \<and> (err \<noteq> None \<longrightarrow> err = Some (final r) \<and> pending r' = [])" for n r data err r'
    using Read_spec by blast
qed (simp_all add: ReadByte_final Read_final)

section \<open>ReadFull\<close>

text \<open>\<open>io.ReadFull\<close>: \<open>n\<close> bytes in all, \<open>got\<close> of them read.\<close>

function readFullLoop :: "nat \<Rightarrow> string \<Rightarrow> (reader, ioError, string) op" where
  "readFullLoop n got r =
    (if n \<le> length got then (Inr got, r)
     else
      (case Read (n - length got) r of
         ((data, err), r') \<Rightarrow>
          (let got' = got @ data in
           case err of
             None \<Rightarrow> readFullLoop n got' r'
           | Some e \<Rightarrow>
              if n \<le> length got' then (Inr got', r')
              else (Inl (if e = EOF \<and> got' \<noteq> [] then UnexpectedEOF else e), r'))))"
  by pat_completeness auto
termination
proof (relation "measure (\<lambda>(n, got, r). n - length got)")
  fix n got r y r' data err z
  assume "\<not> n \<le> length (got :: string)" and "(y, r') = Read (n - length got) r" and "(data, err) = y"
    and "z = got @ data" and "err = None"
  then have "Read (n - length got) r = ((data, None), r')" "0 < n - length got" "z = got @ data" by auto
  with bufio.readSome_progress(1) [of "n - length got" r data r']
  have "data \<noteq> []" "\<not> n \<le> length got" "z = got @ data" by auto
  then show "((n, z, r'), n, got, r) \<in> measure (\<lambda>(n, got, r). n - length got)"
    by (cases data) auto
qed simp

declare readFullLoop.simps [simp del]

definition ReadFull :: "nat \<Rightarrow> (reader, ioError, string) op" where
  "ReadFull n r = readFullLoop n [] r"

lemma readFullLoop_spec:
  assumes "readFullLoop n got r = (x, r')" and "length got \<le> n"
  shows "final r' = final r \<and> together r' = together r
    \<and> (if n - length got \<le> length (pending r)
       then x = Inr (got @ take (n - length got) (pending r)) \<and> pending r' = drop (n - length got) (pending r)
       else x = Inl (if final r = EOF \<and> got @ pending r \<noteq> [] then UnexpectedEOF else final r) \<and> pending r' = [])"
  using assms
proof (induction n got r rule: readFullLoop.induct)
  case (1 n got r)
  show ?case
  proof (cases "n \<le> length got")
    case True
    with "1.prems" show ?thesis by (simp add: readFullLoop.simps)
  next
    case False
    obtain data err q where rd: "Read (n - length got) r = ((data, err), q)" by (metis surj_pair)
    from False have pos: "0 < n - length got" by simp
    note spec = Read_spec [OF rd pos] and keep = Read_final [OF rd]
    have split: "pending r = data @ pending q" and le: "length data \<le> n - length got" using spec by auto
    show ?thesis
    proof (cases err)
      case None
      with False rd "1.prems" have "readFullLoop n (got @ data) q = (x, r')"
        by (simp add: readFullLoop.simps [of n got])
      moreover have "length (got @ data) \<le> n" using le False by simp
      ultimately have "final r' = final q \<and> together r' = together q
        \<and> (if n - length (got @ data) \<le> length (pending q)
           then x = Inr ((got @ data) @ take (n - length (got @ data)) (pending q)) \<and> pending r' = drop (n - length (got @ data)) (pending q)
           else x = Inl (if final q = EOF \<and> (got @ data) @ pending q \<noteq> [] then UnexpectedEOF else final q) \<and> pending r' = [])"
        using "1.IH" [OF False rd [symmetric] refl refl None] by blast
      with keep split le show ?thesis by (auto split: if_splits)
    next
      case (Some e)
      with spec have e: "e = final r" and left: "pending q = []" by auto
      from Some False rd "1.prems"(1)
      have "(x, r') = (if n \<le> length (got @ data) then (Inr (got @ data), q)
          else (Inl (if e = EOF \<and> got @ data \<noteq> [] then UnexpectedEOF else e), q))"
        by (simp add: readFullLoop.simps [of n got] Let_def split: if_splits)
      with e left keep split le show ?thesis by (auto split: if_splits)
    qed
  qed
qed

lemma ReadFull_spec:
  assumes "ReadFull n r = (x, r')"
  shows "final r' = final r \<and> together r' = together r
    \<and> (if n \<le> length (pending r)
       then x = Inr (take n (pending r)) \<and> pending r' = drop n (pending r)
       else x = Inl (if final r = EOF \<and> pending r \<noteq> [] then UnexpectedEOF else final r) \<and> pending r' = [])"
  using readFullLoop_spec [of n "[]" r x r'] assms by (simp add: ReadFull_def)

end
