(* ===== verification/Http_Parser.thy ===== *)
theory Http_Parser
  imports Go_Reader Waf_Policy
begin

text \<open>
  The request parser, \<^verbatim>\<open>http/parser.go\<close> and \<^verbatim>\<open>http/request.go\<close>. Every function that reads is an
  operation on the buffered reader; every \<open>fmt.Errorf\<close> of the source is a constructor of
  \<open>error\<close>, with the values it prints and the error it wraps. \<open>Panic\<close> is what a crash of the
  rule engine would be. The maps of headers and trailers are HOL maps.
\<close>

section \<open>Data\<close>

record Request =
  rMethod :: string
  rPath :: string
  rVersion :: string
  rHeaders :: "string \<rightharpoonup> string"
  rTrailers :: "string \<rightharpoonup> string"
  rBody :: string

definition Method :: "Request \<Rightarrow> string" where "Method r = rMethod r"
definition Path :: "Request \<Rightarrow> string" where "Path r = rPath r"
definition Version :: "Request \<Rightarrow> string" where "Version r = rVersion r"
definition Headers :: "Request \<Rightarrow> string \<rightharpoonup> string" where "Headers r = rHeaders r"
definition Trailers :: "Request \<Rightarrow> string \<rightharpoonup> string" where "Trailers r = rTrailers r"
definition Body :: "Request \<Rightarrow> string" where "Body r = rBody r"

record SecurityError =
  sePattern :: string
  seField :: string
  seRuleID :: string

datatype error =
    NilReader
  | UnsupportedVersion string
  | TooManyHeaders
  | DuplicateHeader string
  | LengthWithEncoding
  | UnsupportedEncoding string
  | MissingHost
  | InvalidHost
  | InvalidLength string
  | BodyTooLarge
  | MalformedRequestLine
  | InvalidMethod string
  | UnsupportedTarget string
  | LineFolding
  | MalformedHeader string
  | EmptyHeaderName
  | InvalidHeaderName string
  | IncompleteBody ioError
  | IncompleteChunk ioError
  | TooManyTrailers
  | ForbiddenTrailer string
  | DuplicateTrailer string
  | EmptyChunkSize
  | InvalidChunkSize string
  | ChunkTooLarge
  | IncompleteTerminator ioError
  | InvalidTerminator
  | IncompleteLine
  | LineTooLong nat
  | IOError ioError
  | Security SecurityError
  | Panic

definition maxRequestLineBytes :: nat where "maxRequestLineBytes = 4096"
definition maxHeaderLineBytes :: nat where "maxHeaderLineBytes = 8192"
definition maxHeaderCount :: nat where "maxHeaderCount = 64"
definition maxTrailerCount :: nat where "maxTrailerCount = 16"
definition maxBodyBytes :: nat where "maxBodyBytes = 2 ^ 20"

section \<open>Character classes\<close>

definition isTokenChar :: "byte \<Rightarrow> bool" where
  "isTokenChar b \<longleftrightarrow>
     CHR ''A'' \<le> b \<and> b \<le> CHR ''Z'' \<or> CHR ''a'' \<le> b \<and> b \<le> CHR ''z'' \<or> CHR ''0'' \<le> b \<and> b \<le> CHR ''9''
     \<or> b \<in> {CHR ''!'', CHR ''#'', CHR ''$'', CHR ''%'', CHR ''&'', CHR 0x27, CHR ''*'', CHR ''+'',
            CHR ''-'', CHR ''.'', CHR ''^'', CHR ''_'', CHR 0x60, CHR ''|'', CHR ''~''}"

definition isToken :: "string \<Rightarrow> bool" where
  "isToken value \<longleftrightarrow> value \<noteq> [] \<and> list_all isTokenChar value"

definition isDecimal :: "string \<Rightarrow> bool" where
  "isDecimal value \<longleftrightarrow> value \<noteq> [] \<and> list_all (\<lambda>c. \<not> (c < CHR ''0'' \<or> CHR ''9'' < c)) value"

definition isOriginForm :: "string \<Rightarrow> string \<Rightarrow> bool" where
  "isOriginForm meth target =
    (if target = ''*'' then meth = ''OPTIONS''
     else if \<not> HasPrefix target ''/'' then False
     else list_all (\<lambda>c. \<not> (byteval c \<le> 31 \<or> byteval c = 127)) target)"

definition hexValue :: "byte \<Rightarrow> int option" where
  "hexValue b =
    (if CHR ''0'' \<le> b \<and> b \<le> CHR ''9'' then Some (int (byteval b) - 48)
     else if CHR ''a'' \<le> b \<and> b \<le> CHR ''f'' then Some (int (byteval b) - 97 + 10)
     else if CHR ''A'' \<le> b \<and> b \<le> CHR ''F'' then Some (int (byteval b) - 65 + 10)
     else None)"

definition isChunkedTransferEncoding :: "string \<Rightarrow> bool" where
  "isChunkedTransferEncoding value = EqualFold (TrimSpace value) ''chunked''"

definition isForbiddenTrailer :: "string \<Rightarrow> bool" where
  "isForbiddenTrailer name \<longleftrightarrow> name \<in> {''Content-Length'', ''Host'', ''Transfer-Encoding'', ''Trailer''}"

section \<open>Lines\<close>

definition endsCRLF :: "string \<Rightarrow> bool" where
  "endsCRLF line \<longleftrightarrow>
     2 \<le> length line \<and> line ! (length line - 2) = cr \<and> line ! (length line - 1) = lf"

function readLineLoop :: "nat \<Rightarrow> string \<Rightarrow> (reader, error, string) op" where
  "readLineLoop maxBytes line r =
    (case ReadByte r of
       (Inl e, r') \<Rightarrow> (Inl (if e = EOF \<and> 0 < length line then IncompleteLine else IOError e), r')
     | (Inr b, r') \<Rightarrow>
        if maxBytes \<le> length line then (Inl (LineTooLong maxBytes), r')
        else
         (let line' = line @ [b] in
          if endsCRLF line' then (Inr (take (length line' - 2) line'), r')
          else readLineLoop maxBytes line' r'))"
  by pat_completeness auto
termination
  by (relation "measure (\<lambda>(m, line, r). m - length line)") auto

declare readLineLoop.simps [simp del]

definition readLineLimited :: "nat \<Rightarrow> (reader, error, string) op" where
  "readLineLimited maxBytes = readLineLoop maxBytes []"

section \<open>Scanning of fields\<close>

definition securityError :: "Match \<Rightarrow> error" where
  "securityError m = Security \<lparr>sePattern = mPattern m, seField = mField m, seRuleID = mRuleID m\<rparr>"

text \<open>The error returned for what the rule engine reports.\<close>

definition report :: "stop \<Rightarrow> error" where
  "report st = (case st of Found m \<Rightarrow> securityError m | Crash \<Rightarrow> Panic)"

definition scanField :: "Automaton option \<Rightarrow> string \<Rightarrow> string \<Rightarrow> stop + unit" where
  "scanField a field value =
    (if a = None \<or> length value = 0 then Inr ()
     else
      (let value' = (if field = ''uri''
                     then (case PathUnescape value of Some decoded \<Rightarrow> decoded | None \<Rightarrow> value)
                     else value)
       in fst (bindP (Feed field value') (\<lambda>_. Finish field) (NewScanner a))))"

definition checkField :: "Automaton option \<Rightarrow> string \<Rightarrow> string \<Rightarrow> (reader, error, unit) op" where
  "checkField a field value r =
    (case scanField a field value of Inl st \<Rightarrow> (Inl (report st), r) | Inr _ \<Rightarrow> (Inr (), r))"

text \<open>A method of a scanner that may be nil; the parser skips it then.\<close>

definition onScanner ::
    "(Scanner, stop, unit) op \<Rightarrow> Scanner option \<Rightarrow> (reader, error, Scanner option) op" where
  "onScanner m sc r =
    (case sc of
       None \<Rightarrow> (Inr None, r)
     | Some s \<Rightarrow>
        (case m s of
           (Inl st, s') \<Rightarrow> (Inl (report st), r)
         | (Inr _, s') \<Rightarrow> (Inr (Some s'), r)))"

definition newScanner :: "Automaton option \<Rightarrow> Scanner option" where
  "newScanner a = (if a = None then None else Some (NewScanner a))"

section \<open>Request line and header lines\<close>

definition readRequestLine :: "Automaton option \<Rightarrow> (reader, error, string \<times> string \<times> string) op" where
  "readRequestLine a =
    bindP (readLineLimited maxRequestLineBytes)
      (\<lambda>line.
        (case Fields line of
           [p0, p1, p2] \<Rightarrow>
             if \<not> isToken p0 then failP (InvalidMethod p0)
             else if \<not> isOriginForm p0 p1 then failP (UnsupportedTarget p1)
             else bindP (checkField a ''uri'' p1) (\<lambda>_. returnP (p0, p1, p2))
         | _ \<Rightarrow> failP MalformedRequestLine))"

text \<open>One header or trailer line; \<open>None\<close> is the empty line that ends the block.\<close>

definition readHeaderLine :: "Automaton option \<Rightarrow> (reader, error, (string \<times> string) option) op" where
  "readHeaderLine a =
    bindP (readLineLimited maxHeaderLineBytes)
      (\<lambda>line.
        if length line = 0 then returnP None
        else if line ! 0 = sp \<or> line ! 0 = tab then failP LineFolding
        else
         (let (name0, value0, ok) = Cut line (CHR '':'') in
          if \<not> ok then failP (MalformedHeader line)
          else
           (let name = TrimSpace name0; value = TrimSpace value0 in
            if name = [] then failP EmptyHeaderName
            else if \<not> isToken name then failP (InvalidHeaderName name)
            else
             (let canonicalName = CanonicalMIMEHeaderKey name in
              bindP (checkField a (''header:'' @ canonicalName) value)
                (\<lambda>_. returnP (Some (canonicalName, value)))))))"

section \<open>Bodies\<close>

function readBodyLoop :: "nat \<Rightarrow> Scanner option \<Rightarrow> string \<Rightarrow> (reader, error, Scanner option \<times> string) op" where
  "readBodyLoop n sc body r =
    (if n \<le> length body then (Inr (sc, body), r)
     else
      (case Read (n - length body) r of
         ((data, err), r') \<Rightarrow>
          (case (if data = [] then (Inr sc, r') else onScanner (Feed ''body'' data) sc r') of
             (Inl e, r1) \<Rightarrow> (Inl e, r1)
           | (Inr sc1, r1) \<Rightarrow>
              (let body' = body @ data in
               case err of
                 None \<Rightarrow> readBodyLoop n sc1 body' r1
               | Some e \<Rightarrow>
                  if e = EOF \<and> length body' = n then (Inr (sc1, body'), r1)
                  else if e = EOF then (Inl (IncompleteBody e), r1)
                  else (Inl (IOError e), r1)))))"
  by pat_completeness auto
termination
proof (relation "measure (\<lambda>(n, sc, body, r). n - length body)")
  fix n :: nat and sc :: "Scanner option" and body r y r' data err w sc1 r1 z
  assume "\<not> n \<le> length (body :: string)" and "(y, r') = Read (n - length body) r" and "(data, err) = y"
    and "z = body @ data" and "err = None"
  then have "Read (n - length body) r = ((data, None), r')" "0 < n - length body" "z = body @ data" by auto
  with bufio.readSome_progress(1) [of "n - length body" r data r']
  have "data \<noteq> []" "\<not> n \<le> length body" "z = body @ data" by auto
  then show "((n, sc1, z, r1), n, sc, body, r) \<in> measure (\<lambda>(n, sc, body, r). n - length body)"
    by (cases data) auto
qed simp

declare readBodyLoop.simps [simp del]

definition readBody :: "Automaton option \<Rightarrow> nat \<Rightarrow> (reader, error, string) op" where
  "readBody a n =
    (if n = 0 then returnP []
     else bindP (readBodyLoop n (newScanner a) [])
       (\<lambda>(sc, body). bindP (onScanner (Finish ''body'') sc) (\<lambda>_. returnP body)))"

fun chunkDigits :: "string \<Rightarrow> int \<Rightarrow> string \<Rightarrow> error + int" where
  "chunkDigits line sz [] = Inr sz"
| "chunkDigits line sz (c # cs) =
    (case hexValue c of
       None \<Rightarrow> Inl (InvalidChunkSize line)
     | Some v \<Rightarrow>
        if sz > (int maxBodyBytes - v) div 16 then Inl ChunkTooLarge
        else chunkDigits line (sz * 16 + v) cs)"

definition parseChunkSize :: "string \<Rightarrow> error + nat" where
  "parseChunkSize line =
    (let (v, _, ok) = Cut line (CHR '';'');
         sizeText = TrimSpace (if ok then v else line)
     in if sizeText = [] then Inl EmptyChunkSize
        else map_sum id nat (chunkDigits line 0 sizeText))"

definition readCRLF :: "(reader, error, unit) op" where
  "readCRLF r =
    (case ReadByte r of
       (Inl e, r1) \<Rightarrow> (Inl (IncompleteTerminator e), r1)
     | (Inr b1, r1) \<Rightarrow>
        (case ReadByte r1 of
           (Inl e, r2) \<Rightarrow> (Inl (IncompleteTerminator e), r2)
         | (Inr b2, r2) \<Rightarrow>
            if b1 \<noteq> cr \<or> b2 \<noteq> lf then (Inl InvalidTerminator, r2) else (Inr (), r2)))"

function readTrailersLoop ::
    "Automaton option \<Rightarrow> nat \<Rightarrow> string list \<Rightarrow> (string \<rightharpoonup> string) \<Rightarrow> (reader, error, string \<rightharpoonup> string) op" where
  "readTrailersLoop a i seen trailers r =
    (if maxTrailerCount \<le> i then (Inl TooManyTrailers, r)
     else bindP (readHeaderLine a)
       (\<lambda>h r'. case h of
          None \<Rightarrow> (Inr trailers, r')
        | Some (name, value) \<Rightarrow>
           if isForbiddenTrailer name then (Inl (ForbiddenTrailer name), r')
           else if name \<in> set seen then (Inl (DuplicateTrailer name), r')
           else readTrailersLoop a (i + 1) (name # seen) (trailers(name \<mapsto> value)) r') r)"
  by pat_completeness auto
termination
  by (relation "measure (\<lambda>(a, i, seen, trailers, r). maxTrailerCount - i)") auto

declare readTrailersLoop.simps [simp del]

definition readTrailers :: "Automaton option \<Rightarrow> (reader, error, string \<rightharpoonup> string) op" where
  "readTrailers a = readTrailersLoop a 0 [] Map.empty"

function readChunkedLoop ::
    "Automaton option \<Rightarrow> Scanner option \<Rightarrow> string \<Rightarrow> (reader, error, string \<times> (string \<rightharpoonup> string)) op" where
  "readChunkedLoop a sc body r =
    bindP (readLineLimited maxHeaderLineBytes)
      (\<lambda>sizeLine r1.
        case parseChunkSize sizeLine of
          Inl e \<Rightarrow> (Inl e, r1)
        | Inr chunkSize \<Rightarrow>
           if chunkSize = 0
           then bindP (onScanner (Finish ''body'') sc)
             (\<lambda>_. bindP (readTrailers a) (\<lambda>trailers. returnP (body, trailers))) r1
           else if length body + chunkSize > maxBodyBytes then (Inl BodyTooLarge, r1)
           else
            (case ReadFull chunkSize r1 of
               (Inl e, r2) \<Rightarrow> (Inl (IncompleteChunk e), r2)
             | (Inr data, r2) \<Rightarrow>
                bindP (onScanner (Feed ''body'' data) sc)
                  (\<lambda>sc' r3. bindP readCRLF (\<lambda>_ r4. readChunkedLoop a sc' (body @ data) r4) r3) r2)) r"
  by pat_completeness auto
termination
proof (relation "measure (\<lambda>(a, sc, body, r). maxBodyBytes - length body)")
  fix a sc body r sizeLine r1 chunkSize x r2 data sc' r3 u r4
  assume "chunkSize \<noteq> 0" and "\<not> length (body :: string) + chunkSize > maxBodyBytes"
    and "(x, r2) = ReadFull chunkSize r1" and "x = Inr data"
  then have "length data = chunkSize" "length body < maxBodyBytes"
    using ReadFull_spec [of chunkSize r1 x r2] by (auto split: if_splits)
  show "((a, sc', body @ data, r4), a, sc, body, r) \<in> measure (\<lambda>(a, sc, body, r). maxBodyBytes - length body)"
    using \<open>chunkSize \<noteq> 0\<close> \<open>length data = chunkSize\<close> \<open>length body < maxBodyBytes\<close> by simp
qed simp

declare readChunkedLoop.simps [simp del]

definition readChunkedBody :: "Automaton option \<Rightarrow> (reader, error, string \<times> (string \<rightharpoonup> string)) op" where
  "readChunkedBody a = readChunkedLoop a (newScanner a) []"

section \<open>Requests\<close>

function readHeadersLoop ::
    "Automaton option \<Rightarrow> nat \<Rightarrow> string list \<Rightarrow> (string \<rightharpoonup> string) \<Rightarrow> (reader, error, string \<rightharpoonup> string) op" where
  "readHeadersLoop a i seenHeaders headers r =
    (if maxHeaderCount \<le> i then (Inl TooManyHeaders, r)
     else bindP (readHeaderLine a)
       (\<lambda>h r'. case h of
          None \<Rightarrow> (Inr headers, r')
        | Some (name, value) \<Rightarrow>
           if name \<in> set seenHeaders then (Inl (DuplicateHeader name), r')
           else readHeadersLoop a (i + 1) (name # seenHeaders) (headers(name \<mapsto> value)) r') r)"
  by pat_completeness auto
termination
  by (relation "measure (\<lambda>(a, i, seen, headers, r). maxHeaderCount - i)") auto

declare readHeadersLoop.simps [simp del]

text \<open>The checks between the header block and the body, in the order of the source.\<close>

definition checkEncoding :: "(string \<rightharpoonup> string) \<Rightarrow> error + unit" where
  "checkEncoding headers =
    (case headers ''Transfer-Encoding'' of
       None \<Rightarrow> Inr ()
     | Some transferEncoding \<Rightarrow>
        if headers ''Content-Length'' \<noteq> None then Inl LengthWithEncoding
        else if \<not> isChunkedTransferEncoding transferEncoding then Inl (UnsupportedEncoding transferEncoding)
        else Inr ())"

definition checkHost :: "(string \<rightharpoonup> string) \<Rightarrow> error + unit" where
  "checkHost headers =
    (case headers ''Host'' of
       None \<Rightarrow> Inl MissingHost
     | Some host \<Rightarrow>
        if TrimSpace host = [] then Inl MissingHost
        else if ContainsAny host [sp, tab, cr, lf] then Inl InvalidHost
        else Inr ())"

definition contentLength :: "(string \<rightharpoonup> string) \<Rightarrow> error + nat" where
  "contentLength headers =
    (case headers ''Content-Length'' of
       None \<Rightarrow> Inr 0
     | Some cl \<Rightarrow>
        if \<not> isDecimal cl then Inl (InvalidLength cl)
        else
         (case Atoi cl of
            None \<Rightarrow> Inl (InvalidLength cl)
          | Some parsedLen \<Rightarrow> if parsedLen > int maxBodyBytes then Inl BodyTooLarge else Inr (nat parsedLen)))"

definition check :: "error + 'a \<Rightarrow> (reader, error, 'a) op" where
  "check x r = (x, r)"

definition isChunked :: "(string \<rightharpoonup> string) \<Rightarrow> bool" where
  "isChunked headers =
    (case headers ''Transfer-Encoding'' of None \<Rightarrow> False | Some te \<Rightarrow> isChunkedTransferEncoding te)"

text \<open>The body and the trailers of a request with the given headers.\<close>

definition readPayload :: "Automaton option \<Rightarrow> (string \<rightharpoonup> string) \<Rightarrow> nat \<Rightarrow> (reader, error, string \<times> (string \<rightharpoonup> string)) op" where
  "readPayload a headers len =
    (if isChunked headers then readChunkedBody a
     else if 0 < len then bindP (readBody a len) (\<lambda>body. returnP (body, Map.empty))
     else returnP ([], Map.empty))"

definition parseMessage :: "Automaton option \<Rightarrow> (reader, error, Request) op" where
  "parseMessage a =
    bindP (readRequestLine a) (\<lambda>(meth, path, version).
      if version \<noteq> ''HTTP/1.1'' then failP (UnsupportedVersion version)
      else
       bindP (readHeadersLoop a 0 [] Map.empty) (\<lambda>headers.
       bindP (check (checkEncoding headers)) (\<lambda>_.
       bindP (check (checkHost headers)) (\<lambda>_.
       bindP (check (contentLength headers)) (\<lambda>len.
       bindP (readPayload a headers len) (\<lambda>(body, trailers).
         returnP \<lparr>rMethod = meth, rPath = path, rVersion = version, rHeaders = headers,
                  rTrailers = trailers, rBody = body\<rparr>))))))"

text \<open>\<open>parseRequest\<close> with the reader it may be given as nil.\<close>

definition parseRequest ::
    "Automaton option \<Rightarrow> reader option \<Rightarrow> (error + Request) \<times> reader option" where
  "parseRequest a ro =
    (case ro of
       None \<Rightarrow> (Inl NilReader, None)
     | Some r \<Rightarrow> (case parseMessage a r of (x, r') \<Rightarrow> (x, Some r')))"

definition ParseRequest ::
    "((byte \<times> nat) list \<Rightarrow> (byte \<times> nat) list) \<Rightarrow> (string \<Rightarrow> string) \<Rightarrow> (string \<Rightarrow> string option)
     \<Rightarrow> reader option \<Rightarrow> (error + Request) \<times> reader option" where
  "ParseRequest rng getenv readFile ro = parseRequest (NewDefaultAutomaton rng getenv readFile) ro"

end
