(* ===== verification/Waf_Engine.thy ===== *)
theory Waf_Engine
  imports Waf_Policy
begin

text \<open>
  The rule engine as its clients see it: a scanner is fed a field piece by piece and finished.
  The locale \<open>stream_scanner\<close> is that contract; the scanner of the automaton fulfils it for every
  automaton and field, and never crashes on an automaton made by the constructors.
\<close>

section \<open>The contract\<close>

text \<open>
  \<open>fed s t\<close>: the scanner \<open>s\<close> was fed the bytes \<open>t\<close> and has not reported. \<open>harmless\<close> is the verdict on
  a whole field. A report made early is a report on every continuation of the field.
\<close>

locale stream_scanner =
  fixes new :: 's
    and feed :: "string \<Rightarrow> ('s, 'e, unit) op"
    and finish :: "('s, 'e, unit) op"
    and fed :: "'s \<Rightarrow> string \<Rightarrow> bool"
    and harmless :: "string \<Rightarrow> bool"
  assumes fed_new: "fed new []"
    and fed_feed: "fed s t \<Longrightarrow> feed d s = (Inr (), s') \<Longrightarrow> fed s' (t @ d)"
    and fed_stop: "fed s t \<Longrightarrow> feed d s = (Inl e, s') \<Longrightarrow> \<not> harmless (t @ d @ u)"
    and fed_finish: "fed s t \<Longrightarrow> finish s = (x, s') \<Longrightarrow> x = Inr () \<longleftrightarrow> harmless t"
begin

text \<open>Feeding a whole field at once is an instance of feeding it in pieces.\<close>

lemma whole_field:
  assumes "bindP (feed t) (\<lambda>_. finish) new = (x, s)"
  shows "x = Inr () \<longleftrightarrow> harmless t"
proof (cases "feed t new")
  case (Pair y s')
  show ?thesis
  proof (cases y)
    case (Inl e)
    with Pair fed_stop [OF fed_new, of t e s' "[]"] assms show ?thesis by (auto simp: bindP_def)
  next
    case (Inr u)
    with Pair fed_feed [OF fed_new, of t s'] have "fed s' t" by simp
    from fed_finish [OF this] Inr Pair assms show ?thesis by (simp add: bindP_def)
  qed
qed

lemma harmless_prefix:
  assumes "harmless (t @ u)"
  shows "\<exists>s. feed t new = (Inr (), s) \<and> fed s t"
proof (cases "feed t new")
  case (Pair y s')
  with fed_stop [OF fed_new, of t _ s' u] assms have "y = Inr ()" by (cases y) auto
  with Pair fed_feed [OF fed_new, of t s'] show ?thesis by simp
qed

end

section \<open>The automaton's scanner\<close>

lemma Feed_append: "Feed field (x @ y) s = bindP (Feed field x) (\<lambda>_. Feed field y) s"
proof (cases "idle s")
  case False
  obtain z s' where run: "feedAll field x s = (z, s')" by (cases "feedAll field x s")
  have "automaton s' = automaton s" using feedAll_automaton [of field x s] run by simp
  then have "\<not> idle s'" using False by (simp add: idle_def)
  with False run show ?thesis by (cases z) (simp_all add: Feed_def feedAll_append bindP_def)
qed (simp add: Feed_def bindP_def)

definition fedWith :: "Automaton option \<Rightarrow> string \<Rightarrow> Scanner \<Rightarrow> string \<Rightarrow> bool" where
  "fedWith a field s t \<longleftrightarrow> Feed field t (NewScanner a) = (Inr (), s)"

definition harmlessFor :: "Automaton option \<Rightarrow> string \<Rightarrow> string \<Rightarrow> bool" where
  "harmlessFor a field t \<longleftrightarrow> scanPieces a field [t] = Inr ()"

lemma harmlessFor_run:
  "harmlessFor a field t \<longleftrightarrow> fst (bindP (Feed field t) (\<lambda>_. Finish field) (NewScanner a)) = Inr ()"
  by (simp add: harmlessFor_def scanPieces_concat)

interpretation engine: stream_scanner "NewScanner a" "Feed field" "Finish field" "fedWith a field" "harmlessFor a field"
  for a field
proof
  show "fedWith a field (NewScanner a) []" by (simp add: fedWith_def Feed_def)
  show "fedWith a field s' (t @ d)" if "fedWith a field s t" and "Feed field d s = (Inr (), s')" for s t d s'
    using that by (simp add: fedWith_def Feed_append bindP_def)
  show "\<not> harmlessFor a field (t @ d @ u)"
    if "fedWith a field s t" and "Feed field d s = (Inl e, s')" for s t d e s' u
  proof -
    have "Feed field (t @ d @ u) (NewScanner a) = (Inl e, s')"
      using that by (simp add: fedWith_def Feed_append bindP_def)
    then show ?thesis by (simp add: harmlessFor_run bindP_def)
  qed
  show "x = Inr () \<longleftrightarrow> harmlessFor a field t"
    if "fedWith a field s t" and "Finish field s = (x, s')" for s t x s'
    using that by (simp add: fedWith_def harmlessFor_run bindP_def)
qed

text \<open>What harmless means for the rules of a list of patterns.\<close>

lemma harmlessFor_patterns:
  assumes "rangeOrder rng" and "noBlankPattern patterns"
  shows "harmlessFor (NewPatterns rng patterns) field t
    \<longleftrightarrow> \<not> (\<exists>p \<in> set patterns. p \<noteq> [] \<and> sublist (Normalize p) (Normalize t))"
  using scan_detects [OF assms, of field "[t]"] by (auto simp: harmlessFor_def)

lemma harmlessFor_field: "NewPatterns rng patterns = Some a \<Longrightarrow> rangeOrder rng \<Longrightarrow> noBlankPattern patterns
    \<Longrightarrow> harmlessFor (Some a) field t \<longleftrightarrow> harmlessFor (Some a) field' t"
  using harmlessFor_patterns [of rng patterns] by simp

section \<open>No crash\<close>

definition sound :: "Automaton option \<Rightarrow> bool" where
  "sound a \<longleftrightarrow> (\<forall>field pieces. scanPieces a field pieces \<noteq> Inl Crash)"

definition live :: "Automaton \<Rightarrow> Scanner \<Rightarrow> bool" where
  "live a s \<longleftrightarrow> automaton s = Some a \<and> (\<exists>i < length (heap a). state s = Some i)"

definition keepsLive :: "Automaton \<Rightarrow> (Scanner, stop, unit) op \<Rightarrow> bool" where
  "keepsLive a m \<longleftrightarrow> (\<forall>s. live a s \<longrightarrow> fst (m s) \<noteq> Inl Crash \<and> live a (snd (m s)))"

lemma keepsLiveI:
  "(\<And>s. live a s \<Longrightarrow> fst (m s) \<noteq> Inl Crash) \<Longrightarrow> (\<And>s. live a s \<Longrightarrow> live a (snd (m s))) \<Longrightarrow> keepsLive a m"
  by (simp add: keepsLive_def)

lemma keepsLive_at:
  "keepsLive a m \<Longrightarrow> live a s \<Longrightarrow> fst (m s) \<noteq> Inl Crash \<and> live a (snd (m s))"
  by (simp add: keepsLive_def)

lemma bindP_live:
  assumes "fst (m s) \<noteq> Inl Crash \<and> live a (snd (m s))"
    and "\<And>t. live a t \<Longrightarrow> fst (k t) \<noteq> Inl Crash \<and> live a (snd (k t))"
  shows "fst (bindP m (\<lambda>_. k) s) \<noteq> Inl Crash \<and> live a (snd (bindP m (\<lambda>_. k) s))"
  using assms by (auto simp: bindP_def split: prod.splits sum.splits)

lemma keepsLive_bind: "keepsLive a m \<Longrightarrow> keepsLive a k \<Longrightarrow> keepsLive a (bindP m (\<lambda>_. k))"
  unfolding keepsLive_def by (intro allI impI bindP_live) auto

lemma feedNormalized_live:
  assumes b: "built a ps own"
  shows "keepsLive a (feedNormalized field c)"
  unfolding keepsLive_def
proof (intro allI impI)
  fix s assume "live a s"
  then obtain i where i: "automaton s = Some a" "state s = Some i" "i < length (heap a)" by (auto simp: live_def)
  obtain j where j: "j < length (heap a)" "followFail (heap a) (root a) (Some i) c = Some (Some j)"
    using followFail_lsuf [OF b i(3), of c] by (elim exE conjE) (rule that)
  have "n < length (heap a)" if "child (heap a) j c = Some n" for n
    using that trie_child [OF built_trie [OF b] j(1)] by simp
  with i j show "fst (feedNormalized field c s) \<noteq> Inl Crash \<and> live a (snd (feedNormalized field c s))"
    by (auto simp: feedNormalized_def live_def Let_def split: option.splits)
qed

lemma live_flags [simp]:
  "live a (s\<lparr>pendingSpace := x\<rparr>) = live a s" "live a (s\<lparr>pendingSlash := x\<rparr>) = live a s"
  "live a (s\<lparr>inBlockComment := x\<rparr>) = live a s" "live a (s\<lparr>pendingCommentStar := x\<rparr>) = live a s"
  by (simp_all add: live_def)

lemma flushSpace_live: "built a ps own \<Longrightarrow> keepsLive a (flushSpace field)"
  unfolding keepsLive_def flushSpace_def
  by (auto intro!: bindP_live dest!: feedNormalized_live [THEN keepsLive_at] simp: returnP_def)

lemma flushSlash_live: "built a ps own \<Longrightarrow> keepsLive a (flushSlash field)"
  unfolding keepsLive_def [of a "flushSlash field"] flushSlash_def
  by (intro allI impI bindP_live keepsLive_at [OF flushSpace_live] keepsLive_at [OF feedNormalized_live]) auto

lemma feedPlain_live: "built a ps own \<Longrightarrow> keepsLive a (feedPlain field raw)"
  unfolding keepsLive_def [of a "feedPlain field raw"] feedPlain_def
  using bindP_live [OF keepsLive_at [OF flushSpace_live] keepsLive_at [OF feedNormalized_live]] by auto

lemma feedRaw_live: "built a ps own \<Longrightarrow> keepsLive a (feedRaw field raw)"
  unfolding keepsLive_def [of a "feedRaw field raw"] feedRaw_def
  using bindP_live [OF keepsLive_at [OF flushSlash_live] keepsLive_at [OF feedPlain_live]]
    keepsLive_at [OF feedPlain_live] by auto

lemma feedAll_live: "built a ps own \<Longrightarrow> keepsLive a (feedAll field data)"
proof (induction data)
  case (Cons raw data)
  then have "keepsLive a (bindP (feedRaw field raw) (\<lambda>_. feedAll field data))"
    by (intro keepsLive_bind feedRaw_live) auto
  then show ?case by (simp add: keepsLive_def)
qed (simp add: keepsLive_def)

lemma Finish_live: "built a ps own \<Longrightarrow> keepsLive a (Finish field)"
  unfolding keepsLive_def [of a "Finish field"] Finish_def
  by (auto intro!: bindP_live simp: returnP_def dest!: flushSlash_live [THEN keepsLive_at])

lemma built_sound:
  assumes "built a ps own"
  shows "sound (Some a)"
  unfolding sound_def
proof (intro allI)
  fix field pieces
  from assms have r: "root a = Some 0" and t: "trie (heap a) ps" by (auto simp: built_def linkedOn_def)
  have l: "live a (NewScanner (Some a))" using r t by (simp add: live_def NewScanner_def trie_def)
  have "\<not> idle (NewScanner (Some a))" using r by (simp add: NewScanner_def idle_def)
  then show "scanPieces (Some a) field pieces \<noteq> Inl Crash"
    using keepsLive_at [OF keepsLive_bind [OF feedAll_live [OF assms] Finish_live [OF assms]] l, of field "concat pieces" field]
    by (simp add: scanPieces_concat Feed_def bindP_def)
qed

lemma NewRules_sound: "rangeOrder rng \<Longrightarrow> sound (NewRules rng rules) \<and> NewRules rng rules \<noteq> None"
proof -
  assume "rangeOrder rng"
  from NewRules_built [OF this, of rules] obtain a ps
    where "NewRules rng rules = Some a" "built a ps (ruleOf rules)" by (elim exE conjE) (rule that)
  with built_sound show ?thesis by simp
qed

lemma NewPatterns_sound: "rangeOrder rng \<Longrightarrow> sound (NewPatterns rng patterns) \<and> NewPatterns rng patterns \<noteq> None"
  unfolding NewPatterns_def by (rule NewRules_sound)

lemma sound_Feed:
  assumes "sound a" and "fedWith a field s t"
  shows "fst (Feed field d s) \<noteq> Inl Crash" and "fst (Finish field s) \<noteq> Inl Crash"
proof -
  have run: "scanPieces a field [t, d] \<noteq> Inl Crash" "scanPieces a field [t] \<noteq> Inl Crash"
    using assms(1) unfolding sound_def by blast+
  from run(2) assms(2) show "fst (Finish field s) \<noteq> Inl Crash"
    by (simp add: scanPieces_concat fedWith_def bindP_def)
  from run(1) assms(2) show "fst (Feed field d s) \<noteq> Inl Crash"
    by (auto simp: scanPieces_concat fedWith_def bindP_def Feed_append split: prod.splits sum.splits)
qed

end
