(* ===== verification/Http_Reading.thy ===== *)
theory Http_Reading
  imports Http_Parser Waf_Engine
begin

text \<open>
  How the operations of the parser use the reader: \<open>reads n m\<close> bounds the bytes an operation takes,
  \<open>transparent m\<close> says that its result does not depend on how the bytes were delivered. Both
  are closed under sequencing, so that the whole parser inherits them from its parts.
\<close>

section \<open>Bounded reading\<close>

definition reads :: "nat \<Rightarrow> (reader, 'e, 'a) op \<Rightarrow> bool" where
  "reads n m \<longleftrightarrow>
    (\<forall>r x r'. m r = (x, r') \<longrightarrow> final r' = final r \<and> together r' = together r
      \<and> (\<exists>c. pending r = c @ pending r' \<and> length c \<le> n))"

named_theorems reads_intros \<open>bounds of the operations\<close>

lemma reads_mono: "reads n m \<Longrightarrow> n \<le> k \<Longrightarrow> reads k m"
  unfolding reads_def using le_trans by blast

lemma readsD:
  assumes "reads n m" and "m r = (x, r')"
  obtains c where "pending r = c @ pending r'" and "length c \<le> n"
    and "final r' = final r" and "together r' = together r"
  using assms unfolding reads_def by blast

lemma reads_idle: "(\<And>r. snd (m r) = r) \<Longrightarrow> reads n m"
  unfolding reads_def by (metis append_Nil le0 list.size(3) snd_conv)

lemma reads_simple [reads_intros, simp, intro]:
  "reads n (returnP a)" "reads n (failP e)" "reads n (check y)"
  "reads n (checkField au field v)" "reads n (onScanner sm sc)"
  by (rule reads_idle; simp add: returnP_def failP_def check_def checkField_def onScanner_def
      split: sum.splits option.splits prod.splits)+

lemma reads_bind_strong:
  assumes m: "reads n m" and f: "\<And>r a r'. m r = (Inr a, r') \<Longrightarrow> reads k (f a)"
  shows "reads (n + k) (bindP m f)"
  unfolding reads_def
proof (intro allI impI)
  fix r x r' assume run: "bindP m f r = (x, r')"
  obtain y q where y: "m r = (y, q)" by (cases "m r")
  obtain c where c: "pending r = c @ pending q" "length c \<le> n" "final q = final r" "together q = together r"
    using readsD [OF m y] .
  show "final r' = final r \<and> together r' = together r \<and> (\<exists>c. pending r = c @ pending r' \<and> length c \<le> n + k)"
  proof (cases y)
    case (Inl e)
    with run y c show ?thesis by (auto simp: bindP_def)
  next
    case (Inr a)
    with run y have "f a q = (x, r')" by (simp add: bindP_def)
    from readsD [OF f this] Inr y obtain d
      where "pending q = d @ pending r'" "length d \<le> k" "final r' = final q" "together r' = together q" by metis
    with c have "pending r = (c @ d) @ pending r'" "length (c @ d) \<le> n + k" by auto
    with c \<open>final r' = final q\<close> \<open>together r' = together q\<close> show ?thesis by metis
  qed
qed

lemma reads_bind: "reads n m \<Longrightarrow> (\<And>a. reads k (f a)) \<Longrightarrow> reads (n + k) (bindP m f)"
  by (rule reads_bind_strong)

lemma reads_bind0: "reads n m \<Longrightarrow> (\<And>a. reads 0 (f a)) \<Longrightarrow> reads n (bindP m f)"
  using reads_bind [of n m 0 f] by simp

lemma reads_ReadByte: "reads 1 ReadByte"
  unfolding reads_def
proof (intro allI impI)
  fix r x r' assume run: "ReadByte r = (x, r')"
  show "final r' = final r \<and> together r' = together r \<and> (\<exists>c. pending r = c @ pending r' \<and> length c \<le> 1)"
    using ReadByte_final [OF run] ReadByte_spec [OF run]
    by (cases x) (auto intro: exI [of _ "[]"] exI [of _ "[b]" for b])
qed

section \<open>Lines\<close>

lemma reads_readLineLoop: "length line \<le> m \<Longrightarrow> reads (Suc m - length line) (readLineLoop m line)"
proof (induction "m - length line" arbitrary: line)
  case 0
  show ?case
    unfolding reads_def
  proof (intro allI impI)
    fix r x r' assume run: "readLineLoop m line r = (x, r')"
    obtain y q where y: "ReadByte r = (y, q)" by (cases "ReadByte r")
    with run 0 have "q = r'" by (auto simp: readLineLoop.simps [of m line] split: sum.splits)
    moreover have "Suc m - length line = 1" using 0 by simp
    ultimately show "final r' = final r \<and> together r' = together r \<and> (\<exists>c. pending r = c @ pending r' \<and> length c \<le> Suc m - length line)"
      using reads_ReadByte y unfolding reads_def by metis
  qed
next
  case (Suc k)
  let ?g = "\<lambda>b. if endsCRLF (line @ [b]) then returnP (take (length (line @ [b]) - 2) (line @ [b])) else readLineLoop m (line @ [b])"
  have less: "length line < m" using Suc by simp
  show ?case
    unfolding reads_def
  proof (intro allI impI)
    fix r x r' assume run: "readLineLoop m line r = (x, r')"
    obtain y q where y: "ReadByte r = (y, q)" by (cases "ReadByte r")
    obtain c where c: "pending r = c @ pending q" "length c \<le> 1" "final q = final r" "together q = together r"
      using readsD [OF reads_ReadByte y] .
    show "final r' = final r \<and> together r' = together r \<and> (\<exists>c. pending r = c @ pending r' \<and> length c \<le> Suc m - length line)"
    proof (cases y)
      case (Inl e)
      with run y c less show ?thesis by (auto simp: readLineLoop.simps [of m line] intro: le_trans)
    next
      case (Inr b)
      with run y less have "?g b q = (x, r')" by (cases "endsCRLF (line @ [b])") (simp_all add: readLineLoop.simps [of m line] returnP_def Let_def)
      moreover have "reads (Suc m - length (line @ [b])) (?g b)"
        using Suc.hyps(1) [of "line @ [b]"] Suc.hyps(2) less by simp
      ultimately obtain d where d: "pending q = d @ pending r'" "length d \<le> Suc m - length (line @ [b])"
        "final r' = final q" "together r' = together q" by (meson readsD)
      with c have "pending r = (c @ d) @ pending r'" "length (c @ d) \<le> Suc m - length line" using less by auto
      with c d show ?thesis by metis
    qed
  qed
qed

lemma reads_readLineLimited [reads_intros]: "reads (Suc m) (readLineLimited m)"
  using reads_readLineLoop [of "[]" m] by (simp add: readLineLimited_def)

lemma reads_case_parts:
  "(\<And>a b c. ps = [a, b, c] \<Longrightarrow> reads n (f a b c)) \<Longrightarrow> reads n (case ps of [a, b, c] \<Rightarrow> f a b c | _ \<Rightarrow> failP e)"
  by (auto split: list.splits)

lemma reads_readRequestLine [reads_intros]: "reads 4097 (readRequestLine a)"
proof -
  have "reads (Suc maxRequestLineBytes) (readRequestLine a)"
    unfolding readRequestLine_def
    by (intro reads_bind0 reads_readLineLimited reads_case_parts) (auto intro: reads_bind0)
  then show ?thesis by (simp add: maxRequestLineBytes_def)
qed

lemma reads_readHeaderLine [reads_intros]: "reads 8193 (readHeaderLine a)"
proof -
  have "reads (Suc maxHeaderLineBytes) (readHeaderLine a)"
    unfolding readHeaderLine_def
    by (intro reads_bind0 reads_readLineLimited) (auto intro: reads_bind0 split: prod.splits simp: Let_def)
  then show ?thesis by (simp add: maxHeaderLineBytes_def)
qed

section \<open>Blocks of fields\<close>

text \<open>
  The header block and the trailer block are read by the same loop: at most so many lines, some
  names refused, a map collected.
\<close>

primrec fieldBlock :: "error \<Rightarrow> (string \<Rightarrow> string list \<Rightarrow> error option) \<Rightarrow> Automaton option \<Rightarrow> nat
    \<Rightarrow> string list \<Rightarrow> (string \<rightharpoonup> string) \<Rightarrow> (reader, error, string \<rightharpoonup> string) op" where
  "fieldBlock over refuse a 0 = (\<lambda>seen fs. failP over)"
| "fieldBlock over refuse a (Suc k) = (\<lambda>seen fs.
    bindP (readHeaderLine a)
      (\<lambda>h. case h of
         None \<Rightarrow> returnP fs
       | Some (name, v) \<Rightarrow>
          (case refuse name seen of
             Some e \<Rightarrow> failP e
           | None \<Rightarrow> fieldBlock over refuse a k (name # seen) (fs(name \<mapsto> v)))))"

definition refuseHeader :: "string \<Rightarrow> string list \<Rightarrow> error option" where
  "refuseHeader name seen = (if name \<in> set seen then Some (DuplicateHeader name) else None)"

definition refuseTrailer :: "string \<Rightarrow> string list \<Rightarrow> error option" where
  "refuseTrailer name seen =
    (if isForbiddenTrailer name then Some (ForbiddenTrailer name)
     else if name \<in> set seen then Some (DuplicateTrailer name) else None)"

lemma bindP_ext: "(\<And>a s. f a s = g a s) \<Longrightarrow> bindP m f s = bindP m g s"
  by (simp add: bindP_def split: prod.splits sum.splits)

lemma readHeadersLoop_block:
  "readHeadersLoop a i seen headers = fieldBlock TooManyHeaders refuseHeader a (maxHeaderCount - i) seen headers"
proof (induction "maxHeaderCount - i" arbitrary: i seen headers)
  case 0
  then show ?case by (intro ext) (simp add: readHeadersLoop.simps failP_def)
next
  case (Suc k)
  have more: "maxHeaderCount - i = Suc (maxHeaderCount - (i + 1))" "\<not> maxHeaderCount \<le> i" using Suc(2) by simp_all
  show ?case
  proof (intro ext)
    fix r
    have "readHeadersLoop a (i + 1) s h = fieldBlock TooManyHeaders refuseHeader a (maxHeaderCount - (i + 1)) s h" for s h
      using Suc(2) by (intro Suc(1)) simp
    then show "readHeadersLoop a i seen headers r = fieldBlock TooManyHeaders refuseHeader a (maxHeaderCount - i) seen headers r"
      unfolding more(1) fieldBlock.simps readHeadersLoop.simps [of a i] if_not_P [OF more(2)]
      by (intro bindP_ext) (auto simp: refuseHeader_def returnP_def failP_def split: option.splits)
  qed
qed

lemma readTrailersLoop_block:
  "readTrailersLoop a i seen trailers = fieldBlock TooManyTrailers refuseTrailer a (maxTrailerCount - i) seen trailers"
proof (induction "maxTrailerCount - i" arbitrary: i seen trailers)
  case 0
  then show ?case by (intro ext) (simp add: readTrailersLoop.simps failP_def)
next
  case (Suc k)
  have more: "maxTrailerCount - i = Suc (maxTrailerCount - (i + 1))" "\<not> maxTrailerCount \<le> i" using Suc(2) by simp_all
  show ?case
  proof (intro ext)
    fix r
    have "readTrailersLoop a (i + 1) s h = fieldBlock TooManyTrailers refuseTrailer a (maxTrailerCount - (i + 1)) s h" for s h
      using Suc(2) by (intro Suc(1)) simp
    then show "readTrailersLoop a i seen trailers r = fieldBlock TooManyTrailers refuseTrailer a (maxTrailerCount - i) seen trailers r"
      unfolding more(1) fieldBlock.simps readTrailersLoop.simps [of a i] if_not_P [OF more(2)]
      by (intro bindP_ext) (auto simp: refuseTrailer_def returnP_def failP_def split: option.splits)
  qed
qed

lemma readHeaders_block: "readHeadersLoop a 0 [] Map.empty = fieldBlock TooManyHeaders refuseHeader a 64 [] Map.empty"
  using readHeadersLoop_block [of a 0] by (simp add: maxHeaderCount_def)

lemma readTrailers_block: "readTrailers a = fieldBlock TooManyTrailers refuseTrailer a 16 [] Map.empty"
  using readTrailersLoop_block [of a 0] by (simp add: maxTrailerCount_def readTrailers_def)

lemma reads_fieldBlock [reads_intros]: "reads (k * 8193) (fieldBlock over refuse a k seen fs)"
proof (induction k arbitrary: seen fs)
  case (Suc k)
  have "reads (8193 + k * 8193) (fieldBlock over refuse a (Suc k) seen fs)"
    unfolding fieldBlock.simps using Suc by (intro reads_bind reads_readHeaderLine) (auto split: option.split)
  then show ?case by simp
qed auto

section \<open>Bodies\<close>

text \<open>What feeding a scanner that may be nil returns; the reader does not matter.\<close>

definition feedOpt :: "Scanner option \<Rightarrow> string \<Rightarrow> error + Scanner option" where
  "feedOpt sc d =
    (case sc of
       None \<Rightarrow> Inr None
     | Some s \<Rightarrow> (case Feed ''body'' d s of (Inl st, _) \<Rightarrow> Inl (report st) | (Inr _, s') \<Rightarrow> Inr (Some s')))"

lemma onScanner_Feed: "onScanner (Feed ''body'' d) sc r = (feedOpt sc d, r)"
  by (simp add: onScanner_def feedOpt_def split: option.split prod.split sum.split)

lemma feedOpt_Nil [simp]: "feedOpt sc [] = Inr sc"
  by (simp add: feedOpt_def Feed_def split: option.split)

lemma feedOpt_append: "feedOpt sc (x @ y) = (case feedOpt sc x of Inl e \<Rightarrow> Inl e | Inr sc' \<Rightarrow> feedOpt sc' y)"
  by (auto simp: feedOpt_def Feed_append bindP_def split: option.split prod.split sum.split)

text \<open>
  An error that comes together with the last bytes is the end of the stream, which the parser
  tolerates; other errors come alone.
\<close>

definition clean :: "reader \<Rightarrow> bool" where
  "clean r \<longleftrightarrow> (together r \<longrightarrow> final r = EOF)"

definition bodyOutcome :: "nat \<Rightarrow> Scanner option \<Rightarrow> string \<Rightarrow> ioError \<Rightarrow> string \<Rightarrow> error + Scanner option \<times> string" where
  "bodyOutcome n sc body e p =
    (case feedOpt sc (take n p) of
       Inl err \<Rightarrow> Inl err
     | Inr sc' \<Rightarrow>
        if n \<le> length p then Inr (sc', body @ take n p)
        else Inl (if e = EOF then IncompleteBody EOF else IOError e))"

lemma readBodyLoop_step:
  assumes "\<not> n \<le> length body" and "Read (n - length body) r = ((data, err), q)"
  shows "readBodyLoop n sc body r =
    (case feedOpt sc data of
       Inl e \<Rightarrow> (Inl e, q)
     | Inr sc1 \<Rightarrow>
        (case err of
           None \<Rightarrow> readBodyLoop n sc1 (body @ data) q
         | Some e \<Rightarrow>
            if e = EOF \<and> length (body @ data) = n then (Inr (sc1, body @ data), q)
            else if e = EOF then (Inl (IncompleteBody e), q)
            else (Inl (IOError e), q)))"
  using assms
  by (cases "data = []") (simp_all add: readBodyLoop.simps [of n sc body r] onScanner_Feed Let_def split: sum.split option.split)

lemma readBodyLoop_frame:
  "readBodyLoop n sc body r = (x, r') \<Longrightarrow>
   final r' = final r \<and> together r' = together r
   \<and> (\<exists>c. pending r = c @ pending r' \<and> length c \<le> n - length body
          \<and> (\<forall>sc' b. x = Inr (sc', b) \<longrightarrow> b = body @ c \<and> feedOpt sc c = Inr sc' \<and> n \<le> length b))"
proof (induction "n - length body" arbitrary: sc body r rule: less_induct)
  case less
  show ?case
  proof (cases "n \<le> length body")
    case True
    with less.prems show ?thesis by (auto simp: readBodyLoop.simps)
  next
    case False
    obtain data err q where rd: "Read (n - length body) r = ((data, err), q)" by (metis surj_pair)
    have pos: "0 < n - length body" using False by simp
    note spec = Read_spec [OF rd pos] and keep = Read_final [OF rd]
    note step = readBodyLoop_step [OF False rd, of sc]
    show ?thesis
    proof (cases "\<exists>sc1. feedOpt sc data = Inr sc1 \<and> err = None")
      case True
      then obtain sc1 where sc1: "feedOpt sc data = Inr sc1" and "err = None" by blast
      with step less.prems have run: "readBodyLoop n sc1 (body @ data) q = (x, r')" by simp
      have "data \<noteq> []" using spec \<open>err = None\<close> by auto
      then have "n - length (body @ data) < n - length body" using pos by (cases data) auto
      from less.hyps [OF this run] obtain c where
        c: "final r' = final q" "together r' = together q" "pending q = c @ pending r'" "length c \<le> n - length (body @ data)"
        "\<forall>sc' b. x = Inr (sc', b) \<longrightarrow> b = (body @ data) @ c \<and> feedOpt sc1 c = Inr sc' \<and> n \<le> length b" by blast
      have "pending r = (data @ c) @ pending r'" "length (data @ c) \<le> n - length body"
        using spec c(3,4) by auto
      moreover have "\<forall>sc' b. x = Inr (sc', b) \<longrightarrow> b = body @ data @ c \<and> feedOpt sc (data @ c) = Inr sc' \<and> n \<le> length b"
        using c(5) sc1 by (simp add: feedOpt_append)
      ultimately show ?thesis using c(1,2) keep by metis
    next
      case False
      with step less.prems have "q = r'" and "\<forall>sc' b. x = Inr (sc', b) \<longrightarrow> b = body @ data \<and> feedOpt sc data = Inr sc' \<and> n = length b"
        by (auto split: sum.splits option.splits if_splits)
      with spec keep show ?thesis by auto
    qed
  qed
qed

lemma reads_readBodyLoop: "reads (n - length body) (readBodyLoop n sc body)"
  unfolding reads_def using readBodyLoop_frame by blast

lemma reads_readBody [reads_intros]: "reads n (readBody a n)"
  using reads_readBodyLoop [of n "[]"] by (auto simp: readBody_def intro!: reads_bind0)

section \<open>Chunks\<close>

lemma reads_readCRLF [reads_intros]: "reads 2 readCRLF"
proof -
  have "reads (1 + 1) readCRLF"
    unfolding reads_def
  proof (intro allI impI)
    fix r x r' assume run: "readCRLF r = (x, r')"
    obtain y q where y: "ReadByte r = (y, q)" by (cases "ReadByte r")
    obtain z u where z: "ReadByte q = (z, u)" by (cases "ReadByte q")
    obtain c where c: "pending r = c @ pending q" "length c \<le> 1" "final q = final r" "together q = together r"
      using readsD [OF reads_ReadByte y] .
    obtain d where d: "pending q = d @ pending u" "length d \<le> 1" "final u = final q" "together u = together q"
      using readsD [OF reads_ReadByte z] .
    have cd: "pending r = (c @ d) @ pending u" "length (c @ d) \<le> 1 + 1" "length c \<le> 1 + 1" using c d by auto
    have "r' = q \<or> r' = u" using run y z by (auto simp: readCRLF_def split: sum.splits if_splits)
    then show "final r' = final r \<and> together r' = together r \<and> (\<exists>c. pending r = c @ pending r' \<and> length c \<le> 1 + 1)"
      using c d cd by metis
  qed
  then show ?thesis by (simp add: numeral_2_eq_2)
qed

text \<open>The data of one chunk with its terminator: the fed scanner and the data.\<close>

definition readChunk :: "Scanner option \<Rightarrow> nat \<Rightarrow> (reader, error, Scanner option \<times> string) op" where
  "readChunk sc n r =
    (case ReadFull n r of
       (Inl e, r2) \<Rightarrow> (Inl (IncompleteChunk e), r2)
     | (Inr data, r2) \<Rightarrow>
        (case feedOpt sc data of
           Inl e \<Rightarrow> (Inl e, r2)
         | Inr sc' \<Rightarrow> bindP readCRLF (\<lambda>_. returnP (sc', data)) r2))"

lemma readChunk_Inr:
  assumes "readChunk sc n r = (Inr (sc', data), r')"
  shows "length data = n \<and> feedOpt sc data = Inr sc'"
proof -
  obtain y q where y: "ReadFull n r = (y, q)" by (cases "ReadFull n r")
  have "y = Inr data" and "feedOpt sc data = Inr sc'"
    using assms y by (auto simp: readChunk_def bindP_def returnP_def split: sum.splits prod.splits)
  with ReadFull_spec [OF y] show ?thesis by (auto split: if_splits)
qed

lemma reads_readChunk [reads_intros]: "reads (n + 2) (readChunk sc n)"
  unfolding reads_def
proof (intro allI impI)
  fix r x r' assume run: "readChunk sc n r = (x, r')"
  obtain y q where y: "ReadFull n r = (y, q)" by (cases "ReadFull n r")
  note spec = ReadFull_spec [OF y]
  have c: "pending r = take n (pending r) @ pending q" "length (take n (pending r)) \<le> n"
    using spec by (auto split: if_splits)
  have "r' = q \<or> (\<exists>z. readCRLF q = (z, r'))"
    using run y by (auto simp: readChunk_def bindP_def returnP_def split: sum.splits prod.splits)
  then show "final r' = final r \<and> together r' = together r \<and> (\<exists>c. pending r = c @ pending r' \<and> length c \<le> n + 2)"
  proof
    assume "r' = q"
    with spec c show ?thesis by (metis trans_le_add1)
  next
    assume "\<exists>z. readCRLF q = (z, r')"
    then obtain z where "readCRLF q = (z, r')" ..
    from readsD [OF reads_readCRLF this] obtain d where
      d: "pending q = d @ pending r'" "length d \<le> 2" "final r' = final q" "together r' = together q" .
    then have "pending r = (take n (pending r) @ d) @ pending r'" "length (take n (pending r) @ d) \<le> n + 2"
      using c by (metis append.assoc, auto)
    with d spec show ?thesis by metis
  qed
qed

definition finishBody :: "Automaton option \<Rightarrow> Scanner option \<Rightarrow> string \<Rightarrow> (reader, error, string \<times> (string \<rightharpoonup> string)) op" where
  "finishBody a sc body =
    bindP (onScanner (Finish ''body'') sc) (\<lambda>_. bindP (readTrailers a) (\<lambda>trailers. returnP (body, trailers)))"

text \<open>The chunk loop, one round.\<close>

lemma readChunkedLoop_step:
  "readChunkedLoop a sc body =
    bindP (readLineLimited maxHeaderLineBytes)
      (\<lambda>sizeLine. case parseChunkSize sizeLine of
          Inl e \<Rightarrow> failP e
        | Inr n \<Rightarrow>
           if n = 0 then finishBody a sc body
           else if length body + n > maxBodyBytes then failP BodyTooLarge
           else bindP (readChunk sc n) (\<lambda>(sc', data). readChunkedLoop a sc' (body @ data)))"
proof (intro ext)
  fix r
  show "readChunkedLoop a sc body r =
    bindP (readLineLimited maxHeaderLineBytes)
      (\<lambda>sizeLine. case parseChunkSize sizeLine of
          Inl e \<Rightarrow> failP e
        | Inr n \<Rightarrow>
           if n = 0 then finishBody a sc body
           else if length body + n > maxBodyBytes then failP BodyTooLarge
           else bindP (readChunk sc n) (\<lambda>(sc', data). readChunkedLoop a sc' (body @ data))) r"
    unfolding readChunkedLoop.simps [of a sc body r]
    by (intro bindP_ext)
      (auto simp: readChunk_def finishBody_def failP_def returnP_def onScanner_Feed bindP_def split: sum.split prod.split)
qed

lemma readChunkedLoop_induct:
  fixes body :: string
  assumes "\<And>sc (body :: string). (\<And>sc' d. d \<noteq> [] \<Longrightarrow> length body + length d \<le> maxBodyBytes \<Longrightarrow> P sc' (body @ d)) \<Longrightarrow> P sc body"
  shows "P sc body"
proof (induction "maxBodyBytes - length body" arbitrary: sc body rule: less_induct)
  case less
  show ?case
  proof (rule assms)
    fix sc' and d :: string assume d: "d \<noteq> []" "length body + length d \<le> maxBodyBytes"
    then have "0 < length d" by simp
    with d(2) have "maxBodyBytes - length (body @ d) < maxBodyBytes - length body"
      unfolding length_append by linarith
    then show "P sc' (body @ d)" by (rule less)
  qed
qed

lemma reads_finishBody: "reads (16 * 8193) (finishBody a sc body)"
proof -
  have "reads (0 + 16 * 8193) (finishBody a sc body)"
    unfolding finishBody_def readTrailers_block
    by (rule reads_bind reads_bind0 reads_fieldBlock reads_simple)+
  then show ?thesis by simp
qed

lemma reads_readChunkedLoop:
  "reads ((maxBodyBytes - length body) * 8196 + 17 * 8193) (readChunkedLoop a sc body)"
proof (induction sc body rule: readChunkedLoop_induct)
  case (1 sc body)
  let ?rest = "(maxBodyBytes - length body) * 8196 + 16 * 8193"
  have "reads (Suc maxHeaderLineBytes + ?rest) (readChunkedLoop a sc body)"
    unfolding readChunkedLoop_step [of a sc body]
  proof (rule reads_bind [OF reads_readLineLimited])
    fix sizeLine
    have chunk: "reads ?rest (bindP (readChunk sc n) (\<lambda>(sc', data). readChunkedLoop a sc' (body @ data)))"
      if n: "n \<noteq> 0" "length body + n \<le> maxBodyBytes" for n
    proof -
      let ?left = "(maxBodyBytes - (length body + n)) * 8196 + 17 * 8193"
      have "reads (n + 2 + ?left) (bindP (readChunk sc n) (\<lambda>(sc', data). readChunkedLoop a sc' (body @ data)))"
      proof (rule reads_bind_strong [OF reads_readChunk])
        fix r y r' assume "readChunk sc n r = (Inr y, r')"
        then obtain sc' data where y: "y = (sc', data)" and "length data = n" using readChunk_Inr by (cases y) auto
        then have "reads ((maxBodyBytes - length (body @ data)) * 8196 + 17 * 8193) (readChunkedLoop a sc' (body @ data))"
          using n by (intro 1) auto
        with y \<open>length data = n\<close>
        show "reads ?left (case y of (sc', data) \<Rightarrow> readChunkedLoop a sc' (body @ data))" by simp
      qed
      moreover have "n + 2 + ?left \<le> ?rest"
      proof -
        obtain k where "maxBodyBytes = length body + n + k" using n(2) le_Suc_ex by blast
        with n(1) show ?thesis by simp
      qed
      ultimately show ?thesis by (rule reads_mono)
    qed
    have "reads ?rest (finishBody a sc body)" using reads_finishBody by (rule reads_mono) simp
    with chunk show "reads ?rest (case parseChunkSize sizeLine of Inl e \<Rightarrow> failP e
        | Inr n \<Rightarrow>
           if n = 0 then finishBody a sc body
           else if length body + n > maxBodyBytes then failP BodyTooLarge
           else bindP (readChunk sc n) (\<lambda>(sc', data). readChunkedLoop a sc' (body @ data)))"
      by (auto split: sum.split)
  qed
  then show ?case by (simp add: maxHeaderLineBytes_def algebra_simps)
qed

section \<open>The whole message\<close>

definition maxMessageBytes :: nat where
  "maxMessageBytes = 4097 + 64 * 8193 + (2 ^ 20 * 8196 + 17 * 8193)"

lemma contentLength_le: "contentLength headers = Inr len \<Longrightarrow> len \<le> 2 ^ 20"
  by (auto simp: contentLength_def maxBodyBytes_def split: option.splits if_splits)

lemma reads_readPayload: "len \<le> 2 ^ 20 \<Longrightarrow> reads (2 ^ 20 * 8196 + 17 * 8193) (readPayload a headers len)"
proof -
  assume "len \<le> 2 ^ 20"
  then have "reads (2 ^ 20 * 8196 + 17 * 8193) (readBody a len)"
    by (intro reads_mono [OF reads_readBody]) simp
  with reads_readChunkedLoop [of "[]" a "newScanner a"] show ?thesis
    by (auto simp: readPayload_def readChunkedBody_def maxBodyBytes_def intro: reads_bind0)
qed

lemma reads_parseMessage: "reads maxMessageBytes (parseMessage a)"
proof -
  define p :: nat where "p = 2 ^ 20 * 8196 + 17 * 8193"
  have payload: "reads (0 + (0 + (0 + (p + 0)))) (bindP (check (checkEncoding headers)) (\<lambda>_.
       bindP (check (checkHost headers)) (\<lambda>_.
       bindP (check (contentLength headers)) (\<lambda>len.
       bindP (readPayload a headers len) (\<lambda>(body, trailers).
         returnP \<lparr>rMethod = meth, rPath = path, rVersion = version, rHeaders = headers,
                  rTrailers = trailers, rBody = body\<rparr>)))))" for headers meth path version
  proof (rule reads_bind [OF reads_simple(3)], rule reads_bind [OF reads_simple(3)], rule reads_bind_strong [OF reads_simple(3)])
    fix r len r' assume "check (contentLength headers) r = (Inr len, r')"
    then have "contentLength headers = Inr len" by (simp add: check_def)
    then have "len \<le> 2 ^ 20" by (rule contentLength_le)
    then show "reads (p + 0) (bindP (readPayload a headers len) (\<lambda>(body, trailers).
         returnP \<lparr>rMethod = meth, rPath = path, rVersion = version, rHeaders = headers,
                  rTrailers = trailers, rBody = body\<rparr>))"
      by (intro reads_bind reads_readPayload [folded p_def]) (auto split: prod.splits)
  qed
  have headers: "reads (64 * 8193 + p) (bindP (readHeadersLoop a 0 [] Map.empty) k)"
    if "\<And>h. reads p (k h)" for k :: "_ \<Rightarrow> (reader, error, Request) op"
    unfolding readHeaders_block by (rule reads_bind [OF reads_fieldBlock that])
  have "reads (4097 + (64 * 8193 + p)) (parseMessage a)"
    unfolding parseMessage_def
    using payload by (intro reads_bind [OF reads_readRequestLine]) (auto simp only: add_0 add_0_right
        intro!: headers reads_simple split: prod.split if_split)
  then show ?thesis by (simp add: maxMessageBytes_def p_def)
qed

section \<open>Independence of the delivery\<close>

definition transparent :: "(reader, 'e, 'a) op \<Rightarrow> bool" where
  "transparent m \<longleftrightarrow>
    (\<forall>r q x r' y q'. clean r \<longrightarrow> clean q \<longrightarrow> pending r = pending q \<longrightarrow> final r = final q
      \<longrightarrow> m r = (x, r') \<longrightarrow> m q = (y, q') \<longrightarrow> x = y \<and> (isl x \<or> pending r' = pending q'))
    \<and> (\<forall>r x r'. m r = (x, r') \<longrightarrow> final r' = final r \<and> together r' = together r)"

named_theorems transparent_intros \<open>operations that do not depend on the delivery\<close>

lemma transparentI:
  assumes "\<And>r q x r' y q'. clean r \<Longrightarrow> clean q \<Longrightarrow> pending r = pending q \<Longrightarrow> final r = final q
      \<Longrightarrow> m r = (x, r') \<Longrightarrow> m q = (y, q') \<Longrightarrow> x = y \<and> (isl x \<or> pending r' = pending q')"
    and "reads n m"
  shows "transparent m"
  unfolding transparent_def
proof (intro conjI allI impI)
  show "final r' = final r" and "together r' = together r" if "m r = (x, r')" for r x r'
    using readsD [OF assms(2) that] by auto
qed (use assms(1) in blast)+

lemma transparentD:
  assumes "transparent m" and "clean r" "clean q" "pending r = pending q" "final r = final q"
    and "m r = (x, r')" "m q = (y, q')"
  shows "x = y \<and> (isl x \<or> pending r' = pending q') \<and> clean r' \<and> clean q' \<and> final r' = final q'"
proof -
  from assms(1) have same: "\<And>r q x r' y q'. clean r \<Longrightarrow> clean q \<Longrightarrow> pending r = pending q \<Longrightarrow> final r = final q
      \<Longrightarrow> m r = (x, r') \<Longrightarrow> m q = (y, q') \<Longrightarrow> x = y \<and> (isl x \<or> pending r' = pending q')"
    and keep: "\<And>r x r'. m r = (x, r') \<Longrightarrow> final r' = final r \<and> together r' = together r"
    unfolding transparent_def by blast+
  show ?thesis
    using same [OF assms(2-7)] keep [OF assms(6)] keep [OF assms(7)] assms(2,3,5) by (auto simp: clean_def)
qed

lemma transparent_idle: "(\<And>r. snd (m r) = r) \<Longrightarrow> (\<And>r q. fst (m r) = fst (m q)) \<Longrightarrow> transparent m"
  unfolding transparent_def by (metis fst_conv snd_conv)

lemma transparent_simple [transparent_intros]:
  "transparent (returnP a)" "transparent (failP e)" "transparent (check y)"
  "transparent (checkField au field v)" "transparent (onScanner sm sc)"
  by (rule transparent_idle; simp add: returnP_def failP_def check_def checkField_def onScanner_def
      split: sum.splits option.splits prod.splits)+

lemma transparent_bind_strong:
  assumes m: "transparent m" and f: "\<And>r a r'. m r = (Inr a, r') \<Longrightarrow> transparent (f a)"
  shows "transparent (bindP m f)"
  unfolding transparent_def
proof (rule conjI; intro allI impI)
  fix r q x r' y q'
  assume c: "clean r" "clean q" "pending r = pending q" "final r = final q"
    and run: "bindP m f r = (x, r')" "bindP m f q = (y, q')"
  obtain u r1 where u: "m r = (u, r1)" by (cases "m r")
  obtain v q1 where v: "m q = (v, q1)" by (cases "m q")
  note same = transparentD [OF m c u v]
  show "x = y \<and> (isl x \<or> pending r' = pending q')"
  proof (cases u)
    case (Inl e)
    with run u v same show ?thesis by (auto simp: bindP_def)
  next
    case (Inr b)
    with run u v same have "f b r1 = (x, r')" "f b q1 = (y, q')" by (auto simp: bindP_def)
    moreover have "clean r1" "clean q1" "pending r1 = pending q1" "final r1 = final q1"
      using same Inr by auto
    moreover have "transparent (f b)" using f u Inr by blast
    ultimately show ?thesis using transparentD by blast
  qed
next
  fix r x r' assume run: "bindP m f r = (x, r')"
  obtain u r1 where u: "m r = (u, r1)" by (cases "m r")
  have keep: "final r1 = final r \<and> together r1 = together r" using m u unfolding transparent_def by blast
  have "\<And>b. u = Inr b \<Longrightarrow> f b r1 = (x, r') \<Longrightarrow> final r' = final r1 \<and> together r' = together r1"
    using f u unfolding transparent_def by blast
  with run u keep show "final r' = final r \<and> together r' = together r"
    by (auto simp: bindP_def split: sum.splits)
qed

lemma transparent_bind [transparent_intros]:
  "transparent m \<Longrightarrow> (\<And>a. transparent (f a)) \<Longrightarrow> transparent (bindP m f)"
  by (rule transparent_bind_strong)

lemma transparent_readLineLoop: "transparent (readLineLoop m line)"
proof (induction "Suc m - length line" arbitrary: line rule: less_induct)
  case less
  show ?case
  proof (rule transparentI)
    fix r q x r' y q'
    assume c: "clean r" "clean q" "pending r = pending q" "final r = final q"
      and run: "readLineLoop m line r = (x, r')" "readLineLoop m line q = (y, q')"
    obtain u r1 where u: "ReadByte r = (u, r1)" by (cases "ReadByte r")
    obtain v q1 where v: "ReadByte q = (v, q1)" by (cases "ReadByte q")
    have same: "u = v" "pending r1 = pending q1" "final r1 = final q1"
      using bufio.readByte_same [OF c(3,4) u v] by auto
    have keep: "clean r1" "clean q1" using ReadByte_final [OF u] ReadByte_final [OF v] c by (auto simp: clean_def)
    show "x = y \<and> (isl x \<or> pending r' = pending q')"
    proof (cases "\<exists>b. u = Inr b \<and> length line < m \<and> \<not> endsCRLF (line @ [b])")
      case True
      then obtain b where b: "u = Inr b" "length line < m" "\<not> endsCRLF (line @ [b])" by blast
      then have "readLineLoop m (line @ [b]) r1 = (x, r')" "readLineLoop m (line @ [b]) q1 = (y, q')"
        using run u v same(1) by (simp_all add: readLineLoop.simps [of m line])
      moreover have "transparent (readLineLoop m (line @ [b]))" using b(2) by (intro less) simp
      ultimately show ?thesis using transparentD keep same by blast
    next
      case False
      with run u v same show ?thesis
        by (auto simp: readLineLoop.simps [of m line] Let_def split: sum.splits if_splits)
    qed
  next
    show "reads (Suc m + 1) (readLineLoop m line)"
    proof (cases "length line \<le> m")
      case True
      from reads_readLineLoop [OF this] show ?thesis by (rule reads_mono) simp
    next
      case False
      have "snd (readLineLoop m line r) = snd (ReadByte r)" for r
        using False by (auto simp: readLineLoop.simps [of m line] split: sum.splits prod.splits)
      then have "reads 1 (readLineLoop m line)"
        using reads_ReadByte unfolding reads_def by (metis prod.collapse snd_conv)
      then show ?thesis by (rule reads_mono) simp
    qed
  qed
qed

lemma transparent_readLineLimited [transparent_intros]: "transparent (readLineLimited m)"
  by (simp add: readLineLimited_def transparent_readLineLoop)

lemma transparent_readRequestLine [transparent_intros]: "transparent (readRequestLine a)"
  unfolding readRequestLine_def
  by (rule transparent_intros)+ (auto intro!: transparent_intros split: list.splits)

lemma transparent_readHeaderLine [transparent_intros]: "transparent (readHeaderLine a)"
  unfolding readHeaderLine_def
  by (rule transparent_intros)+ (auto intro!: transparent_intros simp: Let_def split: prod.splits)

lemma transparent_fieldBlock [transparent_intros]: "transparent (fieldBlock over refuse a k seen fs)"
  by (induction k arbitrary: seen fs) (auto intro!: transparent_intros split: option.splits)

lemma readBodyLoop_outcome:
  assumes "clean r" and "length body \<le> n" and "readBodyLoop n sc body r = (x, r')"
  shows "x = bodyOutcome (n - length body) sc body (final r) (pending r)
    \<and> (isl x \<or> pending r' = drop (n - length body) (pending r))"
  using assms
proof (induction "n - length body" arbitrary: sc body r rule: less_induct)
  case less
  show ?case
  proof (cases "n \<le> length body")
    case True
    with less.prems show ?thesis by (simp add: readBodyLoop.simps bodyOutcome_def)
  next
    case False
    obtain data err q where rd: "Read (n - length body) r = ((data, err), q)" by (metis surj_pair)
    have pos: "0 < n - length body" using False by simp
    note spec = Read_spec [OF rd pos] and keep = Read_final [OF rd]
    note step = readBodyLoop_step [OF False rd, of sc]
    have data: "take (n - length body) (pending r) = data @ take (n - length (body @ data)) (pending q)"
      using spec by (auto simp: diff_diff_left)
    show ?thesis
    proof (cases "feedOpt sc data")
      case (Inl e)
      then have "feedOpt sc (take (n - length body) (pending r)) = Inl e" unfolding data by (simp add: feedOpt_append)
      with step Inl less.prems(3) show ?thesis by (simp add: bodyOutcome_def)
    next
      case sc1: (Inr sc1)
      show ?thesis
      proof (cases err)
        case None
        with step sc1 less.prems have run: "readBodyLoop n sc1 (body @ data) q = (x, r')" by simp
        have "data \<noteq> []" using spec None by auto
        then have small: "n - length (body @ data) < n - length body" using pos by (cases data) auto
        have "clean q" using less.prems(1) keep by (simp add: clean_def)
        moreover have len: "length (body @ data) \<le> n" using spec less.prems(2) by auto
        ultimately have "x = bodyOutcome (n - length (body @ data)) sc1 (body @ data) (final q) (pending q)
            \<and> (isl x \<or> pending r' = drop (n - length (body @ data)) (pending q))"
          using less.hyps [OF small _ _ run] by blast
        moreover have "bodyOutcome (n - length (body @ data)) sc1 (body @ data) (final q) (pending q)
            = bodyOutcome (n - length body) sc body (final r) (pending r)"
          unfolding bodyOutcome_def data feedOpt_append using sc1 spec keep len by (auto split: sum.split)
        moreover have "drop (n - length (body @ data)) (pending q) = drop (n - length body) (pending r)"
          using spec by (auto simp: diff_diff_left)
        ultimately show ?thesis by metis
      next
        case (Some e)
        then have e: "e = final r" "pending q = []" "data = [] \<or> together r" using spec by auto
        have p: "pending r = data" using spec e(2) by simp
        have "length body + length data = n \<longleftrightarrow> n - length body \<le> length data" using spec False by auto
        moreover have "\<not> n - length body \<le> length data" if "e \<noteq> EOF"
          using that e less.prems(1) pos by (auto simp: clean_def)
        ultimately show ?thesis
          using step sc1 Some less.prems(3) e p spec by (auto simp: bodyOutcome_def split: if_splits)
      qed
    qed
  qed
qed

lemma transparent_readBody [transparent_intros]: "transparent (readBody a n)"
proof (cases "n = 0")
  case False
  have "transparent (readBodyLoop n (newScanner a) [])"
  proof (rule transparentI [OF _ reads_readBodyLoop])
    fix r q x r' y q'
    assume c: "clean r" "clean q" "pending r = pending q" "final r = final q"
      and run: "readBodyLoop n (newScanner a) [] r = (x, r')" "readBodyLoop n (newScanner a) [] q = (y, q')"
    from readBodyLoop_outcome [OF c(1) _ run(1)] readBodyLoop_outcome [OF c(2) _ run(2)] c(3,4)
    show "x = y \<and> (isl x \<or> pending r' = pending q')" by auto
  qed
  with False show ?thesis unfolding readBody_def by (auto intro!: transparent_intros)
qed (simp add: readBody_def transparent_intros)

lemma transparent_readCRLF [transparent_intros]: "transparent readCRLF"
proof (rule transparentI [OF _ reads_readCRLF])
  fix r q x r' y q'
  assume c: "pending r = pending q" "final r = final q" and run: "readCRLF r = (x, r')" "readCRLF q = (y, q')"
  obtain u r1 where u: "ReadByte r = (u, r1)" by (cases "ReadByte r")
  obtain v q1 where v: "ReadByte q = (v, q1)" by (cases "ReadByte q")
  obtain w r2 where w: "ReadByte r1 = (w, r2)" by (cases "ReadByte r1")
  obtain z q2 where z: "ReadByte q1 = (z, q2)" by (cases "ReadByte q1")
  have one: "u = v" "pending r1 = pending q1" "final r1 = final q1" using bufio.readByte_same [OF c u v] by auto
  have two: "w = z" "pending r2 = pending q2" using bufio.readByte_same [OF one(2,3) w z] by auto
  show "x = y \<and> (isl x \<or> pending r' = pending q')"
    using run u v w z one two by (auto simp: readCRLF_def split: sum.splits if_splits)
qed

lemma transparent_readChunk [transparent_intros]: "transparent (readChunk sc n)"
proof (rule transparentI [OF _ reads_readChunk])
  fix r q x r' y q'
  assume c: "clean r" "clean q" "pending r = pending q" "final r = final q"
    and run: "readChunk sc n r = (x, r')" "readChunk sc n q = (y, q')"
  obtain u r1 where u: "ReadFull n r = (u, r1)" by (cases "ReadFull n r")
  obtain v q1 where v: "ReadFull n q = (v, q1)" by (cases "ReadFull n q")
  have same: "u = v" "pending r1 = pending q1" "final r1 = final q1" "clean r1" "clean q1"
    using ReadFull_spec [OF u] ReadFull_spec [OF v] c by (auto simp: clean_def split: if_splits)
  show "x = y \<and> (isl x \<or> pending r' = pending q')"
  proof (cases "\<exists>data sc'. u = Inr data \<and> feedOpt sc data = Inr sc'")
    case True
    then obtain data sc' where d: "u = Inr data" "feedOpt sc data = Inr sc'" by blast
    then have run': "bindP readCRLF (\<lambda>_. returnP (sc', data)) r1 = (x, r')" "bindP readCRLF (\<lambda>_. returnP (sc', data)) q1 = (y, q')"
      using run u v same(1) by (simp_all add: readChunk_def)
    have "transparent (bindP readCRLF (\<lambda>_. returnP (sc', data)))" by (rule transparent_intros)+
    from transparentD [OF this same(4,5,2,3) run'] show ?thesis by blast
  next
    case False
    with run u v same show ?thesis by (auto simp: readChunk_def split: sum.splits)
  qed
qed

lemma transparent_finishBody [transparent_intros]: "transparent (finishBody a sc body)"
  unfolding finishBody_def readTrailers_block by (rule transparent_intros)+

lemma transparent_readChunkedLoop: "transparent (readChunkedLoop a sc body)"
proof (induction sc body rule: readChunkedLoop_induct)
  case (1 sc body)
  have "transparent (bindP (readChunk sc n) (\<lambda>(sc', data). readChunkedLoop a sc' (body @ data)))"
    if n: "n \<noteq> 0" "length body + n \<le> maxBodyBytes" for n
  proof (rule transparent_bind_strong [OF transparent_readChunk])
    fix r y r' assume "readChunk sc n r = (Inr y, r')"
    then obtain sc' data where y: "y = (sc', data)" and "length data = n" using readChunk_Inr by (cases y) auto
    then have "transparent (readChunkedLoop a sc' (body @ data))" using n by (intro 1) auto
    with y show "transparent (case y of (sc', data) \<Rightarrow> readChunkedLoop a sc' (body @ data))" by simp
  qed
  then show ?case
    unfolding readChunkedLoop_step [of a sc body]
    by (intro transparent_bind transparent_readLineLimited) (auto intro!: transparent_intros split: sum.split)
qed

lemma transparent_readPayload [transparent_intros]: "transparent (readPayload a headers len)"
  using transparent_readChunkedLoop [of a "newScanner a" "[]"]
  by (auto simp: readPayload_def readChunkedBody_def intro!: transparent_intros)

lemma transparent_parseMessage: "transparent (parseMessage a)"
  unfolding parseMessage_def readHeaders_block
  by (rule transparent_bind [OF transparent_readRequestLine])
    (auto intro!: transparent_intros split: prod.splits)

end
