(* ===== verification/Http_Accepted.thy ===== *)
theory Http_Accepted
  imports Http_Reading
begin

text \<open>
  What the parser guarantees of a request it returns: the shape of the message, the limits, and the
  verdict of the rule engine on every field.
\<close>

section \<open>Header names\<close>

lemma asciiUpper_idem: "asciiUpper (asciiUpper c) = asciiUpper c"
  and asciiLower_idem: "asciiLower (asciiLower c) = asciiLower c"
proof -
  have "\<forall>c. asciiUpper (asciiUpper c) = asciiUpper c" by code_simp
  then show "asciiUpper (asciiUpper c) = asciiUpper c" by blast
  have "\<forall>c. asciiLower (asciiLower c) = asciiLower c" by code_simp
  then show "asciiLower (asciiLower c) = asciiLower c" by blast
qed

lemma token_case: "validHeaderFieldByte c \<Longrightarrow> isTokenChar c \<and> isTokenChar (asciiUpper c) \<and> isTokenChar (asciiLower c)"
  and isTokenChar_valid: "isTokenChar c \<longleftrightarrow> validHeaderFieldByte c"
proof -
  have "\<forall>c. validHeaderFieldByte c \<longrightarrow> isTokenChar c \<and> isTokenChar (asciiUpper c) \<and> isTokenChar (asciiLower c)" by code_simp
  then show "validHeaderFieldByte c \<Longrightarrow> isTokenChar c \<and> isTokenChar (asciiUpper c) \<and> isTokenChar (asciiLower c)" by blast
  have "\<forall>c. isTokenChar c = validHeaderFieldByte c" by code_simp
  then show "isTokenChar c \<longleftrightarrow> validHeaderFieldByte c" by blast
qed

lemma canonLoop_idem: "canonLoop u (canonLoop u s) = canonLoop u s"
  by (induction u s rule: canonLoop.induct) (auto simp: Let_def asciiUpper_idem asciiLower_idem)

lemma canonLoop_eq_Nil [simp]: "canonLoop u s = [] \<longleftrightarrow> s = []"
  by (cases s) (simp_all add: Let_def)

lemma canonLoop_token: "list_all isTokenChar s \<Longrightarrow> list_all isTokenChar (canonLoop u s)"
  by (induction u s rule: canonLoop.induct) (auto simp: Let_def token_case [unfolded isTokenChar_valid] isTokenChar_valid)

text \<open>A header name as the parser stores it.\<close>

definition canonicalName :: "string \<Rightarrow> bool" where
  "canonicalName name \<longleftrightarrow> isToken name \<and> CanonicalMIMEHeaderKey name = name"

lemma canonicalName_canon: "isToken n \<Longrightarrow> canonicalName (CanonicalMIMEHeaderKey n)"
proof -
  assume n: "isToken n"
  have tok: "isTokenChar = validHeaderFieldByte" by (simp add: fun_eq_iff isTokenChar_valid)
  from n have "list_all validHeaderFieldByte n" by (simp add: isToken_def tok)
  then have c: "CanonicalMIMEHeaderKey n = canonLoop True n" by (simp add: CanonicalMIMEHeaderKey_def)
  have "list_all validHeaderFieldByte (canonLoop True n)" "length (canonLoop True n) \<noteq> 0"
    using canonLoop_token [of n True] n by (auto simp: isToken_def tok)
  then show ?thesis
    by (simp add: canonicalName_def isToken_def tok c) (simp add: CanonicalMIMEHeaderKey_def canonLoop_idem)
qed

section \<open>Lines and blocks\<close>

lemma checkField_Inr: "checkField a field v r = (Inr u, r') \<longleftrightarrow> scanField a field v = Inr () \<and> r' = r"
  by (auto simp: checkField_def split: sum.splits)

lemma readRequestLine_Inr:
  assumes "readRequestLine a r = (Inr (meth, path, version), r')"
  shows "isToken meth \<and> isOriginForm meth path \<and> scanField a ''uri'' path = Inr ()"
  using assms
  by (auto simp: readRequestLine_def failP_def returnP_def checkField_Inr
      elim!: bindP_eq_Inr split: list.splits if_splits)

definition fieldOk :: "Automaton option \<Rightarrow> string \<Rightarrow> string \<Rightarrow> bool" where
  "fieldOk a name v \<longleftrightarrow> canonicalName name \<and> scanField a (''header:'' @ name) v = Inr ()"

lemma readHeaderLine_Inr:
  assumes "readHeaderLine a r = (Inr (Some (name, v)), r')"
  shows "fieldOk a name v"
  using assms
  by (auto simp: readHeaderLine_def fieldOk_def failP_def returnP_def checkField_Inr Let_def canonicalName_canon
      elim!: bindP_eq_Inr split: if_splits prod.splits)

lemma fieldBlock_Inr:
  assumes refuse: "\<And>n s. n \<in> set s \<Longrightarrow> refuse n s \<noteq> None"
    and "fieldBlock over refuse a k seen fs r = (Inr fs', r')" and "dom fs = set seen"
  shows "fs \<subseteq>\<^sub>m fs' \<and> finite (dom fs') \<and> card (dom fs') < card (dom fs) + k
    \<and> (\<forall>n v. fs' n = Some v \<longrightarrow> fs n = Some v \<or> fieldOk a n v \<and> (\<exists>s. refuse n s = None))"
  using assms(2,3)
proof (induction k arbitrary: seen fs r)
  case 0
  then show ?case by (simp add: failP_def)
next
  case (Suc k)
  from Suc.prems(1) obtain h r1 where h: "readHeaderLine a r = (Inr h, r1)"
    and rest: "(case h of None \<Rightarrow> returnP fs
       | Some (name, v) \<Rightarrow>
          (case refuse name seen of Some e \<Rightarrow> failP e
           | None \<Rightarrow> fieldBlock over refuse a k (name # seen) (fs(name \<mapsto> v)))) r1 = (Inr fs', r')"
    by (auto elim!: bindP_eq_Inr)
  show ?case
  proof (cases h)
    case None
    with rest have "fs' = fs" by (simp add: returnP_def)
    with Suc.prems(2) show ?thesis by simp
  next
    case (Some nv)
    obtain name v where nv: "nv = (name, v)" by (cases nv)
    with rest Some have fresh: "refuse name seen = None"
      and run: "fieldBlock over refuse a k (name # seen) (fs(name \<mapsto> v)) r1 = (Inr fs', r')"
      by (auto simp: failP_def split: option.splits)
    have new: "name \<notin> dom fs" using refuse fresh Suc.prems(2) by metis
    have ok: "fieldOk a name v" using readHeaderLine_Inr h Some nv by blast
    have dom: "dom (fs(name \<mapsto> v)) = set (name # seen)" using Suc.prems(2) by simp
    have card: "card (dom (fs(name \<mapsto> v))) = Suc (card (dom fs))" using new Suc.prems(2) by simp
    note ih = Suc.IH [OF run dom, unfolded card]
    have "fs \<subseteq>\<^sub>m fs(name \<mapsto> v)" using new by (auto simp: map_le_def)
    with ih have "fs \<subseteq>\<^sub>m fs'" by (meson map_le_trans)
    with ih ok fresh show ?thesis by (auto split: if_splits)
  qed
qed

text \<open>The map read from a block: bounded, canonical names, every value passed the rule engine.\<close>

definition fieldMap :: "Automaton option \<Rightarrow> nat \<Rightarrow> (string \<rightharpoonup> string) \<Rightarrow> bool" where
  "fieldMap a k fs \<longleftrightarrow> finite (dom fs) \<and> card (dom fs) < k \<and> (\<forall>n v. fs n = Some v \<longrightarrow> fieldOk a n v)"

lemma readHeaders_Inr:
  assumes "readHeadersLoop a 0 [] Map.empty r = (Inr headers, r')"
  shows "fieldMap a 64 headers"
  using fieldBlock_Inr [of refuseHeader, OF _ assms [unfolded readHeaders_block]]
  by (auto simp: fieldMap_def refuseHeader_def)

lemma readTrailers_Inr:
  assumes "readTrailers a r = (Inr trailers, r')"
  shows "fieldMap a 16 trailers \<and> (\<forall>n \<in> dom trailers. \<not> isForbiddenTrailer n)"
proof -
  have dup: "\<And>n s. n \<in> set s \<Longrightarrow> refuseTrailer n s \<noteq> None" by (simp add: refuseTrailer_def)
  have forbid: "refuseTrailer n s = None \<Longrightarrow> \<not> isForbiddenTrailer n" for n s
    by (auto simp: refuseTrailer_def split: if_splits)
  show ?thesis
    using fieldBlock_Inr [of refuseTrailer, OF dup assms [unfolded readTrailers_block]] forbid
    by (fastforce simp: fieldMap_def)
qed

section \<open>Bodies\<close>

definition harmlessBody :: "Automaton option \<Rightarrow> string \<Rightarrow> bool" where
  "harmlessBody a body \<longleftrightarrow> a = None \<or> harmlessFor a ''body'' body"

lemma feedOpt_fed:
  assumes "feedOpt (newScanner a) t = Inr (Some s)"
  shows "a \<noteq> None \<and> fedWith a ''body'' s t"
  using assms by (auto simp: feedOpt_def newScanner_def fedWith_def split: if_splits option.splits prod.splits sum.splits)

lemma finished_harmless:
  assumes "feedOpt (newScanner a) t = Inr sc" and "onScanner (Finish ''body'') sc r = (Inr u, r')"
  shows "harmlessBody a t \<and> r' = r"
proof (cases sc)
  case None
  with assms show ?thesis
    by (auto simp: feedOpt_def newScanner_def harmlessBody_def onScanner_def split: if_splits option.splits prod.splits sum.splits)
next
  case (Some s)
  with assms(1) have fed: "a \<noteq> None" "fedWith a ''body'' s t" using feedOpt_fed by auto
  have "fst (Finish ''body'' s) = Inr ()" and "r' = r"
    using assms(2) Some by (auto simp: onScanner_def split: prod.splits sum.splits)
  with engine.fed_finish [OF fed(2)] show ?thesis by (metis harmlessBody_def prod.collapse)
qed

lemma harmlessBody_Nil: "harmlessBody a []"
proof -
  have "\<not> pendingSlash (NewScanner a)" by (simp add: NewScanner_def Let_def split: option.split)
  then show ?thesis by (simp add: harmlessBody_def harmlessFor_run Feed_def Finish_def bindP_def returnP_def)
qed

lemma readBody_Inr:
  assumes "readBody a n r = (Inr body, r')"
  shows "length body = n \<and> harmlessBody a body"
proof (cases "n = 0")
  case True
  with assms show ?thesis by (simp add: readBody_def returnP_def harmlessBody_Nil)
next
  case False
  with assms obtain sc r1 u r2 where run: "readBodyLoop n (newScanner a) [] r = (Inr (sc, body), r1)"
    and fin: "onScanner (Finish ''body'') sc r1 = (Inr u, r2)"
    by (auto simp: readBody_def returnP_def elim!: bindP_eq_Inr)
  from readBodyLoop_frame [OF run] have "feedOpt (newScanner a) body = Inr sc" "length body = n" by auto
  with finished_harmless fin show ?thesis by blast
qed

lemma readChunkedLoop_Inr:
  assumes "readChunkedLoop a sc body r = (Inr (body', trailers), r')"
    and "feedOpt (newScanner a) body = Inr sc" and "length body \<le> maxBodyBytes"
  shows "length body' \<le> maxBodyBytes \<and> harmlessBody a body'
    \<and> fieldMap a 16 trailers \<and> (\<forall>n \<in> dom trailers. \<not> isForbiddenTrailer n)"
  using assms
proof (induction sc body arbitrary: r rule: readChunkedLoop_induct)
  case (1 sc body)
  from "1.prems"(1) obtain line n r1 where n: "parseChunkSize line = Inr n"
    and rest: "(if n = 0 then finishBody a sc body
           else if length body + n > maxBodyBytes then failP BodyTooLarge
           else bindP (readChunk sc n) (\<lambda>(sc', data). readChunkedLoop a sc' (body @ data))) r1 = (Inr (body', trailers), r')"
    unfolding readChunkedLoop_step [of a sc body]
    by (auto simp: failP_def elim!: bindP_eq_Inr split: sum.splits)
  show ?case
  proof (cases "n = 0")
    case True
    with rest obtain u r2 where fin: "onScanner (Finish ''body'') sc r1 = (Inr u, r2)" and body: "body' = body"
      and tr: "readTrailers a r2 = (Inr trailers, r')"
      by (auto simp: finishBody_def returnP_def elim!: bindP_eq_Inr)
    with finished_harmless [OF "1.prems"(2) fin] readTrailers_Inr [OF tr] "1.prems"(3) show ?thesis by blast
  next
    case False
    with rest have small: "length body + n \<le> maxBodyBytes" by (auto simp: failP_def split: if_splits)
    with False rest obtain sc' data r2 where ch: "readChunk sc n r1 = (Inr (sc', data), r2)"
      and run: "readChunkedLoop a sc' (body @ data) r2 = (Inr (body', trailers), r')"
      by (auto elim!: bindP_eq_Inr)
    have d: "length data = n" "feedOpt sc data = Inr sc'" using readChunk_Inr [OF ch] by auto
    have fed: "feedOpt (newScanner a) (body @ data) = Inr sc'"
      using "1.prems"(2) d(2) by (simp add: feedOpt_append)
    have "data \<noteq> []" "length body + length data \<le> maxBodyBytes" "length (body @ data) \<le> maxBodyBytes"
      using d small False by auto
    from "1.IH" [OF this(1,2) run fed this(3)] show ?thesis .
  qed
qed

section \<open>Requests\<close>

lemma check_Inr: "check x r = (Inr y, r') \<longleftrightarrow> x = Inr y \<and> r' = r"
  by (auto simp: check_def)

lemma parseMessage_Inr:
  assumes "parseMessage a r = (Inr req, r')"
  obtains r1 r2 len where
    "readRequestLine a r = (Inr (rMethod req, rPath req, ''HTTP/1.1''), r1)"
    and "rVersion req = ''HTTP/1.1''"
    and "readHeadersLoop a 0 [] Map.empty r1 = (Inr (rHeaders req), r2)"
    and "checkEncoding (rHeaders req) = Inr ()" and "checkHost (rHeaders req) = Inr ()"
    and "contentLength (rHeaders req) = Inr len"
    and "readPayload a (rHeaders req) len r2 = (Inr (rBody req, rTrailers req), r')"
  using assms
  by (auto simp: parseMessage_def returnP_def failP_def check_Inr elim!: bindP_eq_Inr split: if_splits)

text \<open>The shape and the limits of a request that the parser returns.\<close>

definition wellFormed :: "Request \<Rightarrow> bool" where
  "wellFormed req \<longleftrightarrow>
     isToken (rMethod req) \<and> isOriginForm (rMethod req) (rPath req) \<and> rVersion req = ''HTTP/1.1''
     \<and> (\<forall>n \<in> dom (rHeaders req) \<union> dom (rTrailers req). canonicalName n)
     \<and> card (dom (rHeaders req)) \<le> 63 \<and> card (dom (rTrailers req)) \<le> 15
     \<and> (\<forall>n \<in> dom (rTrailers req). \<not> isForbiddenTrailer n)
     \<and> (\<exists>host. rHeaders req ''Host'' = Some host \<and> TrimSpace host \<noteq> [] \<and> set host \<inter> {sp, tab, cr, lf} = {})
     \<and> length (rBody req) \<le> 2 ^ 20"

text \<open>The framing of the body is unambiguous.\<close>

definition framed :: "Request \<Rightarrow> bool" where
  "framed req \<longleftrightarrow>
    (case (rHeaders req ''Transfer-Encoding'', rHeaders req ''Content-Length'') of
       (Some te, None) \<Rightarrow> isChunkedTransferEncoding te
     | (Some te, Some cl) \<Rightarrow> False
     | (None, Some cl) \<Rightarrow> cl \<noteq> [] \<and> list_all isDigit cl \<and> int (length (rBody req)) = decval cl \<and> rTrailers req = Map.empty
     | (None, None) \<Rightarrow> rBody req = [] \<and> rTrailers req = Map.empty)"

lemma isDecimal_digits: "isDecimal s \<longleftrightarrow> s \<noteq> [] \<and> list_all isDigit s"
  by (simp add: isDecimal_def isDigit_def not_less list_all_iff)

lemma contentLength_Inr:
  assumes "contentLength headers = Inr len"
  shows "case headers ''Content-Length'' of None \<Rightarrow> len = 0
    | Some cl \<Rightarrow> cl \<noteq> [] \<and> list_all isDigit cl \<and> int len = decval cl"
  using assms decval_nonneg
  by (auto simp: contentLength_def isDecimal_digits Atoi_digits split: option.splits if_splits)

lemma readPayload_Inr:
  assumes "readPayload a headers len r = (Inr (body, trailers), r')" and "len \<le> 2 ^ 20"
  shows "length body \<le> 2 ^ 20 \<and> harmlessBody a body
    \<and> fieldMap a 16 trailers \<and> (\<forall>n \<in> dom trailers. \<not> isForbiddenTrailer n)
    \<and> (\<not> isChunked headers \<longrightarrow> length body = len \<and> trailers = Map.empty)"
proof -
  have empty: "fieldMap a 16 Map.empty" by (simp add: fieldMap_def)
  consider (chunked) "isChunked headers" | (sized) "\<not> isChunked headers" "0 < len" | (none) "\<not> isChunked headers" "len = 0" by blast
  then show ?thesis
  proof cases
    case chunked
    with assms(1) have "readChunkedLoop a (newScanner a) [] r = (Inr (body, trailers), r')"
      by (simp add: readPayload_def readChunkedBody_def)
    from readChunkedLoop_Inr [OF this] chunked show ?thesis by (simp add: maxBodyBytes_def)
  next
    case sized
    with assms(1) have "readBody a len r = (Inr body, r')" and t: "trailers = Map.empty"
      by (auto simp: readPayload_def returnP_def elim!: bindP_eq_Inr)
    from readBody_Inr [OF this(1)] t empty assms(2) show ?thesis by simp
  next
    case none
    with assms(1) have "body = []" "trailers = Map.empty" by (auto simp: readPayload_def returnP_def)
    with none empty show ?thesis by (simp add: harmlessBody_Nil)
  qed
qed

lemma accepted_wellFormed:
  assumes "parseMessage a r = (Inr req, r')"
  shows "wellFormed req \<and> framed req"
proof -
  from assms obtain r1 r2 len where
    line: "readRequestLine a r = (Inr (rMethod req, rPath req, ''HTTP/1.1''), r1)"
    and v: "rVersion req = ''HTTP/1.1''"
    and hd: "readHeadersLoop a 0 [] Map.empty r1 = (Inr (rHeaders req), r2)"
    and enc: "checkEncoding (rHeaders req) = Inr ()" and host: "checkHost (rHeaders req) = Inr ()"
    and cl: "contentLength (rHeaders req) = Inr len"
    and pay: "readPayload a (rHeaders req) len r2 = (Inr (rBody req, rTrailers req), r')"
    by (rule parseMessage_Inr)
  note body = readPayload_Inr [OF pay contentLength_le [OF cl]]
  have hmap: "fieldMap a 64 (rHeaders req)" using readHeaders_Inr [OF hd] .
  have "\<forall>n \<in> dom (rHeaders req) \<union> dom (rTrailers req). canonicalName n"
    using hmap body by (auto simp: fieldMap_def fieldOk_def)
  moreover have "card (dom (rHeaders req)) \<le> 63" "card (dom (rTrailers req)) \<le> 15"
    using hmap body by (auto simp: fieldMap_def)
  moreover have "\<exists>host. rHeaders req ''Host'' = Some host \<and> TrimSpace host \<noteq> [] \<and> set host \<inter> {sp, tab, cr, lf} = {}"
    using host by (auto simp: checkHost_def ContainsAny_def list_ex_iff split: option.splits if_splits)
  ultimately have "wellFormed req" using readRequestLine_Inr [OF line] v body by (simp add: wellFormed_def)
  moreover have "framed req"
    using enc contentLength_Inr [OF cl] body
    by (auto simp: framed_def checkEncoding_def isChunked_def split: option.splits if_splits)
  ultimately show ?thesis ..
qed

text \<open>Every part of an accepted request passed the rule engine.\<close>

definition vetted :: "Automaton option \<Rightarrow> Request \<Rightarrow> bool" where
  "vetted a req \<longleftrightarrow>
     scanField a ''uri'' (rPath req) = Inr ()
     \<and> (\<forall>n v. rHeaders req n = Some v \<or> rTrailers req n = Some v \<longrightarrow> scanField a (''header:'' @ n) v = Inr ())
     \<and> harmlessBody a (rBody req)"

lemma accepted_vetted:
  assumes "parseMessage a r = (Inr req, r')"
  shows "vetted a req"
proof -
  from assms obtain r1 r2 len where
    line: "readRequestLine a r = (Inr (rMethod req, rPath req, ''HTTP/1.1''), r1)"
    and hd: "readHeadersLoop a 0 [] Map.empty r1 = (Inr (rHeaders req), r2)"
    and cl: "contentLength (rHeaders req) = Inr len"
    and pay: "readPayload a (rHeaders req) len r2 = (Inr (rBody req, rTrailers req), r')"
    by (rule parseMessage_Inr)
  show ?thesis
    using readRequestLine_Inr [OF line] readHeaders_Inr [OF hd] readPayload_Inr [OF pay contentLength_le [OF cl]]
    by (auto simp: vetted_def fieldMap_def fieldOk_def)
qed

text \<open>The text of the request target that the rule engine sees.\<close>

definition decodedPath :: "string \<Rightarrow> string" where
  "decodedPath path = (case PathUnescape path of Some decoded \<Rightarrow> decoded | None \<Rightarrow> path)"

lemma scanField_harmless:
  assumes "a \<noteq> None"
  shows "scanField a field v = Inr () \<longleftrightarrow> v = [] \<or> harmlessFor a field (if field = ''uri'' then decodedPath v else v)"
  using assms by (auto simp: scanField_def decodedPath_def harmlessFor_run Let_def)

lemma scanField_clean:
  assumes "rangeOrder rng" and "noBlankPattern patterns"
    and "scanField (NewPatterns rng patterns) field v = Inr ()" and "p \<in> set patterns" and "p \<noteq> []"
  shows "\<not> sublist (Normalize p) (Normalize (if field = ''uri'' then decodedPath v else v))"
proof (cases "v = []")
  case True
  have "Normalize [] = []" by (simp add: Normalize_def trimTrailingSpace_def)
  moreover have "decodedPath [] = []" by (simp add: decodedPath_def)
  moreover have "Normalize p \<noteq> []" using assms(2,4,5) by (auto simp: noBlankPattern_def list_all_iff)
  ultimately show ?thesis using True by simp
next
  case False
  have "NewPatterns rng patterns \<noteq> None" using NewPatterns_sound [OF assms(1)] by blast
  from scanField_harmless [OF this] False assms(3)
  have "harmlessFor (NewPatterns rng patterns) field (if field = ''uri'' then decodedPath v else v)" by blast
  with harmlessFor_patterns [OF assms(1,2)] assms(4,5) show ?thesis by blast
qed

section \<open>No panic\<close>

definition noPanic :: "(reader, error, 'a) op \<Rightarrow> bool" where
  "noPanic m \<longleftrightarrow> (\<forall>r. fst (m r) \<noteq> Inl Panic)"

named_theorems noPanic_intros \<open>operations that do not panic\<close>

lemma noPanic_bind_strong:
  "noPanic m \<Longrightarrow> (\<And>r a r'. m r = (Inr a, r') \<Longrightarrow> noPanic (f a)) \<Longrightarrow> noPanic (bindP m f)"
  unfolding noPanic_def
proof (intro allI notI)
  fix r assume m: "\<forall>r. fst (m r) \<noteq> Inl Panic" and f: "\<And>r a r'. m r = (Inr a, r') \<Longrightarrow> \<forall>r. fst (f a r) \<noteq> Inl Panic"
    and bad: "fst (bindP m f r) = Inl Panic"
  obtain x r' where x: "m r = (x, r')" by (cases "m r")
  show False
  proof (cases x)
    case (Inl e)
    with m [rule_format, of r] x bad show ?thesis by (simp add: bindP_def)
  next
    case (Inr b)
    with f [of r b r'] x bad show ?thesis by (simp add: bindP_def)
  qed
qed

lemma noPanic_bind [noPanic_intros]: "noPanic m \<Longrightarrow> (\<And>a. noPanic (f a)) \<Longrightarrow> noPanic (bindP m f)"
  by (rule noPanic_bind_strong)

lemma noPanic_returnP [noPanic_intros]: "noPanic (returnP a)"
  by (simp add: noPanic_def returnP_def)

lemma noPanic_failP [noPanic_intros]: "e \<noteq> Panic \<Longrightarrow> noPanic (failP e)"
  by (simp add: noPanic_def failP_def)

lemma noPanic_check [noPanic_intros]: "x \<noteq> Inl Panic \<Longrightarrow> noPanic (check x)"
  by (simp add: noPanic_def check_def)

lemma report_Panic: "report st = Panic \<longleftrightarrow> st = Crash"
  by (simp add: report_def securityError_def split: stop.split)

lemma noPanic_checkField [noPanic_intros]:
  assumes "sound a"
  shows "noPanic (checkField a field v)"
proof -
  have "fst (bindP (Feed field w) (\<lambda>_. Finish field) (NewScanner a)) \<noteq> Inl Crash" for w
    using assms unfolding sound_def by (metis concat.simps append_Nil2 scanPieces_concat)
  then have "scanField a field v \<noteq> Inl Crash" by (simp add: scanField_def Let_def)
  then show ?thesis by (auto simp: noPanic_def checkField_def report_Panic split: sum.split)
qed

lemma noPanic_readLineLimited [noPanic_intros]: "noPanic (readLineLimited m)"
proof -
  have "fst (readLineLoop m line r) \<noteq> Inl Panic" for line r
    by (induction m line r rule: readLineLoop.induct)
      (simp add: readLineLoop.simps Let_def split: prod.split sum.split)
  then show ?thesis by (simp add: noPanic_def readLineLimited_def)
qed

lemma noPanic_readRequestLine [noPanic_intros]: "sound a \<Longrightarrow> noPanic (readRequestLine a)"
  unfolding readRequestLine_def by (auto intro!: noPanic_intros split: list.splits)

lemma noPanic_readHeaderLine [noPanic_intros]: "sound a \<Longrightarrow> noPanic (readHeaderLine a)"
  unfolding readHeaderLine_def by (auto intro!: noPanic_intros simp: Let_def split: prod.splits)

lemma noPanic_fieldBlock [noPanic_intros]:
  "sound a \<Longrightarrow> over \<noteq> Panic \<Longrightarrow> (\<And>n s. refuse n s \<noteq> Some Panic) \<Longrightarrow> noPanic (fieldBlock over refuse a k seen fs)"
proof (induction k arbitrary: seen fs)
  case (Suc k)
  have "noPanic (case refuse name seen of Some e \<Rightarrow> failP e
      | None \<Rightarrow> fieldBlock over refuse a k (name # seen) (fs(name \<mapsto> v)))" for name v
  proof (cases "refuse name seen")
    case (Some e)
    with Suc.prems(3) [of name seen] show ?thesis by (simp add: noPanic_failP)
  qed (use Suc in simp)
  with Suc.prems show ?case by (auto intro!: noPanic_intros split: option.split)
qed (auto intro: noPanic_intros)

lemma feedOpt_noPanic:
  assumes "sound a" and "feedOpt (newScanner a) t = Inr sc"
  shows "feedOpt sc d \<noteq> Inl Panic" and "noPanic (onScanner (Finish ''body'') sc)"
proof -
  have "fst (Feed ''body'' d s) \<noteq> Inl Crash" "fst (Finish ''body'' s) \<noteq> Inl Crash" if "sc = Some s" for s
    using that assms feedOpt_fed [of a t s] sound_Feed by blast+
  then show "feedOpt sc d \<noteq> Inl Panic" and "noPanic (onScanner (Finish ''body'') sc)"
    by (cases sc; force simp: feedOpt_def noPanic_def onScanner_def report_Panic split: prod.splits sum.splits)+
qed

lemma readBodyLoop_noPanic:
  assumes "sound a"
  shows "feedOpt (newScanner a) body = Inr sc \<Longrightarrow> fst (readBodyLoop n sc body r) \<noteq> Inl Panic"
proof (induction "n - length body" arbitrary: sc body r rule: less_induct)
  case less
  show ?case
  proof (cases "n \<le> length body")
    case True
    then show ?thesis by (simp add: readBodyLoop.simps)
  next
    case False
    obtain data err q where rd: "Read (n - length body) r = ((data, err), q)" by (metis surj_pair)
    note step = readBodyLoop_step [OF False rd, of sc]
    show ?thesis
    proof (cases "\<exists>sc1. feedOpt sc data = Inr sc1 \<and> err = None")
      case True
      then obtain sc1 where sc1: "feedOpt sc data = Inr sc1" and none: "err = None" by blast
      then have "data \<noteq> []" using bufio.readSome_progress(1) [of "n - length body" r data q] rd False by simp
      then have "n - length (body @ data) < n - length body" using False by (cases data) auto
      moreover have "feedOpt (newScanner a) (body @ data) = Inr sc1" using less.prems sc1 by (simp add: feedOpt_append)
      ultimately show ?thesis using less.hyps step sc1 none by simp
    next
      case False
      with step feedOpt_noPanic(1) [OF assms less.prems, of data] show ?thesis
        by (auto split: sum.splits option.splits)
    qed
  qed
qed

lemma noPanic_readBody [noPanic_intros]:
  assumes "sound a"
  shows "noPanic (readBody a n)"
proof (cases "n = 0")
  case False
  have "noPanic (readBodyLoop n (newScanner a) [])" using readBodyLoop_noPanic [OF assms, of "[]"] by (simp add: noPanic_def)
  moreover have "noPanic (case y of (sc, body) \<Rightarrow> bindP (onScanner (Finish ''body'') sc) (\<lambda>_. returnP body))"
    if "readBodyLoop n (newScanner a) [] r = (Inr y, r')" for r y r'
  proof (cases y)
    case (Pair sc body)
    with readBodyLoop_frame [OF that] have "feedOpt (newScanner a) body = Inr sc" by auto
    with feedOpt_noPanic(2) [OF assms] Pair show ?thesis by (auto intro!: noPanic_intros)
  qed
  ultimately show ?thesis using False unfolding readBody_def by (auto intro: noPanic_bind_strong)
qed (simp add: readBody_def noPanic_returnP)

lemma parseChunkSize_noPanic: "parseChunkSize line \<noteq> Inl Panic"
proof -
  have "chunkDigits line n s \<noteq> Inl Panic" for n s
    by (induction line n s rule: chunkDigits.induct) (auto split: option.splits)
  then have "map_sum id nat (chunkDigits line n s) \<noteq> Inl Panic" for n s
    by (cases "chunkDigits line n s") force+
  then show ?thesis by (simp add: parseChunkSize_def Let_def split: prod.split)
qed

lemma noPanic_readChunk:
  assumes "sound a" and "feedOpt (newScanner a) t = Inr sc"
  shows "noPanic (readChunk sc n)"
proof -
  have "fst (readCRLF r) \<noteq> Inl Panic" for r by (auto simp: readCRLF_def split: prod.split sum.split)
  then have "noPanic (bindP readCRLF (\<lambda>_. returnP y))" for y :: "Scanner option \<times> string"
    by (intro noPanic_intros) (simp add: noPanic_def)
  then show ?thesis
    using feedOpt_noPanic(1) [OF assms] by (auto simp: noPanic_def readChunk_def split: prod.split sum.split)
qed

lemma noPanic_readChunkedLoop:
  assumes "sound a"
  shows "feedOpt (newScanner a) body = Inr sc \<Longrightarrow> noPanic (readChunkedLoop a sc body)"
proof (induction sc body rule: readChunkedLoop_induct)
  case (1 sc body)
  have "noPanic (bindP (readChunk sc n) (\<lambda>(sc', data). readChunkedLoop a sc' (body @ data)))"
    if n: "n \<noteq> 0" "length body + n \<le> maxBodyBytes" for n
  proof (rule noPanic_bind_strong [OF noPanic_readChunk [OF assms "1.prems"]])
    fix r y r' assume "readChunk sc n r = (Inr y, r')"
    then obtain sc' data where y: "y = (sc', data)" "length data = n" "feedOpt sc data = Inr sc'"
      using readChunk_Inr by (cases y) blast
    with "1.prems" have "feedOpt (newScanner a) (body @ data) = Inr sc'" by (simp add: feedOpt_append)
    with y n "1.IH" [of data sc'] show "noPanic (case y of (sc', data) \<Rightarrow> readChunkedLoop a sc' (body @ data))" by auto
  qed
  moreover have "noPanic (finishBody a sc body)"
    unfolding finishBody_def readTrailers_block
    by (intro noPanic_intros feedOpt_noPanic(2) [OF assms "1.prems"] assms) (simp_all add: refuseTrailer_def)
  ultimately show ?case
    unfolding readChunkedLoop_step [of a sc body]
    using parseChunkSize_noPanic by (auto intro!: noPanic_intros split: sum.split)
qed

lemma noPanic_parseMessage:
  assumes "sound a"
  shows "noPanic (parseMessage a)"
proof -
  have payload: "noPanic (readPayload a headers len)" for headers len
    using noPanic_readChunkedLoop [OF assms, of "[]"] assms
    by (auto simp: readPayload_def readChunkedBody_def intro!: noPanic_intros)
  have checks: "checkEncoding h \<noteq> Inl Panic" "checkHost h \<noteq> Inl Panic" "contentLength h \<noteq> Inl Panic" for h
    by (auto simp: checkEncoding_def checkHost_def contentLength_def split: option.splits if_splits)
  show ?thesis
    unfolding parseMessage_def readHeaders_block
    using assms payload checks by (auto intro!: noPanic_intros simp: refuseHeader_def split: prod.split if_splits)
qed

end
