(* ===== verification/Http_Roundtrip.thy ===== *)
theory Http_Roundtrip
  imports Http_Accepted
begin

text \<open>
  The parser is complete for well-formed messages: the text of a request, with a body of a declared
  length or in chunks, parses back to the request, and what follows it on the connection
  is left for the next request.
\<close>

section \<open>Chunk sizes\<close>

definition hexval :: "int \<Rightarrow> string \<Rightarrow> int" where
  "hexval n s = foldl (\<lambda>n c. n * 16 + the (hexValue c)) n s"

lemma hexval_simps [simp]: "hexval n [] = n" "hexval n (c # s) = hexval (n * 16 + the (hexValue c)) s"
  by (simp_all add: hexval_def)

lemma hexValue_range: "hexValue c = Some v \<Longrightarrow> 0 \<le> v \<and> v < 16"
  by (auto simp: hexValue_def less_eq_char_def split: if_splits)

lemma hexval_ge: "0 \<le> n \<Longrightarrow> list_all (\<lambda>c. hexValue c \<noteq> None) s \<Longrightarrow> n \<le> hexval n s"
proof (induction s arbitrary: n)
  case (Cons c s)
  then obtain v where v: "hexValue c = Some v" by auto
  then have "n \<le> n * 16 + v" "0 \<le> n * 16 + v" using hexValue_range [OF v] Cons.prems(1) by auto
  moreover have "n * 16 + v \<le> hexval (n * 16 + v) s" using Cons.prems calculation(2) by (intro Cons.IH) auto
  ultimately show ?case using v by simp
qed simp

text \<open>The overflow guard is exact.\<close>

lemma chunk_guard: "0 \<le> v \<Longrightarrow> v < 16 \<Longrightarrow> (n > (M - v) div 16) = (n * 16 + v > (M :: int))"
  by linarith

lemma chunkDigits_hex:
  "0 \<le> n \<Longrightarrow> n \<le> int maxBodyBytes \<Longrightarrow> list_all (\<lambda>c. hexValue c \<noteq> None) s \<Longrightarrow>
   chunkDigits line n s = (if hexval n s \<le> int maxBodyBytes then Inr (hexval n s) else Inl ChunkTooLarge)"
proof (induction s arbitrary: n)
  case (Cons c s)
  then obtain v where v: "hexValue c = Some v" by auto
  note rng = hexValue_range [OF v]
  note guard = chunk_guard [where v = v and n = n and M = "int maxBodyBytes"]
  show ?case
  proof (cases "n * 16 + v \<le> int maxBodyBytes")
    case True
    with Cons v rng guard show ?thesis by simp
  next
    case False
    have "n * 16 + v \<le> hexval (n * 16 + v) s" using Cons.prems rng by (intro hexval_ge) auto
    with False v rng guard show ?thesis by simp
  qed
qed simp

lemma chunkDigits_Inr: "chunkDigits line n s = Inr k \<Longrightarrow> list_all (\<lambda>c. hexValue c \<noteq> None) s"
  by (induction line n s rule: chunkDigits.induct) (auto split: option.splits if_splits)

text \<open>The part of a chunk-size line that is the number.\<close>

definition sizeText :: "string \<Rightarrow> string" where
  "sizeText line = TrimSpace (fst (Cut line (CHR '';'')))"

lemma parseChunkSize_eq:
  "parseChunkSize line = (if sizeText line = [] then Inl EmptyChunkSize else map_sum id nat (chunkDigits line 0 (sizeText line)))"
proof -
  obtain v w ok where c: "Cut line (CHR '';'') = (v, w, ok)" by (metis prod_cases3)
  then have "(if ok then v else line) = fst (Cut line (CHR '';''))"
    using Cut_missing [of "CHR '';''" line] by (auto simp: Cut_def)
  with c show ?thesis by (simp add: parseChunkSize_def sizeText_def Let_def)
qed

lemma parseChunkSize_Inr:
  "parseChunkSize line = Inr n \<longleftrightarrow>
    sizeText line \<noteq> [] \<and> list_all (\<lambda>c. hexValue c \<noteq> None) (sizeText line)
    \<and> int n = hexval 0 (sizeText line) \<and> n \<le> maxBodyBytes"
proof (cases "sizeText line \<noteq> [] \<and> list_all (\<lambda>c. hexValue c \<noteq> None) (sizeText line)")
  case True
  then have "0 \<le> hexval 0 (sizeText line)" using hexval_ge [of 0] by simp
  with True show ?thesis
    by (auto simp: parseChunkSize_eq chunkDigits_hex)
next
  case False
  then have "parseChunkSize line \<noteq> Inr n"
    using chunkDigits_Inr [of line 0 "sizeText line"]
    by (cases "chunkDigits line 0 (sizeText line)") (auto simp: parseChunkSize_eq)
  with False show ?thesis by blast
qed

section \<open>Operations on a known input\<close>

text \<open>On input \<open>s\<close> the operation succeeds with \<open>x\<close> and leaves \<open>p\<close>, however \<open>s\<close> is delivered.\<close>

definition yields :: "(reader, 'e, 'a) op \<Rightarrow> string \<Rightarrow> 'a \<Rightarrow> string \<Rightarrow> bool" where
  "yields m s x p \<longleftrightarrow>
    (\<forall>r. clean r \<longrightarrow> pending r = s \<longrightarrow> (\<exists>r'. m r = (Inr x, r') \<and> pending r' = p \<and> clean r'))"

named_theorems yields_intros \<open>successful operations on known input\<close>

lemma yields_bind: "yields m s x p \<Longrightarrow> yields (f x) p y q \<Longrightarrow> yields (bindP m f) s y q"
  unfolding yields_def by (metis bindP_Inr)

lemma yields_idle: "(\<And>r. m r = (Inr x, r)) \<Longrightarrow> yields m s x s"
  by (simp add: yields_def)

lemma yields_returnP [yields_intros]: "yields (returnP x) s x s"
  by (simp add: yields_idle returnP_def)

lemma yields_check [yields_intros]: "y = Inr x \<Longrightarrow> yields (check y) s x s"
  by (simp add: yields_idle check_def)

lemma yields_checkField [yields_intros]: "scanField a field v = Inr () \<Longrightarrow> yields (checkField a field v) s () s"
  by (simp add: yields_idle checkField_def)

lemma yields_ReadByte: "yields ReadByte (b # p) b p"
  unfolding yields_def
proof (intro allI impI)
  fix r assume "clean r" and p: "pending r = b # p"
  obtain r' where "ReadByte r = (Inr b, r')" "pending r' = p" using bufio.readByte_Cons [OF p] .
  with \<open>clean r\<close> ReadByte_final show "\<exists>r'. ReadByte r = (Inr b, r') \<and> pending r' = p \<and> clean r'"
    by (auto simp: clean_def)
qed

lemma endsCRLF_snoc: "endsCRLF (line @ [b]) \<longleftrightarrow> b = lf \<and> line \<noteq> [] \<and> last line = cr"
  by (cases line rule: rev_cases) (auto simp: endsCRLF_def nth_append)

lemma yields_readLineLoop:
  "lf \<notin> set l \<Longrightarrow> length line + length l + 2 \<le> m \<Longrightarrow>
   yields (readLineLoop m line) (l @ [cr, lf] @ rest) (line @ l) rest"
proof (induction l arbitrary: line)
  case Nil
  show ?case
    unfolding yields_def
  proof (intro allI impI)
    fix r assume r: "clean r" "pending r = [] @ [cr, lf] @ rest"
    then obtain r1 where 1: "ReadByte r = (Inr cr, r1)" "pending r1 = lf # rest" "clean r1"
      using yields_ReadByte [of cr "lf # rest"] by (auto simp: yields_def)
    then obtain r2 where 2: "ReadByte r1 = (Inr lf, r2)" "pending r2 = rest" "clean r2"
      using yields_ReadByte [of lf rest] by (auto simp: yields_def)
    have "readLineLoop m line r = readLineLoop m (line @ [cr]) r1"
      using 1 Nil by (simp add: readLineLoop.simps [of m line] endsCRLF_snoc)
    also have "\<dots> = (Inr line, r2)"
      using 2 Nil endsCRLF_snoc [of "line @ [cr]" lf] by (simp add: readLineLoop.simps [of m "line @ [cr]"])
    finally show "\<exists>r'. readLineLoop m line r = (Inr (line @ []), r') \<and> pending r' = rest \<and> clean r'" using 2 by simp
  qed
next
  case (Cons b l)
  show ?case
    unfolding yields_def
  proof (intro allI impI)
    fix r assume r: "clean r" "pending r = (b # l) @ [cr, lf] @ rest"
    then obtain r1 where 1: "ReadByte r = (Inr b, r1)" "pending r1 = l @ [cr, lf] @ rest" "clean r1"
      using yields_ReadByte [of b "l @ [cr, lf] @ rest"] by (auto simp: yields_def)
    have "b \<noteq> lf" using Cons.prems by auto
    then have "readLineLoop m line r = readLineLoop m (line @ [b]) r1"
      using 1 Cons.prems by (simp add: readLineLoop.simps [of m line] endsCRLF_snoc)
    moreover have "yields (readLineLoop m (line @ [b])) (l @ [cr, lf] @ rest) ((line @ [b]) @ l) rest"
      using Cons.prems by (intro Cons.IH) auto
    ultimately show "\<exists>r'. readLineLoop m line r = (Inr (line @ b # l), r') \<and> pending r' = rest \<and> clean r'"
      using 1 by (auto simp: yields_def)
  qed
qed

lemma yields_line [yields_intros]:
  "lf \<notin> set l \<Longrightarrow> length l + 2 \<le> m \<Longrightarrow> yields (readLineLimited m) (l @ [cr, lf] @ rest) l rest"
  using yields_readLineLoop [of l "[]" m rest] by (simp add: readLineLimited_def)

section \<open>Text of a request\<close>

definition printFields :: "(string \<times> string) list \<Rightarrow> string" where
  "printFields hs = concat (map (\<lambda>(n, v). n @ '': '' @ v @ [cr, lf]) hs) @ [cr, lf]"

definition printRequestLine :: "string \<Rightarrow> string \<Rightarrow> string" where
  "printRequestLine meth path = meth @ [sp] @ path @ [sp] @ ''HTTP/1.1'' @ [cr, lf]"

text \<open>A visible ASCII character.\<close>

definition graphic :: "byte \<Rightarrow> bool" where
  "graphic b \<longleftrightarrow> 33 \<le> byteval b \<and> byteval b \<le> 126"

lemma graphic_not_space: "graphic b \<Longrightarrow> byteval b < 0x80 \<and> \<not> isSpace (byteval b)"
  by (auto simp: graphic_def isSpace_def)

lemma graphic_not_ctl: "graphic b \<Longrightarrow> b \<noteq> lf \<and> b \<noteq> cr \<and> b \<noteq> sp \<and> b \<noteq> tab"
  by (auto simp: graphic_def)

lemma token_graphic: "isTokenChar c \<Longrightarrow> graphic c \<and> c \<noteq> CHR '':''"
proof -
  have "\<forall>c. isTokenChar c \<longrightarrow> graphic c \<and> c \<noteq> CHR '':''" by code_simp
  then show "isTokenChar c \<Longrightarrow> graphic c \<and> c \<noteq> CHR '':''" by blast
qed

lemma fieldsLoop_word:
  "list_all graphic w \<Longrightarrow> fieldsLoop cur (w @ s) = fieldsLoop (cur @ w) s"
proof (induction w arbitrary: cur)
  case (Cons b w)
  then have "byteval b < 0x80" "\<not> isSpace (byteval b)" using graphic_not_space by auto
  with Cons show ?case by (simp add: fieldsLoop.simps [of cur "b # w @ s"])
qed simp

lemma fieldsLoop_gap: "cur \<noteq> [] \<Longrightarrow> fieldsLoop cur (sp # s) = cur # fieldsLoop [] s"
  by (simp add: fieldsLoop.simps [of cur "sp # s"] isSpace_def)

lemma fieldsLoop_end: "cur \<noteq> [] \<Longrightarrow> fieldsLoop cur [] = [cur]"
  by (simp add: fieldsLoop.simps)

lemma Fields_three:
  assumes "list_all graphic x" "list_all graphic y" "list_all graphic z" "x \<noteq> []" "y \<noteq> []" "z \<noteq> []"
  shows "Fields (x @ [sp] @ y @ [sp] @ z) = [x, y, z]"
proof -
  have "Fields (x @ [sp] @ y @ [sp] @ z) = x # fieldsLoop [] (y @ [sp] @ z)"
    using assms by (simp add: Fields_def fieldsLoop_word fieldsLoop_gap)
  also have "fieldsLoop [] (y @ [sp] @ z) = y # fieldsLoop [] (z @ [])"
    using assms by (simp add: fieldsLoop_word fieldsLoop_gap)
  also have "fieldsLoop [] (z @ []) = [z]" using assms fieldsLoop_word [of z "[]" "[]"] by (simp add: fieldsLoop_end)
  finally show ?thesis .
qed

lemma yields_readRequestLine:
  assumes "isToken meth" and "list_all graphic path" and "isOriginForm meth path"
    and "scanField a ''uri'' path = Inr ()" and "length meth + length path + 12 \<le> 4096"
  shows "yields (readRequestLine a) (printRequestLine meth path @ rest) (meth, path, ''HTTP/1.1'') rest"
proof -
  let ?l = "meth @ [sp] @ path @ [sp] @ ''HTTP/1.1''"
  have g: "list_all graphic meth" "meth \<noteq> []" using assms(1) token_graphic by (auto simp: isToken_def list_all_iff)
  have path: "path \<noteq> []" using assms(3) by (auto simp: isOriginForm_def HasPrefix_def split: if_splits)
  have "list_all graphic ''HTTP/1.1''" by code_simp
  with g assms(2) path have fields: "Fields ?l = [meth, path, ''HTTP/1.1'']" by (intro Fields_three) auto
  have "lf \<notin> set ?l" using g(1) assms(2) graphic_not_ctl by (auto simp: list_all_iff)
  then have "yields (readLineLimited maxRequestLineBytes) (?l @ [cr, lf] @ rest) ?l rest"
    using assms(5) by (intro yields_line) (auto simp: maxRequestLineBytes_def)
  moreover have "printRequestLine meth path @ rest = ?l @ [cr, lf] @ rest" by (simp add: printRequestLine_def)
  ultimately show ?thesis
    unfolding readRequestLine_def
    by (simp only:) (erule yields_bind, use assms fields in \<open>auto intro!: yields_intros yields_bind\<close>)
qed

section \<open>Text of header fields\<close>

definition plainValue :: "string \<Rightarrow> bool" where
  "plainValue v \<longleftrightarrow> lf \<notin> set v \<and> (v = [] \<or> graphic (hd v) \<and> graphic (last v))"

definition sendableField :: "Automaton option \<Rightarrow> string \<times> string \<Rightarrow> bool" where
  "sendableField a nv \<longleftrightarrow> fieldOk a (fst nv) (snd nv) \<and> plainValue (snd nv)
     \<and> length (fst nv) + length (snd nv) + 4 \<le> 8192"

lemma TrimSpace_value: "plainValue v \<Longrightarrow> TrimSpace (sp # v) = v"
proof -
  assume v: "plainValue v"
  have "trimLeft (sp # v) = trimLeft v" by (rule trimLeft_space) (simp_all add: isSpace_def)
  then have "TrimSpace (sp # v) = TrimSpace v" by (simp add: TrimSpace_def)
  also have "\<dots> = v"
    using v graphic_not_space by (cases "v = []") (auto simp: plainValue_def intro!: TrimSpace_id)
  finally show ?thesis .
qed

lemma token_graphics: "isToken n \<Longrightarrow> list_all graphic n \<and> CHR '':'' \<notin> set n"
  using token_graphic by (auto simp: isToken_def list_all_iff)

lemma TrimSpace_token: "isToken n \<Longrightarrow> TrimSpace n = n"
proof -
  assume n: "isToken n"
  then have "n \<noteq> []" "graphic (hd n)" "graphic (last n)"
    using token_graphics by (auto simp: isToken_def list_all_iff)
  with graphic_not_space show ?thesis by (intro TrimSpace_id) auto
qed

lemma yields_readHeaderLine:
  assumes "sendableField a (n, v)"
  shows "yields (readHeaderLine a) (n @ '': '' @ v @ [cr, lf] @ rest) (Some (n, v)) rest"
proof -
  let ?l = "n @ '': '' @ v"
  have n: "isToken n" "CanonicalMIMEHeaderKey n = n" and scan: "scanField a (''header:'' @ n) v = Inr ()"
    and v: "plainValue v" and len: "length ?l + 2 \<le> maxHeaderLineBytes"
    using assms by (auto simp: sendableField_def fieldOk_def canonicalName_def maxHeaderLineBytes_def)
  have g: "list_all graphic n" "CHR '':'' \<notin> set n" "n \<noteq> []" using token_graphics [OF n(1)] n(1) by (auto simp: isToken_def)
  have lf: "lf \<notin> set ?l" using g(1) v graphic_not_ctl by (auto simp: list_all_iff plainValue_def)
  have cut: "Cut ?l (CHR '':'') = (n, sp # v, True)" using Cut_append [OF g(2), of "sp # v"] by simp
  have "?l ! 0 = hd n" using g(3) by (cases n) auto
  then have fold: "?l ! 0 \<noteq> sp" "?l ! 0 \<noteq> tab" using g graphic_not_ctl by (auto simp: list_all_iff)
  have "yields (readLineLimited maxHeaderLineBytes) (?l @ [cr, lf] @ rest) ?l rest" using lf len by (rule yields_line)
  moreover have "yields (bindP (checkField a (''header:'' @ n) v) (\<lambda>_. returnP (Some (n, v)))) rest (Some (n, v)) rest"
    using scan by (auto intro!: yields_bind yields_intros)
  ultimately have "yields (readHeaderLine a) (?l @ [cr, lf] @ rest) (Some (n, v)) rest"
    unfolding readHeaderLine_def
    by (elim yields_bind) (use fold g(3) cut n TrimSpace_token [OF n(1)] TrimSpace_value [OF v] in \<open>simp add: Let_def\<close>)
  then show ?thesis by simp
qed

lemma yields_blank: "yields (readHeaderLine a) ([cr, lf] @ rest) None rest"
proof -
  have "yields (readLineLimited maxHeaderLineBytes) ([] @ [cr, lf] @ rest) [] rest"
    by (rule yields_line) (simp_all add: maxHeaderLineBytes_def)
  then have "yields (readLineLimited maxHeaderLineBytes) ([cr, lf] @ rest) [] rest" by simp
  then show ?thesis
    unfolding readHeaderLine_def by (rule yields_bind) (simp add: yields_returnP)
qed

lemma map_upd_add: "n \<notin> fst ` set hs \<Longrightarrow> fs(n \<mapsto> v) ++ map_of hs = fs ++ map_of ((n, v) # hs)"
proof -
  assume "n \<notin> fst ` set hs"
  then have "map_of hs n = None" by (simp add: map_of_eq_None_iff)
  then show ?thesis by (auto simp: map_add_def fun_eq_iff split: option.split)
qed

lemma yields_fieldBlock:
  assumes "\<And>n s. n \<in> fst ` set hs \<Longrightarrow> n \<notin> set s \<Longrightarrow> refuse n s = None"
    and "list_all (sendableField a) hs" and "distinct (map fst hs)" and "length hs < k" and "set seen \<inter> fst ` set hs = {}"
  shows "yields (fieldBlock over refuse a k seen fs) (printFields hs @ rest) (fs ++ map_of hs) rest"
  using assms
proof (induction hs arbitrary: k seen fs)
  case Nil
  then obtain j where "k = Suc j" by (cases k) auto
  have "yields (fieldBlock over refuse a (Suc j) seen fs) ([cr, lf] @ rest) fs rest"
    unfolding fieldBlock.simps by (rule yields_bind [OF yields_blank]) (simp add: yields_returnP)
  with \<open>k = Suc j\<close> show ?case by (simp add: printFields_def)
next
  case (Cons nv hs)
  obtain n v where nv: "nv = (n, v)" by (cases nv)
  obtain j where k: "k = Suc j" using Cons.prems(4) by (cases k) auto
  have line: "yields (readHeaderLine a) (n @ '': '' @ v @ [cr, lf] @ (printFields hs @ rest)) (Some (n, v)) (printFields hs @ rest)"
    using Cons.prems(2) nv by (intro yields_readHeaderLine) simp
  have acc: "refuse n seen = None" using Cons.prems(1,5) nv by auto
  have "yields (fieldBlock over refuse a j (n # seen) (fs(n \<mapsto> v))) (printFields hs @ rest) (fs(n \<mapsto> v) ++ map_of hs) rest"
    using Cons.prems nv k by (intro Cons.IH) auto
  moreover have "fs(n \<mapsto> v) ++ map_of hs = fs ++ map_of (nv # hs)"
    unfolding nv using Cons.prems(3) nv by (intro map_upd_add) auto
  ultimately have tail: "yields (fieldBlock over refuse a j (n # seen) (fs(n \<mapsto> v))) (printFields hs @ rest) (fs ++ map_of (nv # hs)) rest" by simp
  have shown: "printFields (nv # hs) @ rest = n @ '': '' @ v @ [cr, lf] @ (printFields hs @ rest)" by (simp add: printFields_def nv)
  show ?case
    unfolding k fieldBlock.simps shown by (rule yields_bind [OF line]) (simp only: option.case prod.case acc tail)
qed

section \<open>Bodies\<close>

lemma harmless_fed:
  assumes "harmlessBody a (t @ u)"
  obtains sc where "feedOpt (newScanner a) t = Inr sc"
proof (cases "a = None")
  case True
  then show ?thesis using that by (simp add: feedOpt_def newScanner_def)
next
  case False
  with assms engine.harmless_prefix [of a "''body''" t u] obtain s where "Feed ''body'' t (NewScanner a) = (Inr (), s)"
    by (auto simp: harmlessBody_def)
  with False have "feedOpt (newScanner a) t = Inr (Some s)" by (simp add: feedOpt_def newScanner_def)
  then show ?thesis by (rule that)
qed

lemma yields_Finish:
  assumes "feedOpt (newScanner a) t = Inr sc" and "harmlessBody a t"
  shows "\<exists>u. yields (onScanner (Finish ''body'') sc) s u s"
proof (cases sc)
  case None
  then show ?thesis by (auto intro!: yields_idle simp: onScanner_def)
next
  case (Some x)
  with assms(1) have fed: "a \<noteq> None" "fedWith a ''body'' x t" using feedOpt_fed by auto
  obtain y x' where run: "Finish ''body'' x = (y, x')" by (cases "Finish ''body'' x")
  with engine.fed_finish [OF fed(2) run] assms(2) fed(1) have "y = Inr ()" by (auto simp: harmlessBody_def)
  with run Some show ?thesis by (intro exI [of _ "Some x'"] yields_idle) (simp add: onScanner_def)
qed

lemma yields_readBody:
  assumes "harmlessBody a body"
  shows "yields (readBody a (length body)) (body @ rest) body rest"
proof (cases "body = []")
  case True
  then show ?thesis by (simp add: readBody_def yields_returnP)
next
  case False
  obtain sc where sc: "feedOpt (newScanner a) body = Inr sc" using harmless_fed [of a body "[]"] assms by auto
  have "yields (readBodyLoop (length body) (newScanner a) []) (body @ rest) (sc, body) rest"
    unfolding yields_def
  proof (intro allI impI)
    fix r assume r: "clean r" "pending r = body @ rest"
    obtain x r' where run: "readBodyLoop (length body) (newScanner a) [] r = (x, r')" by fastforce
    from readBodyLoop_outcome [OF r(1) _ run] r(2) sc have "x = Inr (sc, body)" "pending r' = rest"
      by (auto simp: bodyOutcome_def)
    with run readBodyLoop_frame [OF run] r(1)
    show "\<exists>r'. readBodyLoop (length body) (newScanner a) [] r = (Inr (sc, body), r') \<and> pending r' = rest \<and> clean r'"
      by (auto simp: clean_def)
  qed
  moreover obtain u where "yields (onScanner (Finish ''body'') sc) rest u rest" using yields_Finish [OF sc assms] by blast
  ultimately show ?thesis
    using False unfolding readBody_def by (auto intro!: yields_bind yields_returnP)
qed

section \<open>Chunks\<close>

definition hexDigit :: "nat \<Rightarrow> byte" where
  "hexDigit d = ''0123456789abcdef'' ! d"

fun hexText :: "nat \<Rightarrow> string" where
  "hexText n = (if n < 16 then [hexDigit n] else hexText (n div 16) @ [hexDigit (n mod 16)])"

declare hexText.simps [simp del]

lemma hexDigit_spec: "d < 16 \<Longrightarrow> hexValue (hexDigit d) = Some (int d) \<and> graphic (hexDigit d) \<and> hexDigit d \<noteq> CHR '';''"
proof -
  have "\<forall>d \<in> set [0..<16]. hexValue (hexDigit d) = Some (int d) \<and> graphic (hexDigit d) \<and> hexDigit d \<noteq> CHR '';''" by code_simp
  then show "d < 16 \<Longrightarrow> ?thesis" by simp
qed

lemma hexval_append: "hexval n (s @ u) = hexval (hexval n s) u"
  by (simp add: hexval_def)

lemma hexText_spec:
  "hexval 0 (hexText n) = int n \<and> list_all (\<lambda>c. hexValue c \<noteq> None \<and> graphic c \<and> c \<noteq> CHR '';'') (hexText n) \<and> hexText n \<noteq> []"
proof (induction n rule: hexText.induct)
  case (1 n)
  show ?case
  proof (cases "n < 16")
    case True
    then show ?thesis using hexDigit_spec [of n] by (simp add: hexText.simps [of n])
  next
    case False
    have "int (n div 16) * 16 + int (n mod 16) = int n" by (metis div_mult_mod_eq of_nat_add of_nat_mult of_nat_numeral)
    with 1 False hexDigit_spec [of "n mod 16"] show ?thesis by (simp add: hexText.simps [of n] hexval_append)
  qed
qed

lemma hexText_length: "n < 16 ^ Suc k \<Longrightarrow> length (hexText n) \<le> Suc k"
proof (induction k arbitrary: n)
  case (Suc k)
  then have "n div 16 < 16 ^ Suc k" by (simp add: less_mult_imp_div_less mult.commute)
  with Suc show ?case by (cases "n < 16") (simp_all add: hexText.simps [of n])
qed (simp add: hexText.simps)

lemma sizeText_hexText: "sizeText (hexText n) = hexText n"
proof -
  have h: "list_all (\<lambda>c. graphic c \<and> c \<noteq> CHR '';'') (hexText n)" "hexText n \<noteq> []"
    using hexText_spec [of n] by (auto simp: list_all_iff)
  then have "CHR '';'' \<notin> set (hexText n)" by (auto simp: list_all_iff)
  moreover have "TrimSpace (hexText n) = hexText n"
    using h graphic_not_space by (intro TrimSpace_id) (auto simp: list_all_iff)
  ultimately show ?thesis by (simp add: sizeText_def Cut_missing)
qed

lemma parseChunkSize_hexText: "n \<le> maxBodyBytes \<Longrightarrow> parseChunkSize (hexText n) = Inr n"
  using hexText_spec [of n] by (auto simp: parseChunkSize_Inr sizeText_hexText list_all_iff)

lemma yields_sizeLine:
  assumes "n \<le> maxBodyBytes"
  shows "yields (readLineLimited maxHeaderLineBytes) (hexText n @ [cr, lf] @ rest) (hexText n) rest"
proof (rule yields_line)
  show "lf \<notin> set (hexText n)" using hexText_spec [of n] graphic_not_ctl by (auto simp: list_all_iff)
  show "length (hexText n) + 2 \<le> maxHeaderLineBytes"
    using hexText_length [of n 5] assms by (simp add: maxBodyBytes_def maxHeaderLineBytes_def)
qed

lemma yields_readChunk:
  assumes "feedOpt sc d = Inr sc'"
  shows "yields (readChunk sc (length d)) (d @ [cr, lf] @ rest) (sc', d) rest"
  unfolding yields_def
proof (intro allI impI)
  fix r assume r: "clean r" "pending r = d @ [cr, lf] @ rest"
  obtain x r1 where full: "ReadFull (length d) r = (x, r1)" by fastforce
  from ReadFull_spec [OF full] r have x: "x = Inr d" "pending r1 = [cr, lf] @ rest" "clean r1"
    by (auto simp: clean_def)
  then obtain r2 where 2: "ReadByte r1 = (Inr cr, r2)" "pending r2 = lf # rest" "clean r2"
    using yields_ReadByte [of cr "lf # rest"] by (auto simp: yields_def)
  then obtain r3 where 3: "ReadByte r2 = (Inr lf, r3)" "pending r3 = rest" "clean r3"
    using yields_ReadByte [of lf rest] by (auto simp: yields_def)
  have "readChunk sc (length d) r = (Inr (sc', d), r3)"
    using full x 2 3 assms by (simp add: readChunk_def readCRLF_def bindP_def returnP_def)
  with 3 show "\<exists>r'. readChunk sc (length d) r = (Inr (sc', d), r') \<and> pending r' = rest \<and> clean r'" by simp
qed

definition printChunk :: "string \<Rightarrow> string" where
  "printChunk d = hexText (length d) @ [cr, lf] @ d @ [cr, lf]"

definition printChunked :: "string list \<Rightarrow> (string \<times> string) list \<Rightarrow> string" where
  "printChunked cs ts = concat (map printChunk cs) @ ''0'' @ [cr, lf] @ printFields ts"

definition sendableTrailers :: "Automaton option \<Rightarrow> (string \<times> string) list \<Rightarrow> bool" where
  "sendableTrailers a ts \<longleftrightarrow> list_all (sendableField a) ts \<and> distinct (map fst ts) \<and> length ts \<le> 15
     \<and> list_all (\<lambda>(n, v). \<not> isForbiddenTrailer n) ts"

lemma yields_readTrailers:
  assumes "sendableTrailers a ts"
  shows "yields (readTrailers a) (printFields ts @ rest) (map_of ts) rest"
proof -
  have "yields (fieldBlock TooManyTrailers refuseTrailer a 16 [] Map.empty) (printFields ts @ rest) (Map.empty ++ map_of ts) rest"
    using assms by (intro yields_fieldBlock) (auto simp: sendableTrailers_def refuseTrailer_def list_all_iff)
  then show ?thesis by (simp add: readTrailers_block)
qed

lemma yields_finishBody:
  assumes "feedOpt (newScanner a) body = Inr sc" and "harmlessBody a body" and "sendableTrailers a ts"
  shows "yields (finishBody a sc body) (printFields ts @ rest) (body, map_of ts) rest"
proof -
  obtain u where "yields (onScanner (Finish ''body'') sc) (printFields ts @ rest) u (printFields ts @ rest)"
    using yields_Finish [OF assms(1,2)] by blast
  then show ?thesis
    unfolding finishBody_def by (rule yields_bind) (rule yields_bind [OF yields_readTrailers [OF assms(3)] yields_returnP])
qed

lemma yields_readChunkedLoop:
  assumes "feedOpt (newScanner a) body = Inr sc" and "harmlessBody a (body @ concat cs)"
    and "[] \<notin> set cs" and "length (body @ concat cs) \<le> maxBodyBytes" and "sendableTrailers a ts"
  shows "yields (readChunkedLoop a sc body) (printChunked cs ts @ rest) (body @ concat cs, map_of ts) rest"
  using assms
proof (induction cs arbitrary: sc body)
  case Nil
  have zero: "hexText 0 = ''0''" by (simp add: hexText.simps hexDigit_def)
  have "yields (readLineLimited maxHeaderLineBytes) (''0'' @ [cr, lf] @ (printFields ts @ rest)) ''0'' (printFields ts @ rest)"
    using yields_sizeLine [of 0 "printFields ts @ rest"] by (simp add: zero)
  moreover have "parseChunkSize ''0'' = Inr 0" using parseChunkSize_hexText [of 0] by (simp add: zero)
  ultimately have "yields (readChunkedLoop a sc body) (''0'' @ [cr, lf] @ (printFields ts @ rest)) (body, map_of ts) rest"
    unfolding readChunkedLoop_step [of a sc body] using Nil yields_finishBody [of a body sc ts rest]
    by (auto elim!: yields_bind)
  then show ?case by (simp add: printChunked_def)
next
  case (Cons d cs)
  let ?rest = "printChunked cs ts @ rest"
  have n: "length d \<noteq> 0" "length body + length d \<le> maxBodyBytes" "length d \<le> maxBodyBytes" using Cons.prems by auto
  obtain sc' where fed: "feedOpt (newScanner a) (body @ d) = Inr sc'"
    using harmless_fed [of a "body @ d" "concat cs"] Cons.prems(2) by auto
  then have "feedOpt sc d = Inr sc'" using Cons.prems(1) by (simp add: feedOpt_append)
  then have chunk: "yields (readChunk sc (length d)) (d @ [cr, lf] @ ?rest) (sc', d) ?rest" by (rule yields_readChunk)
  have tail: "yields (readChunkedLoop a sc' (body @ d)) ?rest ((body @ d) @ concat cs, map_of ts) rest"
    using Cons.prems fed by (intro Cons.IH) auto
  have round: "yields (bindP (readChunk sc (length d)) (\<lambda>(sc', data). readChunkedLoop a sc' (body @ data)))
      (d @ [cr, lf] @ ?rest) ((body @ d) @ concat cs, map_of ts) rest"
    by (rule yields_bind [OF chunk]) (simp only: prod.case tail)
  have "yields (readChunkedLoop a sc body) (hexText (length d) @ [cr, lf] @ (d @ [cr, lf] @ ?rest)) ((body @ d) @ concat cs, map_of ts) rest"
    unfolding readChunkedLoop_step [of a sc body]
    by (rule yields_bind [OF yields_sizeLine [OF n(3)]])
      (use n parseChunkSize_hexText [OF n(3)] round in simp)
  then show ?case by (simp add: printChunked_def printChunk_def)
qed

section \<open>Requests\<close>

text \<open>The request line and the header fields of a message that is within all limits.\<close>

definition sendable :: "Automaton option \<Rightarrow> string \<Rightarrow> string \<Rightarrow> (string \<times> string) list \<Rightarrow> bool" where
  "sendable a meth path hs \<longleftrightarrow>
     isToken meth \<and> list_all graphic path \<and> isOriginForm meth path
     \<and> scanField a ''uri'' path = Inr () \<and> length meth + length path + 12 \<le> 4096
     \<and> list_all (sendableField a) hs \<and> distinct (map fst hs) \<and> length hs \<le> 63
     \<and> checkHost (map_of hs) = Inr ()"

lemma yields_parseMessage:
  assumes "sendable a meth path hs" and "checkEncoding (map_of hs) = Inr ()" and "contentLength (map_of hs) = Inr len"
    and "yields (readPayload a (map_of hs) len) p (body, trailers) rest"
  shows "yields (parseMessage a) (printRequestLine meth path @ printFields hs @ p)
    \<lparr>rMethod = meth, rPath = path, rVersion = ''HTTP/1.1'', rHeaders = map_of hs, rTrailers = trailers, rBody = body\<rparr> rest"
proof -
  have line: "yields (readRequestLine a) (printRequestLine meth path @ printFields hs @ p) (meth, path, ''HTTP/1.1'') (printFields hs @ p)"
    using assms(1) by (intro yields_readRequestLine) (auto simp: sendable_def)
  have "yields (readHeadersLoop a 0 [] Map.empty) (printFields hs @ p) (Map.empty ++ map_of hs) p"
    unfolding readHeaders_block using assms(1)
    by (intro yields_fieldBlock) (auto simp: sendable_def refuseHeader_def)
  then have headers: "yields (readHeadersLoop a 0 [] Map.empty) (printFields hs @ p) (map_of hs) p" by simp
  have host: "checkHost (map_of hs) = Inr ()" using assms(1) by (simp add: sendable_def)
  show ?thesis
    unfolding parseMessage_def
    by (rule yields_bind [OF line], simp, rule yields_bind [OF headers], rule yields_bind [OF yields_check [OF assms(2)]],
        rule yields_bind [OF yields_check [OF host]], rule yields_bind [OF yields_check [OF assms(3)]],
        rule yields_bind [OF assms(4)]) (simp add: yields_returnP)
qed

end
