(* ===== verification/Http_Properties.thy ===== *)
theory Http_Properties
  imports Http_Roundtrip
begin

text \<open>
  What the request parser promises, each property with a concrete run where it has hypotheses.
\<close>

section \<open>Examples\<close>

text \<open>A connection that delivers the given pieces and is then closed by the peer.\<close>

definition connection :: "string list \<Rightarrow> reader" where
  "connection pieces = \<lparr>buffered = [], segments = pieces, final = EOF, together = False\<rparr>"

lemma connection_clean [simp]: "clean (connection pieces)" "pending (connection pieces) = concat pieces"
  "final (connection pieces) = EOF"
  by (simp_all add: connection_def clean_def pending_def)

definition exampleRules :: "string list" where
  "exampleRules = [''<script'', ''../'']"

definition exampleHead :: "(string \<times> string) list" where
  "exampleHead = [(''Host'', ''h''), (''Content-Length'', ''2'')]"

definition exampleText :: string where
  "exampleText = printRequestLine ''POST'' ''/a?x=%31'' @ printFields exampleHead @ ''ok''"

definition exampleRequest :: Request where
  "exampleRequest = \<lparr>rMethod = ''POST'', rPath = ''/a?x=%31'', rVersion = ''HTTP/1.1'',
     rHeaders = map_of exampleHead, rTrailers = Map.empty, rBody = ''ok''\<rparr>"

definition chunkedHead :: "(string \<times> string) list" where
  "chunkedHead = [(''Host'', ''h''), (''Transfer-Encoding'', ''Chunked'')]"

lemma exampleRules_noBlank: "noBlankPattern exampleRules"
  by code_simp

lemma example_sendable: "sendable (NewPatterns id exampleRules) ''POST'' ''/a?x=%31'' exampleHead"
  by code_simp

lemma example_checks:
  "checkEncoding (map_of exampleHead) = Inr ()" "contentLength (map_of exampleHead) = Inr 2"
  "\<not> isChunked (map_of exampleHead)"
  by code_simp+

lemma example_body: "harmlessBody (NewPatterns id exampleRules) ''ok''"
  by code_simp

lemma chunked_sendable: "sendable (NewPatterns id exampleRules) ''POST'' ''/a'' chunkedHead"
  by code_simp

lemma chunked_checks:
  "checkEncoding (map_of chunkedHead) = Inr ()" "contentLength (map_of chunkedHead) = Inr 0"
  by code_simp+

lemma chunked_body: "harmlessBody (NewPatterns id exampleRules) ''hello''"
  by code_simp

lemma chunked_trailers: "sendableTrailers (NewPatterns id exampleRules) [(''X-Sum'', ''9'')]"
  by code_simp

section \<open>Shared steps\<close>

lemma parseRequest_Some:
  "parseRequest a (Some r) = (x, ro) \<longleftrightarrow> (\<exists>r'. parseMessage a r = (x, r') \<and> ro = Some r')"
  by (auto simp: parseRequest_def split: prod.splits)

lemma parseRequest_returns: "\<exists>x r'. parseRequest a (Some r) = (x, Some r')"
  by (simp add: parseRequest_def split: prod.split)

lemma parseRequest_Inr:
  assumes "parseRequest a ro = (Inr req, ro')"
  obtains r r' where "ro = Some r" and "ro' = Some r'" and "parseMessage a r = (Inr req, r')"
  using assms by (auto simp: parseRequest_def split: option.splits prod.splits)

lemma yields_sized:
  assumes "sendable a meth path hs" and "checkEncoding (map_of hs) = Inr ()" and "\<not> isChunked (map_of hs)"
    and "contentLength (map_of hs) = Inr (length body)" and "harmlessBody a body"
  shows "yields (parseMessage a) (printRequestLine meth path @ printFields hs @ body @ rest)
    \<lparr>rMethod = meth, rPath = path, rVersion = ''HTTP/1.1'', rHeaders = map_of hs, rTrailers = Map.empty, rBody = body\<rparr> rest"
proof (rule yields_parseMessage [OF assms(1,2,4)])
  show "yields (readPayload a (map_of hs) (length body)) (body @ rest) (body, Map.empty) rest"
  proof (cases "body = []")
    case True
    with assms(3) show ?thesis by (simp add: readPayload_def yields_returnP)
  next
    case False
    then show ?thesis
      using assms(3) yields_bind [OF yields_readBody [OF assms(5)] yields_returnP]
      by (simp add: readPayload_def)
  qed
qed

lemma yields_parse:
  assumes "yields (parseMessage a) s req rest" and "clean r" and "pending r = s"
  shows "\<exists>r'. parseRequest a (Some r) = (Inr req, Some r') \<and> pending r' = rest"
  using assms by (auto simp: yields_def parseRequest_Some)

lemma example_accepted:
  "\<exists>r'. parseRequest (NewPatterns id exampleRules) (Some (connection [take 9 exampleText, drop 9 exampleText]))
     = (Inr exampleRequest, Some r')"
proof -
  have "yields (parseMessage (NewPatterns id exampleRules))
      (printRequestLine ''POST'' ''/a?x=%31'' @ printFields exampleHead @ ''ok'' @ []) exampleRequest []"
    unfolding exampleRequest_def by (rule yields_sized [OF example_sendable example_checks(1,3) _ example_body])
      (simp add: example_checks)
  then have "yields (parseMessage (NewPatterns id exampleRules)) exampleText exampleRequest []"
    by (simp add: exampleText_def)
  from yields_parse [OF this, of "connection [take 9 exampleText, drop 9 exampleText]"] show ?thesis by auto
qed

section \<open>Safety of accepted requests\<close>

text \<open>
  C1. No attack passes. For every policy without blank patterns and every order of map iteration, a
  request the parser returns contains no pattern of the policy: not in its percent-decoded
  target, in no header or trailer value and not in the body, all compared in normal form.
\<close>

theorem accepted_request_has_no_attack:
  assumes "rangeOrder rng" and "noBlankPattern patterns"
    and "parseRequest (NewPatterns rng patterns) ro = (Inr req, ro')"
    and "p \<in> set patterns" and "p \<noteq> []"
  shows "\<not> sublist (Normalize p) (Normalize (decodedPath (Path req)))
    \<and> (\<forall>n v. Headers req n = Some v \<or> Trailers req n = Some v \<longrightarrow> \<not> sublist (Normalize p) (Normalize v))
    \<and> \<not> sublist (Normalize p) (Normalize (Body req))"
proof -
  let ?a = "NewPatterns rng patterns"
  obtain r r' where "parseMessage ?a r = (Inr req, r')" using parseRequest_Inr [OF assms(3)] .
  then have v: "vetted ?a req" by (rule accepted_vetted)
  note clean = scanField_clean [OF assms(1,2) _ assms(4,5)]
  have "harmlessFor ?a ''body'' (rBody req)"
    using v NewPatterns_sound [OF assms(1), of patterns] by (auto simp: vetted_def harmlessBody_def)
  then have "\<not> sublist (Normalize p) (Normalize (rBody req))"
    using harmlessFor_patterns [OF assms(1,2)] assms(4,5) by blast
  moreover have "\<not> sublist (Normalize p) (Normalize (decodedPath (rPath req)))"
    using v clean [of "''uri''"] by (simp add: vetted_def)
  moreover have "\<not> sublist (Normalize p) (Normalize w)" if "rHeaders req n = Some w \<or> rTrailers req n = Some w" for n w
    using v that clean [of "''header:'' @ n" w] by (auto simp: vetted_def)
  ultimately show ?thesis by (auto simp: Path_def Headers_def Trailers_def Body_def)
qed

theorem accepted_request_has_no_attack_witness:
  "\<exists>ro'. parseRequest (NewPatterns id exampleRules) (Some (connection [take 9 exampleText, drop 9 exampleText]))
      = (Inr exampleRequest, ro')
    \<and> \<not> sublist (Normalize ''../'') (Normalize (decodedPath (Path exampleRequest)))"
proof -
  obtain r' where r: "parseRequest (NewPatterns id exampleRules) (Some (connection [take 9 exampleText, drop 9 exampleText]))
      = (Inr exampleRequest, Some r')" using example_accepted by blast
  have "''../'' \<in> set exampleRules" by (simp add: exampleRules_def)
  from accepted_request_has_no_attack [OF rangeOrder_id exampleRules_noBlank r this] r show ?thesis by simp
qed

text \<open>
  C3. Shape and limits. A returned request has a token method, a target in origin form, version
  HTTP/1.1, canonical header names, at most 63 headers and 15 trailers, no forbidden trailer, one
  Host without blanks, and a body of at most 1 MiB.
\<close>

theorem accepted_request_well_formed:
  assumes "parseRequest a ro = (Inr req, ro')"
  shows "wellFormed req"
proof -
  obtain r r' where "parseMessage a r = (Inr req, r')" using parseRequest_Inr [OF assms] .
  with accepted_wellFormed show ?thesis by blast
qed

theorem accepted_request_well_formed_witness: "wellFormed exampleRequest"
  using example_accepted by (elim exE) (rule accepted_request_well_formed)

text \<open>
  C2. The framing is unambiguous: a returned request has not both a content length and a transfer
  encoding; the encoding is chunked; a content length is the exact number of body bytes; and
  without either the body is empty. So no message smuggles a second one.
\<close>

theorem accepted_request_framing:
  assumes "parseRequest a ro = (Inr req, ro')"
  shows "framed req"
proof -
  obtain r r' where "parseMessage a r = (Inr req, r')" using parseRequest_Inr [OF assms] .
  with accepted_wellFormed show ?thesis by blast
qed

theorem accepted_request_framing_witness: "framed exampleRequest"
  using example_accepted by (elim exE) (rule accepted_request_framing)

section \<open>Robustness\<close>

text \<open>
  C4. The parser always returns: for every policy file, environment, order of map iteration and
  input, blank patterns included, there is a request or an error, never a panic.
\<close>

theorem ParseRequest_never_panics:
  assumes "rangeOrder rng"
  shows "fst (ParseRequest rng getenv readFile ro) \<noteq> Inl Panic"
proof -
  have "sound (NewDefaultAutomaton rng getenv readFile)"
    using NewPatterns_sound [OF assms] by (simp add: NewDefaultAutomaton_def)
  from noPanic_parseMessage [OF this] show ?thesis
    by (auto simp: noPanic_def ParseRequest_def parseRequest_def split: option.split prod.split)
       (metis fst_conv)
qed

theorem ParseRequest_never_panics_witness:
  "fst (ParseRequest rev (\<lambda>_. ''policy'') (\<lambda>_. Some ''/* */'') (Some (connection [''GET / HTTP/1.1'']))) \<noteq> Inl Panic"
  by (rule ParseRequest_never_panics [OF rangeOrder_rev])

text \<open>
  C10. The network does not matter. If two readers hold the same bytes and end alike, the parser
  returns the same for both, and after a request the same bytes are left, however the bytes
  are cut into reads.
\<close>

theorem parse_independent_of_delivery:
  assumes "clean r" and "clean q" and "pending r = pending q" and "final r = final q"
    and "parseRequest a (Some r) = (x, Some r')" and "parseRequest a (Some q) = (y, Some q')"
  shows "x = y \<and> (isl x \<or> pending r' = pending q')"
  using transparentD [OF transparent_parseMessage assms(1-4)] assms(5,6) by (auto simp: parseRequest_Some)

theorem parse_independent_of_delivery_witness:
  "fst (parseRequest (NewPatterns id exampleRules) (Some (connection [''GET /'', ''<scr'', ''ipt HTTP/1.1''])))
   = fst (parseRequest (NewPatterns id exampleRules) (Some (connection [''GET /<script HTTP/1.1''])))"
proof -
  let ?r = "connection [''GET /'', ''<scr'', ''ipt HTTP/1.1'']" and ?q = "connection [''GET /<script HTTP/1.1'']"
  let ?a = "NewPatterns id exampleRules"
  obtain x r' where x: "parseRequest ?a (Some ?r) = (x, Some r')"
    using parseRequest_returns by blast
  obtain y q' where y: "parseRequest ?a (Some ?q) = (y, Some q')"
    using parseRequest_returns by blast
  have "pending ?r = pending ?q" by simp
  from parse_independent_of_delivery [OF _ _ this _ x y] x y show ?thesis by simp
qed

text \<open>
  C39. Reading is bounded: whatever the peer sends, one call takes a bounded number of bytes, in
  order, and never reads past them.
\<close>

theorem parse_reads_bounded:
  assumes "parseRequest a (Some r) = (x, Some r')"
  shows "\<exists>c. pending r = c @ pending r' \<and> length c \<le> maxMessageBytes"
proof -
  have "parseMessage a r = (x, r')" using assms by (simp add: parseRequest_Some)
  from readsD [OF reads_parseMessage this] show ?thesis by metis
qed

theorem parse_reads_bounded_witness:
  "\<exists>r' c. concat [take 9 exampleText, drop 9 exampleText] = c @ pending r' \<and> length c \<le> maxMessageBytes"
proof -
  obtain r' where r: "parseRequest (NewPatterns id exampleRules) (Some (connection [take 9 exampleText, drop 9 exampleText]))
      = (Inr exampleRequest, Some r')" using example_accepted by blast
  from parse_reads_bounded [OF r] show ?thesis by auto
qed

section \<open>Completeness\<close>

text \<open>
  C11. Round trip with a declared length: the text of a request within the limits, whose fields the
  policy does not match, parses to that request, and the bytes after it stay on the connection
  for the next request.
\<close>

theorem parse_print_sized:
  assumes "sendable a meth path hs" and "checkEncoding (map_of hs) = Inr ()" and "\<not> isChunked (map_of hs)"
    and "contentLength (map_of hs) = Inr (length body)" and "harmlessBody a body"
    and "clean r" and "pending r = printRequestLine meth path @ printFields hs @ body @ rest"
  shows "\<exists>r'. parseRequest a (Some r)
      = (Inr \<lparr>rMethod = meth, rPath = path, rVersion = ''HTTP/1.1'', rHeaders = map_of hs,
              rTrailers = Map.empty, rBody = body\<rparr>, Some r')
    \<and> pending r' = rest"
  by (rule yields_parse [OF yields_sized [OF assms(1-5)] assms(6,7)])

theorem parse_print_sized_witness:
  "\<exists>r'. parseRequest (NewPatterns id exampleRules) (Some (connection [exampleText, ''GET /next'']))
      = (Inr exampleRequest, Some r') \<and> pending r' = ''GET /next''"
proof -
  have len: "contentLength (map_of exampleHead) = Inr (length ''ok'')" using example_checks(2) by simp
  have "pending (connection [exampleText, ''GET /next'']) = printRequestLine ''POST'' ''/a?x=%31'' @ printFields exampleHead @ ''ok'' @ ''GET /next''"
    by (simp add: exampleText_def)
  from parse_print_sized [OF example_sendable example_checks(1,3) len example_body _ this]
  show ?thesis by (simp add: exampleRequest_def)
qed

text \<open>
  C12. Round trip in chunks: the same for a body sent in chunks with trailers. Chunk boundaries
  are not visible in the request.
\<close>

theorem parse_print_chunked:
  assumes "sendable a meth path hs" and "checkEncoding (map_of hs) = Inr ()"
    and "contentLength (map_of hs) = Inr 0" and "isChunked (map_of hs)"
    and "harmlessBody a (concat cs)" and "[] \<notin> set cs" and "length (concat cs) \<le> maxBodyBytes"
    and "sendableTrailers a ts"
    and "clean r" and "pending r = printRequestLine meth path @ printFields hs @ printChunked cs ts @ rest"
  shows "\<exists>r'. parseRequest a (Some r)
      = (Inr \<lparr>rMethod = meth, rPath = path, rVersion = ''HTTP/1.1'', rHeaders = map_of hs,
              rTrailers = map_of ts, rBody = concat cs\<rparr>, Some r')
    \<and> pending r' = rest"
proof -
  have "yields (readChunkedLoop a (newScanner a) []) (printChunked cs ts @ rest) ([] @ concat cs, map_of ts) rest"
    using assms by (intro yields_readChunkedLoop) simp_all
  then have "yields (readPayload a (map_of hs) 0) (printChunked cs ts @ rest) (concat cs, map_of ts) rest"
    using assms(4) by (simp add: readPayload_def readChunkedBody_def)
  from yields_parse [OF yields_parseMessage [OF assms(1-3) this] assms(9,10)] show ?thesis .
qed

theorem parse_print_chunked_witness:
  "\<exists>r'. parseRequest (NewPatterns id exampleRules)
      (Some (connection [printRequestLine ''POST'' ''/a'', printFields chunkedHead, printChunked [''hel'', ''lo''] [(''X-Sum'', ''9'')]]))
    = (Inr \<lparr>rMethod = ''POST'', rPath = ''/a'', rVersion = ''HTTP/1.1'', rHeaders = map_of chunkedHead,
            rTrailers = map_of [(''X-Sum'', ''9'')], rBody = ''hello''\<rparr>, Some r')
    \<and> pending r' = []"
proof -
  have c: "isChunked (map_of chunkedHead)" by code_simp
  have b: "harmlessBody (NewPatterns id exampleRules) (concat [''hel'', ''lo''])" using chunked_body by simp
  have l: "length (concat [''hel'', ''lo'']) \<le> maxBodyBytes" "[] \<notin> set [''hel'', ''lo'']" by (simp_all add: maxBodyBytes_def)
  show ?thesis
    using parse_print_chunked [OF chunked_sendable chunked_checks c b l(2,1) chunked_trailers, of "connection
      [printRequestLine ''POST'' ''/a'', printFields chunkedHead, printChunked [''hel'', ''lo''] [(''X-Sum'', ''9'')]]" "[]"]
    by simp
qed

text \<open>
  A chunk size is accepted exactly if the text before the first semicolon, trimmed, is a
  non-empty hexadecimal number of at most 1 MiB, and is then that number: the guard against
  overflow refuses nothing else.
\<close>

lemma parseChunkSize_exact:
  "parseChunkSize line = Inr n \<longleftrightarrow>
    sizeText line \<noteq> [] \<and> list_all (\<lambda>c. hexValue c \<noteq> None) (sizeText line)
    \<and> int n = hexval 0 (sizeText line) \<and> n \<le> 2 ^ 20"
  using parseChunkSize_Inr [of line n] by (simp add: maxBodyBytes_def)

text \<open>
  A target whose percent-encoding is broken anywhere is matched without decoding, so that an
  encoded attack in front of the broken escape is not seen.
\<close>

lemma broken_escape_hides_encoded_attack:
  "scanField (NewPatterns id [''<script'']) ''uri'' ''/?q=%3Cscript%3E'' \<noteq> Inr ()
   \<and> scanField (NewPatterns id [''<script'']) ''uri'' ''/?q=%3Cscript%3E&z=%zz'' = Inr ()"
  by code_simp

text \<open>
  The transfer coding is compared by Unicode case folding, so the Kelvin sign passes for a k.
\<close>

lemma kelvin_sign_is_chunked: "isChunkedTransferEncoding (''chun'' @ [CHR 0xE2, CHR 0x84, CHR 0xAA] @ ''ed'')"
  by code_simp

end
