(* ===== verification/Core_Metrics.thy ===== *)
theory Core_Metrics
  imports Go_Strings "HOL-Library.Word"
begin

text \<open>
  The counters of \<^verbatim>\<open>core/metrics.go\<close>: \<open>atomic.Uint64\<close> cells are 64-bit words, so that the decrement
  by adding all ones wraps as in the code. A nil \<open>*Metrics\<close> is \<open>None\<close>, on which every operation
  does nothing. The only operation with a loop, the update of the maximal duration by
  compare-and-swap, is also modelled as steps of concurrent threads.
\<close>

section \<open>Definitions\<close>

type_synonym uint64 = "64 word"

record Metrics =
  acceptedConnections :: uint64
  activeConnections :: uint64
  totalRequests :: uint64
  totalRequestDuration :: uint64
  maxRequestDuration :: uint64
  wafBlocks :: uint64
  parseRejects :: uint64
  queueRejects :: uint64
  rateLimited :: uint64
  responses2xx :: uint64
  responses3xx :: uint64
  responses4xx :: uint64
  responses5xx :: uint64

definition NewMetrics :: Metrics where
  "NewMetrics = \<lparr>acceptedConnections = 0, activeConnections = 0, totalRequests = 0,
     totalRequestDuration = 0, maxRequestDuration = 0, wafBlocks = 0, parseRejects = 0,
     queueRejects = 0, rateLimited = 0, responses2xx = 0, responses3xx = 0, responses4xx = 0,
     responses5xx = 0\<rparr>"

definition IncAcceptedConnection :: "Metrics option \<Rightarrow> Metrics option" where
  "IncAcceptedConnection = map_option (\<lambda>m. m\<lparr>acceptedConnections := acceptedConnections m + 1\<rparr>)"

definition IncActiveConnection :: "Metrics option \<Rightarrow> Metrics option" where
  "IncActiveConnection = map_option (\<lambda>m. m\<lparr>activeConnections := activeConnections m + 1\<rparr>)"

definition DecActiveConnection :: "Metrics option \<Rightarrow> Metrics option" where
  "DecActiveConnection = map_option (\<lambda>m. m\<lparr>activeConnections := activeConnections m + not 0\<rparr>)"

definition IncRequest :: "Metrics option \<Rightarrow> Metrics option" where
  "IncRequest = map_option (\<lambda>m. m\<lparr>totalRequests := totalRequests m + 1\<rparr>)"

definition IncWAFBlock :: "Metrics option \<Rightarrow> Metrics option" where
  "IncWAFBlock = map_option (\<lambda>m. m\<lparr>wafBlocks := wafBlocks m + 1\<rparr>)"

definition IncParseReject :: "Metrics option \<Rightarrow> Metrics option" where
  "IncParseReject = map_option (\<lambda>m. m\<lparr>parseRejects := parseRejects m + 1\<rparr>)"

definition IncQueueReject :: "Metrics option \<Rightarrow> Metrics option" where
  "IncQueueReject = map_option (\<lambda>m. m\<lparr>queueRejects := queueRejects m + 1\<rparr>)"

definition IncRateLimited :: "Metrics option \<Rightarrow> Metrics option" where
  "IncRateLimited = map_option (\<lambda>m. m\<lparr>rateLimited := rateLimited m + 1\<rparr>)"

definition RecordResponse :: "int \<Rightarrow> Metrics option \<Rightarrow> Metrics option" where
  "RecordResponse status = map_option (\<lambda>m.
    if 200 \<le> status \<and> status < 300 then m\<lparr>responses2xx := responses2xx m + 1\<rparr>
    else if 300 \<le> status \<and> status < 400 then m\<lparr>responses3xx := responses3xx m + 1\<rparr>
    else if 400 \<le> status \<and> status < 500 then m\<lparr>responses4xx := responses4xx m + 1\<rparr>
    else if 500 \<le> status then m\<lparr>responses5xx := responses5xx m + 1\<rparr>
    else m)"

text \<open>
  A duration is a number of nanoseconds. Without interference the compare-and-swap of the loop
  succeeds in the first round.
\<close>

definition micros :: "int \<Rightarrow> uint64" where
  "micros duration = word_of_int (duration div 1000)"

definition RecordRequestDuration :: "int \<Rightarrow> Metrics option \<Rightarrow> Metrics option" where
  "RecordRequestDuration duration = map_option (\<lambda>m.
    if duration < 0 then m
    else
     (let us = micros duration;
          m1 = m\<lparr>totalRequestDuration := totalRequestDuration m + us\<rparr>
      in if us \<le> maxRequestDuration m1 then m1 else m1\<lparr>maxRequestDuration := us\<rparr>))"

section \<open>The gauge of active connections\<close>

lemma Dec_Inc_active [simp]: "DecActiveConnection (IncActiveConnection m) = m"
  by (cases m) (simp_all add: DecActiveConnection_def IncActiveConnection_def)

lemma active_frame [simp]:
  "map_option activeConnections (IncRequest m) = map_option activeConnections m"
  "map_option activeConnections (IncWAFBlock m) = map_option activeConnections m"
  "map_option activeConnections (IncParseReject m) = map_option activeConnections m"
  "map_option activeConnections (RecordResponse s m) = map_option activeConnections m"
  "map_option activeConnections (RecordRequestDuration d m) = map_option activeConnections m"
  by (cases m; simp add: IncRequest_def IncWAFBlock_def IncParseReject_def RecordResponse_def
      RecordRequestDuration_def Let_def)+

section \<open>Concurrent recording of the maximum\<close>

text \<open>
  The threads that run \<open>RecordRequestDuration\<close> at the same time, each with the microseconds it
  records: before its load, after it has loaded \<open>current\<close>, and after it has returned. Every
  transition is one atomic access to the shared cell.
\<close>

datatype thread = Loading uint64 | Loaded uint64 uint64 | Returned uint64

fun recorded :: "thread \<Rightarrow> uint64" where
  "recorded (Loading us) = us"
| "recorded (Loaded us current) = us"
| "recorded (Returned us) = us"

inductive casStep :: "uint64 \<times> thread list \<Rightarrow> uint64 \<times> thread list \<Rightarrow> bool" where
  load: "i < length ts \<Longrightarrow> ts ! i = Loading us \<Longrightarrow> casStep (cell, ts) (cell, ts[i := Loaded us cell])"
| below: "i < length ts \<Longrightarrow> ts ! i = Loaded us current \<Longrightarrow> us \<le> current \<Longrightarrow>
    casStep (cell, ts) (cell, ts[i := Returned us])"
| swapped: "i < length ts \<Longrightarrow> ts ! i = Loaded us current \<Longrightarrow> \<not> us \<le> current \<Longrightarrow> cell = current \<Longrightarrow>
    casStep (cell, ts) (us, ts[i := Returned us])"
| failed: "i < length ts \<Longrightarrow> ts ! i = Loaded us current \<Longrightarrow> \<not> us \<le> current \<Longrightarrow> cell \<noteq> current \<Longrightarrow>
    casStep (cell, ts) (cell, ts[i := Loading us])"

inductive_cases casStepE: "casStep s s'"

text \<open>What a thread knows of the cell: it only grows.\<close>

fun settled :: "uint64 \<Rightarrow> thread \<Rightarrow> bool" where
  "settled cell (Loading us) = True"
| "settled cell (Loaded us current) = (current \<le> cell)"
| "settled cell (Returned us) = (us \<le> cell)"

lemma settled_mono: "settled cell t \<Longrightarrow> cell \<le> cell' \<Longrightarrow> settled cell' t"
  by (cases t) auto

definition casInv :: "uint64 \<Rightarrow> thread list \<Rightarrow> uint64 \<times> thread list \<Rightarrow> bool" where
  "casInv init ts0 s \<longleftrightarrow>
     map recorded (snd s) = map recorded ts0
     \<and> init \<le> fst s \<and> (fst s = init \<or> fst s \<in> recorded ` set (snd s))
     \<and> list_all (settled (fst s)) (snd s)"

lemma casInv_init: "casInv init ts (init, ts)" if "\<forall>t \<in> set ts. \<exists>us. t = Loading us"
  using that by (auto simp: casInv_def list_all_iff)

text \<open>Replacing one thread by a later state of itself.\<close>

lemma casInv_update:
  assumes inv: "casInv init ts0 (cell, ts)" and i: "i < length ts" and same: "recorded x = recorded (ts ! i)"
    and up: "cell \<le> cell'" and origin: "cell' = cell \<or> cell' = recorded x"
    and x: "settled cell' x"
  shows "casInv init ts0 (cell', ts[i := x])"
proof -
  have rec: "map recorded (ts[i := x]) = map recorded ts"
    using i same by (simp add: map_update list_update_same_conv)
  then have img: "recorded ` set (ts[i := x]) = recorded ` set ts" by (metis list.set_map)
  have "recorded x \<in> recorded ` set ts" using i same by auto
  moreover have "settled cell' t" if "t \<in> set (ts[i := x])" for t
  proof (cases "t = x")
    case False
    with that have "t \<in> set ts" using set_update_subset_insert by fastforce
    with inv up settled_mono show ?thesis by (auto simp: casInv_def list_all_iff)
  qed (use x in simp)
  ultimately show ?thesis using inv up origin rec img by (auto simp: casInv_def list_all_iff)
qed

lemma casInv_step: "casStep s s' \<Longrightarrow> casInv init ts0 s \<Longrightarrow> casInv init ts0 s'"
proof (induction rule: casStep.induct)
  case (below i ts us current cell)
  have "Loaded us current \<in> set ts" using below(1,2) nth_mem by fastforce
  then have "current \<le> cell" using below(4) by (auto simp: casInv_def list_all_iff)
  with below show ?case by (intro casInv_update [where cell = cell]) auto
next
  case (swapped i ts us current cell)
  then show ?case by (intro casInv_update [where cell = cell]) auto
qed (auto intro!: casInv_update)

lemma casInv_reach: "casStep\<^sup>*\<^sup>* s s' \<Longrightarrow> casInv init ts0 s \<Longrightarrow> casInv init ts0 s'"
  by (induction rule: rtranclp_induct) (auto intro: casInv_step)

text \<open>Every schedule ends: a retry is paid for by the success of another thread.\<close>

fun weight :: "uint64 \<Rightarrow> thread \<Rightarrow> nat" where
  "weight cell (Loading us) = 2"
| "weight cell (Loaded us current) = (if current = cell then 1 else 3)"
| "weight cell (Returned us) = 0"

fun running :: "thread \<Rightarrow> nat" where
  "running (Returned us) = 0"
| "running _ = 1"

lemma sum_list_update_less:
  "i < length ts \<Longrightarrow> f x < f (ts ! i) \<Longrightarrow> sum_list (map f (ts[i := x])) < sum_list (map f ts)" for f :: "'a \<Rightarrow> nat"
proof (induction ts arbitrary: i)
  case (Cons t ts)
  then show ?case by (cases i) auto
qed simp

lemma sum_list_update_same:
  "i < length ts \<Longrightarrow> f x = f (ts ! i) \<Longrightarrow> sum_list (map f (ts[i := x])) = sum_list (map f ts)" for f :: "'a \<Rightarrow> nat"
proof (induction ts arbitrary: i)
  case (Cons t ts)
  then show ?case by (cases i) auto
qed simp

lemma casStep_decreases:
  "casStep s s' \<Longrightarrow>
   (s', s) \<in> measures [\<lambda>(cell, ts). sum_list (map running ts), \<lambda>(cell, ts). sum_list (map (weight cell) ts)]"
proof (induction rule: casStep.induct)
  case (load i ts us cell)
  then have "sum_list (map running (ts[i := Loaded us cell])) = sum_list (map running ts)"
    by (intro sum_list_update_same) auto
  moreover have "sum_list (map (weight cell) (ts[i := Loaded us cell])) < sum_list (map (weight cell) ts)"
    using load by (intro sum_list_update_less) auto
  ultimately show ?case by simp
next
  case (below i ts us current cell)
  then have "sum_list (map running (ts[i := Returned us])) < sum_list (map running ts)"
    by (intro sum_list_update_less) auto
  then show ?case by simp
next
  case (swapped i ts us current cell)
  then have "sum_list (map running (ts[i := Returned us])) < sum_list (map running ts)"
    by (intro sum_list_update_less) auto
  then show ?case by simp
next
  case (failed i ts us current cell)
  then have "sum_list (map running (ts[i := Loading us])) = sum_list (map running ts)"
    by (intro sum_list_update_same) auto
  moreover have "sum_list (map (weight cell) (ts[i := Loading us])) < sum_list (map (weight cell) ts)"
    using failed by (intro sum_list_update_less) auto
  ultimately show ?case by simp
qed

lemma casStep_wf: "wfp (\<lambda>s' s. casStep s s')"
proof -
  have "{(s', s). casStep s s'} \<subseteq> measures [\<lambda>(cell, ts). sum_list (map running ts), \<lambda>(cell, ts). sum_list (map (weight cell) ts)]"
    using casStep_decreases by auto
  then show ?thesis unfolding wfp_def by (rule wf_subset [OF wf_measures])
qed

lemma casStep_progress:
  assumes "t \<in> set ts" and "running t = 1"
  shows "\<exists>s'. casStep (cell, ts) s'"
proof -
  obtain i where i: "i < length ts" "ts ! i = t" using assms(1) by (auto simp: in_set_conv_nth)
  show ?thesis
  proof (cases t)
    case (Loading us)
    with i casStep.load show ?thesis by blast
  next
    case (Loaded us current)
    with i casStep.below casStep.swapped casStep.failed show ?thesis by metis
  qed (use assms in simp)
qed

section \<open>Properties\<close>

lemma casMax:
  assumes "casStep\<^sup>*\<^sup>* (init, map Loading durations) (cell, ts)" and "list_all (\<lambda>t. running t = 0) ts"
  shows "cell = Max (insert init (set durations))"
proof -
  have inv: "casInv init (map Loading durations) (cell, ts)"
    using casInv_reach [OF assms(1) casInv_init] by auto
  have ts: "map recorded ts = durations" using inv by (simp add: casInv_def o_def)
  then have set: "recorded ` set ts = set durations" by (metis list.set_map)
  have fin: "\<exists>us. t = Returned us" if "t \<in> set ts" for t
    using assms(2) that by (cases t) (auto simp: list_all_iff)
  have "us \<le> cell" if us: "us \<in> set durations" for us
  proof -
    obtain t where "t \<in> set ts" "recorded t = us" using us set by (metis imageE)
    with fin inv show ?thesis by (fastforce simp: casInv_def list_all_iff)
  qed
  moreover have "init \<le> cell" "cell = init \<or> cell \<in> set durations" using inv set by (auto simp: casInv_def)
  ultimately show ?thesis by (intro Max_eqI [symmetric]) auto
qed

text \<open>
  C38. However the threads that record a duration are interleaved, their compare-and-swap loops end, without any
  assumption of fairness: no sequence of steps is infinite, a step is possible as long as a thread has not returned, and when all
  have returned the shared cell holds the maximum of its old value and all recorded durations, so that no update is lost.
\<close>

theorem concurrent_max_is_exact:
  assumes "casStep\<^sup>*\<^sup>* (init, map Loading durations) (cell, ts)"
  shows "wfp (\<lambda>s' s. casStep s s')
    \<and> ((\<nexists>s'. casStep (cell, ts) s') \<longrightarrow> list_all (\<lambda>t. running t = 0) ts)
    \<and> (list_all (\<lambda>t. running t = 0) ts \<longrightarrow> cell = Max (insert init (set durations)))"
proof -
  have "list_all (\<lambda>t. running t = 0) ts" if "\<nexists>s'. casStep (cell, ts) s'"
  proof -
    have "running t = 0" if "t \<in> set ts" for t
      using that casStep_progress [of t ts cell] \<open>\<nexists>s'. casStep (cell, ts) s'\<close> by (cases t rule: thread.exhaust) auto
    then show ?thesis by (simp add: list_all_iff)
  qed
  then show ?thesis using casStep_wf casMax [OF assms] by blast
qed

theorem concurrent_max_is_exact_witness:
  "casStep\<^sup>*\<^sup>* (3, map Loading [7]) (7, [Returned 7]) \<and> (7 :: uint64) = Max (insert 3 (set [7]))"
proof -
  have "casStep (3, [Loading 7]) (3, [Loading 7][0 := Loaded 7 3])" by (rule casStep.load) auto
  moreover have "casStep (3, [Loaded 7 3]) (7, [Loaded 7 3][0 := Returned 7])" by (rule casStep.swapped) auto
  ultimately have run: "casStep\<^sup>*\<^sup>* (3, map Loading [7]) (7, [Returned 7])" by simp
  from concurrent_max_is_exact [OF run] run show ?thesis by simp
qed

end
