(* ===== verification/Core_Response.thy ===== *)
theory Core_Response
  imports Http_Parser Core_Metrics
begin

text \<open>
  The response writer of \<^verbatim>\<open>core/response.go\<close> on the sending side of a connection. The state
  \<open>world\<close> holds what every operation on a connection can touch: the bytes sent, how the coming
  writes will end, the shared metrics, whether the connection is closed, and the log. The
  formatted time of a response is an argument.
\<close>

section \<open>The world of a connection\<close>

text \<open>
  How a write ends: setting the deadline may fail, and the write may fail after some bytes went
  out. The events are the structured log lines of \<^verbatim>\<open>core/logging.go\<close>, the log
  lines of \<^verbatim>\<open>core/connection.go\<close> and those of the handlers, without their rendering as text and
  without the time, the remote address and the duration they carry.
\<close>

record attempt =
  deadlineFails :: bool
  writeFails :: "nat option"

datatype logEvent =
    NewConnection
  | DeadlineFailed
  | RouterMissing
  | SecurityEvent string string string int
  | ParseRejectEvent error int
  | RequestEvent string string string bool
  | AccessEvent string string int int
  | HandlerLog string

record world =
  sent :: string
  attempts :: "attempt list"
  metrics :: "Metrics option"
  closed :: bool
  events :: "logEvent list"

definition logSecurityEvent :: "string \<Rightarrow> string \<Rightarrow> string \<Rightarrow> int \<Rightarrow> world \<Rightarrow> world" where
  "logSecurityEvent field pattern rule status s = s\<lparr>events := events s @ [SecurityEvent field pattern rule status]\<rparr>"

definition logParseReject :: "error \<Rightarrow> int \<Rightarrow> world \<Rightarrow> world" where
  "logParseReject reason status s = s\<lparr>events := events s @ [ParseRejectEvent reason status]\<rparr>"

definition logAccessEvent :: "Request \<Rightarrow> int \<Rightarrow> int \<Rightarrow> world \<Rightarrow> world" where
  "logAccessEvent req status n s = s\<lparr>events := events s @ [AccessEvent (Method req) (Path req) status n]\<rparr>"

section \<open>Status codes\<close>

record StatusCode =
  Code :: int
  Reason :: string
  StatusBody :: string

definition StatusOK :: StatusCode where
  "StatusOK = \<lparr>Code = 200, Reason = ''OK'', StatusBody = ''OK'' @ [lf]\<rparr>"
definition StatusBadRequest :: StatusCode where
  "StatusBadRequest = \<lparr>Code = 400, Reason = ''Bad Request'', StatusBody = ''Bad Request'' @ [lf]\<rparr>"
definition StatusForbidden :: StatusCode where
  "StatusForbidden = \<lparr>Code = 403, Reason = ''Forbidden'', StatusBody = ''Forbidden'' @ [lf]\<rparr>"
definition StatusNotFound :: StatusCode where
  "StatusNotFound = \<lparr>Code = 404, Reason = ''Not Found'', StatusBody = ''Not Found'' @ [lf]\<rparr>"
definition StatusMethodNotAllowed :: StatusCode where
  "StatusMethodNotAllowed = \<lparr>Code = 405, Reason = ''Method Not Allowed'', StatusBody = ''Method Not Allowed'' @ [lf]\<rparr>"
definition StatusTooManyRequests :: StatusCode where
  "StatusTooManyRequests = \<lparr>Code = 429, Reason = ''Too Many Requests'', StatusBody = ''Too Many Requests'' @ [lf]\<rparr>"
definition StatusInternalServerError :: StatusCode where
  "StatusInternalServerError = \<lparr>Code = 500, Reason = ''Internal Server Error'', StatusBody = ''Internal Server Error'' @ [lf]\<rparr>"
definition StatusServiceUnavailable :: StatusCode where
  "StatusServiceUnavailable = \<lparr>Code = 503, Reason = ''Service Unavailable'', StatusBody = ''Service Unavailable'' @ [lf]\<rparr>"

section \<open>The writer\<close>

text \<open>Times are nanoseconds. \<open>hasConn\<close> tells whether the connection of the writer is not nil, \<open>hasMetrics\<close>
  whether its metrics are: they are then those of the world, which may be nil as well.\<close>

record ResponseOptions =
  optWriteTimeout :: int
  optMetrics :: bool
  optKeepAlive :: bool
  optKeepAliveTimeout :: int
  optKeepAliveMaxRequests :: int

record ResponseWriter =
  hasConn :: bool
  httpVersion :: string
  writeTimeout :: int
  hasMetrics :: bool
  keepAlive :: bool
  keepAliveTimeout :: int
  keepAliveMaxRequests :: int
  wrote :: bool
  statusCode :: int
  bytesOut :: int

datatype writeError = NotConfigured | AlreadyWritten | DeadlineError | WriteError

definition noOptions :: ResponseOptions where
  "noOptions = \<lparr>optWriteTimeout = 0, optMetrics = False, optKeepAlive = False, optKeepAliveTimeout = 0, optKeepAliveMaxRequests = 0\<rparr>"

definition NewResponseWriterWithOptions :: "bool \<Rightarrow> string \<Rightarrow> ResponseOptions \<Rightarrow> ResponseWriter" where
  "NewResponseWriterWithOptions conn version options =
    \<lparr>hasConn = conn, httpVersion = (if version = [] then ''HTTP/1.1'' else version),
     writeTimeout = optWriteTimeout options, hasMetrics = optMetrics options, keepAlive = optKeepAlive options,
     keepAliveTimeout = optKeepAliveTimeout options,
     keepAliveMaxRequests = optKeepAliveMaxRequests options,
     wrote = False, statusCode = 0, bytesOut = 0\<rparr>"

definition NewResponseWriter :: "bool \<Rightarrow> string \<Rightarrow> ResponseWriter" where
  "NewResponseWriter conn version = NewResponseWriterWithOptions conn version noOptions"

text \<open>
  \<open>int(d.Seconds())\<close>: whole seconds, exact for the durations below 2 to the 22 seconds, where the
  sum of seconds and fraction in \<open>Seconds\<close> does not round up.
\<close>

definition wholeSeconds :: "int \<Rightarrow> int" where
  "wholeSeconds d = (if d < 0 then - (- d div 1000000000) else d div 1000000000)"

definition responseHead :: "ResponseWriter \<Rightarrow> string \<Rightarrow> StatusCode \<Rightarrow> string \<Rightarrow> nat \<Rightarrow> string" where
  "responseHead w date status contentType len =
    (let connectionHeader = (if keepAlive w then ''keep-alive'' else ''close'');
         keepAliveHeader =
           (if keepAlive w
            then ''Keep-Alive: timeout='' @ Itoa (wholeSeconds (keepAliveTimeout w))
                   @ '', max='' @ Itoa (keepAliveMaxRequests w) @ [cr, lf]
            else [])
     in httpVersion w @ [sp] @ Itoa (Code status) @ [sp] @ Reason status @ [cr, lf]
        @ ''Date: '' @ date @ [cr, lf] @ ''Server: MTWS'' @ [cr, lf]
        @ ''Content-Type: '' @ contentType @ [cr, lf]
        @ ''X-Content-Type-Options: nosniff'' @ [cr, lf]
        @ ''Content-Length: '' @ Itoa (int len) @ [cr, lf]
        @ ''Connection: '' @ connectionHeader @ [cr, lf] @ keepAliveHeader @ [cr, lf])"

definition nextAttempt :: "attempt list \<Rightarrow> attempt \<times> attempt list" where
  "nextAttempt plan = (case plan of [] \<Rightarrow> (\<lparr>deadlineFails = False, writeFails = None\<rparr>, []) | a # rest \<Rightarrow> (a, rest))"

definition writeResponse ::
    "string \<Rightarrow> StatusCode \<Rightarrow> string \<Rightarrow> string \<Rightarrow> ResponseWriter \<times> world
     \<Rightarrow> writeError option \<times> ResponseWriter \<times> world" where
  "writeResponse date status contentType body = (\<lambda>(w, s).
    if \<not> hasConn w then (Some NotConfigured, w, s)
    else if wrote w then (Some AlreadyWritten, w, s)
    else
     (let (a, plan) = nextAttempt (attempts s); s1 = s\<lparr>attempts := plan\<rparr> in
      if 0 < writeTimeout w \<and> deadlineFails a then (Some DeadlineError, w, s1)
      else
       (let response = responseHead w date status contentType (length body) @ body in
        case writeFails a of
          Some n \<Rightarrow> (Some WriteError, w, s1\<lparr>sent := sent s1 @ take n response\<rparr>)
        | None \<Rightarrow>
           (None, w\<lparr>wrote := True, statusCode := Code status, bytesOut := int (length response)\<rparr>,
            s1\<lparr>sent := sent s1 @ response, metrics := (if hasMetrics w then RecordResponse (Code status) (metrics s1) else metrics s1)\<rparr>))))"

definition WriteText ::
    "string \<Rightarrow> StatusCode \<Rightarrow> string \<Rightarrow> ResponseWriter \<times> world \<Rightarrow> writeError option \<times> ResponseWriter \<times> world" where
  "WriteText date status body =
    writeResponse date status ''text/plain; charset=utf-8'' (if body = [] then StatusBody status else body)"

definition WriteBytes ::
    "string \<Rightarrow> StatusCode \<Rightarrow> string \<Rightarrow> string \<Rightarrow> ResponseWriter \<times> world \<Rightarrow> writeError option \<times> ResponseWriter \<times> world" where
  "WriteBytes date status contentType body =
    writeResponse date status (if contentType = [] then ''application/octet-stream'' else contentType) body"

definition writeErrorResponseWithOptions :: "string \<Rightarrow> string \<Rightarrow> StatusCode \<Rightarrow> ResponseOptions \<Rightarrow> world \<Rightarrow> world" where
  "writeErrorResponseWithOptions date version status options s =
    snd (snd (WriteText date status (StatusBody status) (NewResponseWriterWithOptions True version options, s)))"

definition writeErrorResponse :: "string \<Rightarrow> string \<Rightarrow> StatusCode \<Rightarrow> world \<Rightarrow> world" where
  "writeErrorResponse date version status s = writeErrorResponseWithOptions date version status noOptions s"

definition Wrote :: "ResponseWriter \<Rightarrow> bool" where "Wrote w = wrote w"
definition writerStatus :: "ResponseWriter \<Rightarrow> int" where "writerStatus w = statusCode w"
definition BytesWritten :: "ResponseWriter \<Rightarrow> int" where "BytesWritten w = bytesOut w"

section \<open>Lines of the head\<close>

definition headLines :: "ResponseWriter \<Rightarrow> string \<Rightarrow> StatusCode \<Rightarrow> string \<Rightarrow> nat \<Rightarrow> string list" where
  "headLines w date status contentType len =
    [httpVersion w @ [sp] @ Itoa (Code status) @ [sp] @ Reason status, ''Date: '' @ date, ''Server: MTWS'',
     ''Content-Type: '' @ contentType, ''X-Content-Type-Options: nosniff'', ''Content-Length: '' @ Itoa (int len),
     ''Connection: '' @ (if keepAlive w then ''keep-alive'' else ''close'')]
    @ (if keepAlive w
       then [''Keep-Alive: timeout='' @ Itoa (wholeSeconds (keepAliveTimeout w)) @ '', max='' @ Itoa (keepAliveMaxRequests w)]
       else [])"

lemma responseHead_lines:
  "responseHead w date status contentType len
   = concat (map (\<lambda>l. l @ [cr, lf]) (headLines w date status contentType len)) @ [cr, lf]"
  by (simp add: responseHead_def headLines_def)

text \<open>The inputs of a head hold no line break.\<close>

definition plainText :: "string \<Rightarrow> bool" where
  "plainText s \<longleftrightarrow> cr \<notin> set s \<and> lf \<notin> set s"

lemma plainText_append [simp]: "plainText (x @ y) \<longleftrightarrow> plainText x \<and> plainText y"
  by (auto simp: plainText_def)

lemma Itoa_no_break [simp]: "cr \<notin> set (Itoa n)" "lf \<notin> set (Itoa n)"
  using Itoa_set [of cr n] Itoa_set [of lf n] by (auto simp: isDigit_def)

lemma plainText_Itoa [simp]: "plainText (Itoa n)"
  by (simp add: plainText_def)

lemma headLines_plain:
  assumes "plainText (httpVersion w)" and "plainText (Reason status)" and "plainText date" and "plainText contentType"
  shows "list_all (\<lambda>l. plainText l \<and> l \<noteq> []) (headLines w date status contentType len)"
  using assms by (simp add: headLines_def plainText_def)

section \<open>Reading a response\<close>

text \<open>
  How a client takes a response from the stream: lines up to the empty one, then as many bytes as
  the content length says.
\<close>

fun takeLine :: "string \<Rightarrow> (string \<times> string) option" where
  "takeLine (a # b # s) = (if a = cr \<and> b = lf then Some ([], s) else map_option (\<lambda>(l, r). (a # l, r)) (takeLine (b # s)))"
| "takeLine _ = None"

lemma takeLine_shorter: "takeLine s = Some (l, r) \<Longrightarrow> length r < length s"
  by (induction s arbitrary: l r rule: takeLine.induct) (auto split: if_splits)

lemma takeLine_plain: "plainText l \<Longrightarrow> takeLine (l @ [cr, lf] @ s) = Some (l, s)"
proof (induction l)
  case (Cons a l)
  then have "takeLine (l @ [cr, lf] @ s) = Some (l, s)" by (auto simp: plainText_def)
  moreover have "a \<noteq> cr" using Cons.prems by (auto simp: plainText_def)
  ultimately show ?case by (cases l) auto
qed simp

function clientHead :: "string \<Rightarrow> (string list \<times> string) option" where
  "clientHead s =
    (case takeLine s of
       None \<Rightarrow> None
     | Some (l, r) \<Rightarrow> if l = [] then Some ([], r) else map_option (\<lambda>(ls, t). (l # ls, t)) (clientHead r))"
  by pat_completeness auto
termination
  by (relation "measure length") (auto dest: takeLine_shorter)

declare clientHead.simps [simp del]

definition declaredLength :: "string list \<Rightarrow> int option" where
  "declaredLength ls =
    map_option (\<lambda>l. decval (drop 16 l)) (find (\<lambda>l. HasPrefix l ''Content-Length: '') ls)"

definition clientRead :: "string \<Rightarrow> (string list \<times> string \<times> string) option" where
  "clientRead s =
    (case clientHead s of
       None \<Rightarrow> None
     | Some (ls, r) \<Rightarrow>
        (case declaredLength ls of
           None \<Rightarrow> None
         | Some n \<Rightarrow> if int (length r) < n then None else Some (ls, take (nat n) r, drop (nat n) r)))"

lemma clientHead_lines:
  "list_all (\<lambda>l. plainText l \<and> l \<noteq> []) ls \<Longrightarrow>
   clientHead (concat (map (\<lambda>l. l @ [cr, lf]) ls) @ [cr, lf] @ s) = Some (ls, s)"
proof (induction ls)
  case Nil
  then show ?case by (simp add: clientHead.simps)
next
  case (Cons l ls)
  let ?r = "concat (map (\<lambda>l. l @ [cr, lf]) ls) @ [cr, lf] @ s"
  have "takeLine (l @ [cr, lf] @ ?r) = Some (l, ?r)" using Cons.prems by (intro takeLine_plain) simp
  with Cons show ?case by (simp add: clientHead.simps [of "l @ cr # lf # _"])
qed

lemma declaredLength_head:
  assumes "\<not> HasPrefix (httpVersion w) ''C''" and "httpVersion w \<noteq> []"
  shows "declaredLength (headLines w date status contentType len) = Some (int len)"
proof -
  have "\<not> HasPrefix (httpVersion w @ x) ''Content-Length: ''" for x
    using assms by (cases "httpVersion w") (auto simp: HasPrefix_def)
  then show ?thesis
    using digits_spec [of len] by (simp add: declaredLength_def headLines_def HasPrefix_def Itoa_nat)
qed

lemma clientRead_response:
  assumes "plainText (httpVersion w)" and "httpVersion w \<noteq> []" and "\<not> HasPrefix (httpVersion w) ''C''"
    and "plainText (Reason status)" and "plainText date" and "plainText contentType"
  shows "clientRead (responseHead w date status contentType (length body) @ body @ rest)
    = Some (headLines w date status contentType (length body), body, rest)"
proof -
  have "clientHead (responseHead w date status contentType (length body) @ body @ rest)
      = Some (headLines w date status contentType (length body), body @ rest)"
    using clientHead_lines [OF headLines_plain [OF assms(1,4-6)], of "length body" "body @ rest"]
    by (simp add: responseHead_lines)
  with declaredLength_head [OF assms(3,2)] show ?thesis by (simp add: clientRead_def)
qed

end
