(* ===== verification/Core_Router.thy ===== *)
theory Core_Router
  imports Core_Response
begin

text \<open>
  The router of \<^verbatim>\<open>core/router.go\<close>. A handler maps the request and the writer with the world of
  its connection to their new state; the date it may print is an argument. A nil handler, router
  or path is refused or ignored as in the code.
\<close>

section \<open>Definitions\<close>

type_synonym handler = "string \<Rightarrow> Request \<Rightarrow> ResponseWriter \<times> world \<Rightarrow> ResponseWriter \<times> world"

record prefixRoute =
  prefixOf :: string
  prefixHandler :: handler

record Router =
  routes :: "string \<rightharpoonup> handler"
  prefixRoutes :: "prefixRoute list"

definition NewRouter :: Router where
  "NewRouter = \<lparr>routes = Map.empty, prefixRoutes = []\<rparr>"

definition Handle :: "string \<Rightarrow> handler option \<Rightarrow> Router option \<Rightarrow> Router option" where
  "Handle path h ro =
    (case (ro, h) of
       (Some r, Some f) \<Rightarrow> if path = [] then ro else Some (r\<lparr>routes := (routes r)(path \<mapsto> f)\<rparr>)
     | _ \<Rightarrow> ro)"

definition HandlePrefix :: "string \<Rightarrow> handler option \<Rightarrow> Router option \<Rightarrow> Router option" where
  "HandlePrefix p h ro =
    (case (ro, h) of
       (Some r, Some f) \<Rightarrow>
         if p = [] then ro else Some (r\<lparr>prefixRoutes := prefixRoutes r @ [\<lparr>prefixOf = p, prefixHandler = f\<rparr>]\<rparr>)
     | _ \<Rightarrow> ro)"

definition ServeHTTP :: "Router \<Rightarrow> handler" where
  "ServeHTTP r date req ws =
    (let (path, _, _) = Cut (Path req) (CHR ''?'') in
     case routes r path of
       Some h \<Rightarrow> h date req ws
     | None \<Rightarrow>
        (case find (\<lambda>route. HasPrefix path (prefixOf route)) (prefixRoutes r) of
           Some route \<Rightarrow> prefixHandler route date req ws
         | None \<Rightarrow> snd (WriteText date StatusNotFound (StatusBody StatusNotFound) ws)))"

section \<open>What a handler may do\<close>

text \<open>
  The contract between the connection loop and its handlers: a handler acts on the connection only
  by calling its writer, any number of times, and may write to the log.
\<close>

inductive acts :: "ResponseWriter \<times> world \<Rightarrow> ResponseWriter \<times> world \<Rightarrow> bool" where
  stay: "acts ws ws"
| writes: "acts ws ws' \<Longrightarrow> acts ws (snd (writeResponse date status contentType body ws'))"
| logs: "acts ws (w, s) \<Longrightarrow> acts ws (w, s\<lparr>events := events s @ [HandlerLog message]\<rparr>)"

lemma acts_trans: "acts y z \<Longrightarrow> acts x y \<Longrightarrow> acts x z"
  by (induction rule: acts.induct) (auto intro: acts.intros)

lemma acts_WriteText: "acts ws (snd (WriteText date status body ws))"
  unfolding WriteText_def by (rule acts.writes [OF acts.stay])

lemma acts_WriteBytes: "acts ws (snd (WriteBytes date status contentType body ws))"
  unfolding WriteBytes_def by (rule acts.writes [OF acts.stay])

locale answering =
  fixes h :: handler
  assumes answers: "acts ws (h date req ws)"

text \<open>A router all of whose handlers keep the contract keeps it itself.\<close>

locale answering_router =
  fixes r :: Router
  assumes exact: "routes r path = Some h \<Longrightarrow> answering h"
    and prefixed: "route \<in> set (prefixRoutes r) \<Longrightarrow> answering (prefixHandler route)"
begin

lemma ServeHTTP_acts: "acts ws (ServeHTTP r date req ws)"
proof -
  obtain path q found where cut: "Cut (Path req) (CHR ''?'') = (path, q, found)" by (metis prod_cases3)
  consider (found) h where "routes r path = Some h"
    | (pre) route where "routes r path = None" "find (\<lambda>route. HasPrefix path (prefixOf route)) (prefixRoutes r) = Some route"
    | (none) "routes r path = None" "find (\<lambda>route. HasPrefix path (prefixOf route)) (prefixRoutes r) = None"
    by (metis not_None_eq)
  then show ?thesis
  proof cases
    case found
    with answering.answers [OF exact] cut show ?thesis by (simp add: ServeHTTP_def)
  next
    case pre
    then have "route \<in> set (prefixRoutes r)" by (auto simp: find_Some_iff)
    with answering.answers [OF prefixed] pre cut show ?thesis by (simp add: ServeHTTP_def)
  next
    case none
    with cut acts_WriteText show ?thesis by (simp add: ServeHTTP_def)
  qed
qed

end

sublocale answering_router \<subseteq> served: answering "ServeHTTP r"
  by unfold_locales (rule ServeHTTP_acts)

lemma answering_empty: "answering_router NewRouter"
  by unfold_locales (simp_all add: NewRouter_def)

lemma answering_Handle:
  assumes "answering_router r" and "answering h" and "Handle path (Some h) (Some r) = Some r'"
  shows "answering_router r'"
  using assms unfolding answering_router_def Handle_def by (auto split: if_splits)

lemma answering_HandlePrefix:
  assumes "answering_router r" and "answering h" and "HandlePrefix p (Some h) (Some r) = Some r'"
  shows "answering_router r'"
  using assms unfolding answering_router_def HandlePrefix_def by (auto split: if_splits)

section \<open>Effects of a handler\<close>

definition isAccess :: "logEvent \<Rightarrow> bool" where
  "isAccess e = (case e of AccessEvent _ _ _ _ \<Rightarrow> True | _ \<Rightarrow> False)"

text \<open>What every operation of a writer leaves alone.\<close>

definition sendsOnly :: "ResponseWriter \<times> world \<Rightarrow> ResponseWriter \<times> world \<Rightarrow> bool" where
  "sendsOnly ws ws' \<longleftrightarrow>
     prefix (sent (snd ws)) (sent (snd ws')) \<and> closed (snd ws') = closed (snd ws)
     \<and> filter isAccess (events (snd ws')) = filter isAccess (events (snd ws))
     \<and> map_option activeConnections (metrics (snd ws')) = map_option activeConnections (metrics (snd ws))
     \<and> map_option totalRequests (metrics (snd ws')) = map_option totalRequests (metrics (snd ws))
     \<and> keepAlive (fst ws') = keepAlive (fst ws) \<and> hasConn (fst ws') = hasConn (fst ws)
     \<and> (wrote (fst ws) \<longrightarrow> wrote (fst ws')) \<and> (attempts (snd ws) = [] \<longrightarrow> attempts (snd ws') = [])"

lemma totalRequests_RecordResponse [simp]: "map_option totalRequests (RecordResponse s m) = map_option totalRequests m"
  by (cases m) (simp_all add: RecordResponse_def)

lemma sendsOnly_writeResponse: "sendsOnly ws (snd (writeResponse date status contentType body ws))"
  by (cases ws) (auto simp: writeResponse_def sendsOnly_def Let_def nextAttempt_def split: prod.split option.split list.split)

lemma sendsOnly_trans: "sendsOnly x y \<Longrightarrow> sendsOnly y z \<Longrightarrow> sendsOnly x z"
  unfolding sendsOnly_def by (auto intro: prefix_order.trans)

lemma sendsOnly_acts: "acts ws ws' \<Longrightarrow> sendsOnly ws ws'"
proof (induction rule: acts.induct)
  case (writes ws ws' date status contentType body)
  with sendsOnly_trans [OF _ sendsOnly_writeResponse] show ?case by blast
qed (simp_all add: sendsOnly_def isAccess_def)

text \<open>On a connection whose writes succeed, at most one call of the writer has an effect.\<close>

lemma writeResponse_reliable:
  "hasConn w \<Longrightarrow> \<not> wrote w \<Longrightarrow> attempts s = [] \<Longrightarrow>
   writeResponse date status contentType body (w, s) =
     (None, w\<lparr>wrote := True, statusCode := Code status,
              bytesOut := int (length (responseHead w date status contentType (length body) @ body))\<rparr>,
      s\<lparr>sent := sent s @ responseHead w date status contentType (length body) @ body,
        metrics := (if hasMetrics w then RecordResponse (Code status) (metrics s) else metrics s)\<rparr>)"
  by (simp add: writeResponse_def nextAttempt_def)

lemma writeResponse_twice:
  "wrote (fst ws) \<Longrightarrow> snd (writeResponse date status contentType body ws) = ws"
  by (cases ws) (simp add: writeResponse_def)

definition delivered :: "ResponseWriter \<times> world \<Rightarrow> ResponseWriter \<times> world \<Rightarrow> string \<Rightarrow> StatusCode \<Rightarrow> string \<Rightarrow> string \<Rightarrow> bool" where
  "delivered ws ws' date status contentType body \<longleftrightarrow>
     wrote (fst ws') \<and> statusCode (fst ws') = Code status
     \<and> sent (snd ws') = sent (snd ws) @ responseHead (fst ws) date status contentType (length body) @ body
     \<and> metrics (snd ws')
       = (if hasMetrics (fst ws) then RecordResponse (Code status) (metrics (snd ws)) else metrics (snd ws))"

definition silent :: "ResponseWriter \<times> world \<Rightarrow> ResponseWriter \<times> world \<Rightarrow> bool" where
  "silent ws ws' \<longleftrightarrow> fst ws' = fst ws \<and> sent (snd ws') = sent (snd ws) \<and> metrics (snd ws') = metrics (snd ws)
     \<and> attempts (snd ws') = []"

lemma delivered_logs [simp]:
  "delivered ws (w, s\<lparr>events := ev\<rparr>) = delivered ws (w, s)"
  "silent ws (w, s\<lparr>events := ev\<rparr>) = silent ws (w, s)"
  by (simp_all add: delivered_def silent_def fun_eq_iff)

lemma acts_once:
  assumes "acts ws ws'" and "hasConn (fst ws)" and "\<not> wrote (fst ws)" and "attempts (snd ws) = []"
  shows "silent ws ws' \<or> (\<exists>date status contentType body. delivered ws ws' date status contentType body)"
  using assms
proof (induction rule: acts.induct)
  case (stay ws)
  then show ?case by (simp add: silent_def)
next
  case (writes ws ws' date status contentType body)
  show ?case
  proof (cases "wrote (fst ws')")
    case True
    with writes writeResponse_twice [OF True] show ?thesis by auto
  next
    case False
    with writes have "silent ws ws'" by (auto simp: delivered_def)
    with writes.prems have "delivered ws (snd (writeResponse date status contentType body ws')) date status contentType body"
      by (cases ws; cases ws') (simp add: silent_def delivered_def writeResponse_reliable)
    then show ?thesis by blast
  qed
qed simp

section \<open>Handlers that always answer\<close>

text \<open>
  The stronger contract of the handlers of the server: on a connection whose writes succeed the
  response is written when the handler returns.
\<close>

definition ready :: "ResponseWriter \<times> world \<Rightarrow> bool" where
  "ready ws \<longleftrightarrow> hasConn (fst ws) \<and> \<not> wrote (fst ws) \<and> attempts (snd ws) = []"

definition responds :: "ResponseWriter \<times> world \<Rightarrow> ResponseWriter \<times> world \<Rightarrow> bool" where
  "responds ws ws' \<longleftrightarrow> acts ws ws' \<and> (ready ws \<longrightarrow> wrote (fst ws'))"

lemma responds_acts: "responds ws ws' \<Longrightarrow> acts ws ws'"
  by (simp add: responds_def)

lemma wrote_writeResponse: "ready ws \<Longrightarrow> wrote (fst (snd (writeResponse date status contentType body ws)))"
  by (cases ws) (simp add: ready_def writeResponse_reliable)

lemma responds_writeResponse: "responds ws (snd (writeResponse date status contentType body ws))"
  using acts.writes [OF acts.stay] wrote_writeResponse by (simp add: responds_def)

lemma responds_WriteText: "responds ws (snd (WriteText date status body ws))"
  unfolding WriteText_def by (rule responds_writeResponse)

lemma responds_WriteBytes: "responds ws (snd (WriteBytes date status contentType body ws))"
  unfolding WriteBytes_def by (rule responds_writeResponse)

locale responsive =
  fixes h :: handler
  assumes responds: "responds ws (h date req ws)"

sublocale responsive \<subseteq> answering h
  using responds by unfold_locales (simp add: responds_def)

locale responsive_router =
  fixes r :: Router
  assumes exact: "routes r path = Some h \<Longrightarrow> responsive h"
    and prefixed: "route \<in> set (prefixRoutes r) \<Longrightarrow> responsive (prefixHandler route)"
begin

lemma ServeHTTP_responds: "responds ws (ServeHTTP r date req ws)"
proof -
  obtain path q found where cut: "Cut (Path req) (CHR ''?'') = (path, q, found)" by (metis prod_cases3)
  show ?thesis
  proof (cases "routes r path")
    case (Some h)
    with responsive.responds [OF exact] cut show ?thesis by (simp add: ServeHTTP_def)
  next
    case None
    have "responds ws (prefixHandler route date req ws)"
      if "find (\<lambda>route. HasPrefix path (prefixOf route)) (prefixRoutes r) = Some route" for route
    proof -
      have "route \<in> set (prefixRoutes r)" using that by (auto simp: find_Some_iff)
      then show ?thesis by (rule responsive.responds [OF prefixed])
    qed
    with None cut responds_WriteText show ?thesis by (auto simp: ServeHTTP_def split: option.split)
  qed
qed

end

lemma responsive_answering: "responsive h \<Longrightarrow> answering h"
  by (simp add: responsive_def answering_def responds_def)

sublocale responsive_router \<subseteq> acting: answering_router r
  by (rule answering_router.intro) (auto intro: responsive_answering exact prefixed)

lemma responsive_empty: "responsive_router NewRouter"
  by unfold_locales (simp_all add: NewRouter_def)

lemma responsive_Handle:
  "responsive_router r \<Longrightarrow> responsive h \<Longrightarrow> Handle path (Some h) (Some r) = Some r' \<Longrightarrow> responsive_router r'"
  unfolding responsive_router_def Handle_def by (auto split: if_splits)

lemma responsive_HandlePrefix:
  "responsive_router r \<Longrightarrow> responsive h \<Longrightarrow> HandlePrefix p (Some h) (Some r) = Some r' \<Longrightarrow> responsive_router r'"
  unfolding responsive_router_def HandlePrefix_def by (auto split: if_splits)

end
