(* ===== verification/Core_Connection.thy ===== *)
theory Core_Connection
  imports Core_Router Http_Roundtrip
begin

text \<open>
  The loop of \<^verbatim>\<open>core/connection.go\<close> that serves the requests of one connection. What the code asks
  of the operating system is the record \<open>environment\<close>: whether a read deadline can be set, the
  formatted time and the time that passed, each by the number of requests served before. The rule
  automaton is a field of it, because the parser reads it from a package variable.
\<close>

section \<open>Definitions\<close>

record ConnectionOptions =
  ReadTimeout :: int
  WriteTimeout :: int
  IdleTimeout :: int
  MaxRequestsPerConnection :: int
  DisableKeepAlive :: bool

record environment =
  defaultWAF :: "Automaton option"
  deadlineOk :: "nat \<Rightarrow> bool"
  dateAt :: "nat \<Rightarrow> string"
  elapsed :: "nat \<Rightarrow> int"
  lowerTable :: "nat \<Rightarrow> nat"

definition seconds :: "int \<Rightarrow> int" where "seconds n = n * 1000000000"

definition effectiveOptions :: "ConnectionOptions \<Rightarrow> ConnectionOptions" where
  "effectiveOptions options =
    \<lparr>ReadTimeout = (if ReadTimeout options \<le> 0 then seconds 5 else ReadTimeout options),
     WriteTimeout = (if WriteTimeout options \<le> 0 then seconds 5 else WriteTimeout options),
     IdleTimeout = (if IdleTimeout options \<le> 0 then seconds 30 else IdleTimeout options),
     MaxRequestsPerConnection =
       (if MaxRequestsPerConnection options \<le> 0 then 100 else MaxRequestsPerConnection options),
     DisableKeepAlive = DisableKeepAlive options\<rparr>"

definition shouldKeepAlive :: "(nat \<Rightarrow> nat) \<Rightarrow> Request \<Rightarrow> ConnectionOptions \<Rightarrow> int \<Rightarrow> bool" where
  "shouldKeepAlive lower req options remainingRequests =
    (if DisableKeepAlive options \<or> remainingRequests \<le> 0 then False
     else
      (let value = (case Headers req ''Connection'' of Some v \<Rightarrow> v | None \<Rightarrow> []);
           connection = ToLower lower value
       in \<not> list_ex (\<lambda>token. TrimSpace token = ''close'') (Split connection (CHR '',''))))"

text \<open>\<open>errors.Is(err, io.EOF)\<close> looks through the errors that wrap their cause.\<close>

definition isEOF :: "error \<Rightarrow> bool" where
  "isEOF err \<longleftrightarrow> err \<in> {IOError EOF, IncompleteBody EOF, IncompleteChunk EOF, IncompleteTerminator EOF}"

definition errorOptions :: "ConnectionOptions \<Rightarrow> ResponseOptions" where
  "errorOptions options = noOptions\<lparr>optWriteTimeout := WriteTimeout options, optMetrics := True\<rparr>"

text \<open>What follows a parser error.\<close>

definition rejectRequest :: "environment \<Rightarrow> ConnectionOptions \<Rightarrow> nat \<Rightarrow> error \<Rightarrow> world \<Rightarrow> world" where
  "rejectRequest env options served err s =
    (if isEOF err \<and> 0 < served then s
     else
      (case err of
         Panic \<Rightarrow> s
       | Security se \<Rightarrow>
          (let s1 = s\<lparr>metrics := IncWAFBlock (metrics s)\<rparr>;
               s2 = logSecurityEvent (seField se) (sePattern se) (seRuleID se) (Code StatusForbidden) s1
           in writeErrorResponseWithOptions (dateAt env served) ''HTTP/1.1'' StatusForbidden (errorOptions options) s2)
       | _ \<Rightarrow>
          (let s1 = s\<lparr>metrics := IncParseReject (metrics s)\<rparr>;
               s2 = logParseReject err (Code StatusBadRequest) s1
           in writeErrorResponseWithOptions (dateAt env served) ''HTTP/1.1'' StatusBadRequest (errorOptions options) s2)))"

text \<open>The writer of the answer to a request.\<close>

definition requestWriter :: "ConnectionOptions \<Rightarrow> nat \<Rightarrow> Request \<Rightarrow> bool \<Rightarrow> ResponseWriter" where
  "requestWriter options served req alive =
    NewResponseWriterWithOptions True (Version req)
      \<lparr>optWriteTimeout = WriteTimeout options, optMetrics = True, optKeepAlive = alive, optKeepAliveTimeout = IdleTimeout options,
       optKeepAliveMaxRequests = MaxRequestsPerConnection options - int served - 1\<rparr>"

text \<open>One parsed request: whether the connection goes on, and the new world.\<close>

definition serveRequest ::
    "environment \<Rightarrow> ConnectionOptions \<Rightarrow> Router \<Rightarrow> nat \<Rightarrow> Request \<Rightarrow> world \<Rightarrow> bool \<times> world" where
  "serveRequest env options router served req s =
    (let alive = shouldKeepAlive (lowerTable env) req options (MaxRequestsPerConnection options - int served - 1);
         s1 = s\<lparr>events := events s @ [RequestEvent (Method req) (Path req) (Version req) alive]\<rparr>
     in case ServeHTTP router (dateAt env served) req (requestWriter options served req alive, s1) of
          (w1, s2) \<Rightarrow>
           (let s3 = s2\<lparr>metrics := RecordRequestDuration (elapsed env served) (metrics s2)\<rparr> in
            case (if Wrote w1 then (w1, s3)
                  else snd (WriteText (dateAt env served) StatusInternalServerError
                              (StatusBody StatusInternalServerError) (w1, s3))) of
              (w2, s4) \<Rightarrow>
                (alive \<and> Wrote w1, logAccessEvent req (writerStatus w2) (BytesWritten w2) s4)))"

lemma serveRequest_continues:
  "serveRequest env options router served req s = (True, s') \<Longrightarrow> int served + 1 < MaxRequestsPerConnection options"
  by (auto simp: serveRequest_def shouldKeepAlive_def Let_def split: prod.splits if_splits)

function connLoop ::
    "environment \<Rightarrow> ConnectionOptions \<Rightarrow> Router option \<Rightarrow> nat \<Rightarrow> reader \<Rightarrow> world \<Rightarrow> reader \<times> world" where
  "connLoop env options ro served r s =
    (if \<not> deadlineOk env served then (r, s\<lparr>events := events s @ [DeadlineFailed]\<rparr>)
     else
      (case parseMessage (defaultWAF env) r of
         (Inl err, r') \<Rightarrow> (r', rejectRequest env options served err s)
       | (Inr req, r') \<Rightarrow>
          (let s1 = s\<lparr>metrics := IncRequest (metrics s)\<rparr> in
           case ro of
             None \<Rightarrow>
               (r', writeErrorResponseWithOptions (dateAt env served) (Version req) StatusInternalServerError
                      (errorOptions options) (s1\<lparr>events := events s1 @ [RouterMissing]\<rparr>))
           | Some router \<Rightarrow>
              (case serveRequest env options router served req s1 of
                 (continue, s2) \<Rightarrow>
                   if continue then connLoop env options ro (Suc served) r' s2 else (r', s2)))))"
  by pat_completeness auto
termination
proof (relation "measure (\<lambda>(env, options, ro, served, r, s). nat (MaxRequestsPerConnection options - int served))")
  fix env options ro served r s x r' req s1 router continue s2
  assume "(continue, s2) = serveRequest env options router served req s1" and "continue"
  then have "serveRequest env options router served req s1 = (True, s2)" by simp
  then have "int served + 1 < MaxRequestsPerConnection options" by (rule serveRequest_continues)
  then show "((env, options, ro, Suc served, r', s2), env, options, ro, served, r, s)
      \<in> measure (\<lambda>(env, options, ro, served, r, s). nat (MaxRequestsPerConnection options - int served))" by simp
qed simp

declare connLoop.simps [simp del]

definition HandleConnectionWithOptions ::
    "environment \<Rightarrow> ConnectionOptions \<Rightarrow> Router option \<Rightarrow> reader \<Rightarrow> world \<Rightarrow> reader \<times> world" where
  "HandleConnectionWithOptions env options ro r s =
    (let s1 = s\<lparr>metrics := IncActiveConnection (metrics s)\<rparr>;
         s2 = s1\<lparr>events := events s1 @ [NewConnection]\<rparr>;
         (r', s3) = connLoop env (effectiveOptions options) ro 0 r s2
     in (r', s3\<lparr>metrics := DecActiveConnection (metrics s3), closed := True\<rparr>))"

definition HandleConnection :: "environment \<Rightarrow> Router option \<Rightarrow> reader \<Rightarrow> world \<Rightarrow> reader \<times> world" where
  "HandleConnection env ro r s =
    HandleConnectionWithOptions env
      \<lparr>ReadTimeout = 0, WriteTimeout = 0, IdleTimeout = 0, MaxRequestsPerConnection = 0, DisableKeepAlive = False\<rparr> ro r s"

section \<open>What the loop leaves alone\<close>

definition accessCount :: "world \<Rightarrow> nat" where
  "accessCount s = length (filter isAccess (events s))"

definition activeOf :: "world \<Rightarrow> uint64 option" where
  "activeOf s = map_option activeConnections (metrics s)"

definition requestsOf :: "world \<Rightarrow> uint64 option" where
  "requestsOf s = map_option totalRequests (metrics s)"

lemma writeErrorResponse_frame:
  "accessCount (writeErrorResponseWithOptions date v status opts s) = accessCount s
   \<and> activeOf (writeErrorResponseWithOptions date v status opts s) = activeOf s
   \<and> requestsOf (writeErrorResponseWithOptions date v status opts s) = requestsOf s"
  using sendsOnly_acts [OF acts_WriteText]
  by (simp add: writeErrorResponseWithOptions_def sendsOnly_def accessCount_def activeOf_def requestsOf_def)

lemma requests_frame [simp]:
  "map_option totalRequests (IncWAFBlock m) = map_option totalRequests m"
  "map_option totalRequests (IncParseReject m) = map_option totalRequests m"
  "map_option totalRequests (RecordRequestDuration d m) = map_option totalRequests m"
  by (cases m; simp add: IncWAFBlock_def IncParseReject_def RecordRequestDuration_def Let_def)+

lemma rejectRequest_frame:
  "accessCount (rejectRequest env options served err s) = accessCount s
   \<and> activeOf (rejectRequest env options served err s) = activeOf s
   \<and> requestsOf (rejectRequest env options served err s) = requestsOf s"
  by (auto simp: rejectRequest_def writeErrorResponse_frame Let_def split: error.split)
     (simp_all add: accessCount_def activeOf_def requestsOf_def logSecurityEvent_def logParseReject_def isAccess_def)

lemma serveRequest_steps:
  assumes "answering_router router" and "serveRequest env options router served req s = (go_on, s')"
  obtains alive w1 s2 w2 s4 where
    "alive = shouldKeepAlive (lowerTable env) req options (MaxRequestsPerConnection options - int served - 1)"
    and "acts (requestWriter options served req alive,
               s\<lparr>events := events s @ [RequestEvent (Method req) (Path req) (Version req) alive]\<rparr>) (w1, s2)"
    and "(w2, s4) = (if wrote w1 then (w1, s2\<lparr>metrics := RecordRequestDuration (elapsed env served) (metrics s2)\<rparr>)
       else snd (WriteText (dateAt env served) StatusInternalServerError (StatusBody StatusInternalServerError)
                  (w1, s2\<lparr>metrics := RecordRequestDuration (elapsed env served) (metrics s2)\<rparr>)))"
    and "go_on = (alive \<and> wrote w1)" and "s' = logAccessEvent req (statusCode w2) (bytesOut w2) s4"
proof -
  let ?alive = "shouldKeepAlive (lowerTable env) req options (MaxRequestsPerConnection options - int served - 1)"
  let ?s1 = "s\<lparr>events := events s @ [RequestEvent (Method req) (Path req) (Version req) ?alive]\<rparr>"
  obtain w1 s2 where run: "ServeHTTP router (dateAt env served) req (requestWriter options served req ?alive, ?s1) = (w1, s2)"
    by fastforce
  obtain w2 s4 where fin: "(if wrote w1 then (w1, s2\<lparr>metrics := RecordRequestDuration (elapsed env served) (metrics s2)\<rparr>)
       else snd (WriteText (dateAt env served) StatusInternalServerError (StatusBody StatusInternalServerError)
                  (w1, s2\<lparr>metrics := RecordRequestDuration (elapsed env served) (metrics s2)\<rparr>))) = (w2, s4)" by fastforce
  have "(go_on, s') = (?alive \<and> wrote w1, logAccessEvent req (statusCode w2) (bytesOut w2) s4)"
    using assms(2) unfolding serveRequest_def Let_def run prod.case Wrote_def fin
    by (simp add: writerStatus_def BytesWritten_def)
  moreover have "acts (requestWriter options served req ?alive, ?s1) (w1, s2)"
    using answering_router.ServeHTTP_acts [OF assms(1)] run by metis
  ultimately show ?thesis using that [OF refl _ fin [symmetric]] by blast
qed

lemma serveRequest_frame:
  assumes "answering_router router" and "serveRequest env options router served req s = (go_on, s')"
  shows "accessCount s' = Suc (accessCount s) \<and> activeOf s' = activeOf s \<and> requestsOf s' = requestsOf s"
proof -
  from serveRequest_steps [OF assms] obtain alive w1 s2 w2 s4 where
    1: "acts (requestWriter options served req alive,
               s\<lparr>events := events s @ [RequestEvent (Method req) (Path req) (Version req) alive]\<rparr>) (w1, s2)"
    and fin: "(w2, s4) = (if wrote w1 then (w1, s2\<lparr>metrics := RecordRequestDuration (elapsed env served) (metrics s2)\<rparr>)
       else snd (WriteText (dateAt env served) StatusInternalServerError (StatusBody StatusInternalServerError)
                  (w1, s2\<lparr>metrics := RecordRequestDuration (elapsed env served) (metrics s2)\<rparr>)))"
    and s': "s' = logAccessEvent req (statusCode w2) (bytesOut w2) s4" by metis
  have "acts (w1, s2\<lparr>metrics := RecordRequestDuration (elapsed env served) (metrics s2)\<rparr>) (w2, s4)"
    unfolding fin using acts_WriteText acts.stay by auto
  with sendsOnly_acts [OF 1] sendsOnly_acts [OF this] show ?thesis
    unfolding s' by (simp add: sendsOnly_def logAccessEvent_def accessCount_def activeOf_def requestsOf_def isAccess_def)
qed

section \<open>The loop\<close>

lemma connLoop_step:
  "connLoop env options ro served r s =
    (if \<not> deadlineOk env served then (r, s\<lparr>events := events s @ [DeadlineFailed]\<rparr>)
     else
      (case parseMessage (defaultWAF env) r of
         (Inl err, r') \<Rightarrow> (r', rejectRequest env options served err s)
       | (Inr req, r') \<Rightarrow>
          (case ro of
             None \<Rightarrow>
               (r', writeErrorResponseWithOptions (dateAt env served) (Version req) StatusInternalServerError
                      (errorOptions options) (s\<lparr>metrics := IncRequest (metrics s), events := events s @ [RouterMissing]\<rparr>))
           | Some router \<Rightarrow>
              (case serveRequest env options router served req (s\<lparr>metrics := IncRequest (metrics s)\<rparr>) of
                 (continue, s2) \<Rightarrow>
                   if continue then connLoop env options ro (Suc served) r' s2 else (r', s2)))))"
  by (subst connLoop.simps) (simp add: Let_def split: prod.split sum.split option.split)

lemma IncRequest_active [simp]: "activeOf (s\<lparr>metrics := IncRequest (metrics s)\<rparr>) = activeOf s"
  by (simp add: activeOf_def)

lemma requestsOf_Inc: "requestsOf (s\<lparr>metrics := IncRequest (metrics s)\<rparr>) = map_option (\<lambda>n. n + 1) (requestsOf s)"
  by (cases "metrics s") (simp_all add: requestsOf_def IncRequest_def)

lemma frame_simps [simp]:
  "accessCount (s\<lparr>metrics := m\<rparr>) = accessCount s"
  "accessCount (s\<lparr>events := events s @ [DeadlineFailed]\<rparr>) = accessCount s"
  "accessCount (s\<lparr>metrics := m, events := events s @ [RouterMissing]\<rparr>) = accessCount s"
  "activeOf (s\<lparr>events := ev\<rparr>) = activeOf s" "requestsOf (s\<lparr>events := ev\<rparr>) = requestsOf s"
  "activeOf (s\<lparr>metrics := IncRequest (metrics s), events := ev\<rparr>) = activeOf s"
  by (simp_all add: accessCount_def activeOf_def requestsOf_def isAccess_def)

definition routerOk :: "Router option \<Rightarrow> bool" where
  "routerOk ro \<longleftrightarrow> (\<forall>router. ro = Some router \<longrightarrow> answering_router router)"

lemma connLoop_active:
  "routerOk ro \<Longrightarrow> activeOf (snd (connLoop env options ro served r s)) = activeOf s"
proof (induction env options ro served r s rule: connLoop.induct)
  case (1 env options ro served r s)
  show ?case
  proof (cases "deadlineOk env served")
    case False
    then show ?thesis by (simp add: connLoop_step)
  next
    case True
    obtain x r' where p: "parseMessage (defaultWAF env) r = (x, r')" by fastforce
    show ?thesis
    proof (cases x)
      case (Inl err)
      with True p rejectRequest_frame show ?thesis by (simp add: connLoop_step)
    next
      case (Inr req)
      show ?thesis
      proof (cases ro)
        case None
        with True p Inr writeErrorResponse_frame show ?thesis by (simp add: connLoop_step)
      next
        case (Some router)
        obtain c s2 where run: "serveRequest env options router served req (s\<lparr>metrics := IncRequest (metrics s)\<rparr>) = (c, s2)" by fastforce
        have "activeOf s2 = activeOf s"
          using serveRequest_frame [OF _ run] "1.prems" Some by (simp add: routerOk_def)
        with "1.IH" [OF _ p [symmetric] Inr refl Some run [symmetric]] "1.prems" True p Inr Some run
        show ?thesis by (simp add: connLoop_step [of env options "Some router" served])
      qed
    qed
  qed
qed

lemma connLoop_counts:
  assumes "answering_router router"
  shows "int served < MaxRequestsPerConnection options \<Longrightarrow>
    \<exists>n. accessCount (snd (connLoop env options (Some router) served r s)) = accessCount s + n
      \<and> int (served + n) \<le> MaxRequestsPerConnection options
      \<and> requestsOf (snd (connLoop env options (Some router) served r s)) = map_option (\<lambda>k. k + of_nat n) (requestsOf s)"
proof (induction "nat (MaxRequestsPerConnection options - int served)" arbitrary: served r s rule: less_induct)
  case less
  have stay: "\<exists>n. accessCount s' = accessCount s + n \<and> int (served + n) \<le> MaxRequestsPerConnection options
      \<and> requestsOf s' = map_option (\<lambda>k. k + of_nat n) (requestsOf s)"
    if "accessCount s' = accessCount s" "requestsOf s' = requestsOf s" for s'
    using that less.prems by (intro exI [of _ 0]) (cases "requestsOf s", auto)
  show ?case
  proof (cases "deadlineOk env served")
    case False
    then show ?thesis by (intro stay) (simp_all add: connLoop_step)
  next
    case True
    obtain x r' where p: "parseMessage (defaultWAF env) r = (x, r')" by fastforce
    show ?thesis
    proof (cases x)
      case (Inl err)
      with True p rejectRequest_frame show ?thesis by (intro stay) (simp_all add: connLoop_step)
    next
      case (Inr req)
      obtain c s2 where run: "serveRequest env options router served req (s\<lparr>metrics := IncRequest (metrics s)\<rparr>) = (c, s2)" by fastforce
      have one: "accessCount s2 = Suc (accessCount s)" "requestsOf s2 = map_option (\<lambda>k. k + 1) (requestsOf s)"
        using serveRequest_frame [OF assms run] by (simp_all add: requestsOf_Inc)
      show ?thesis
      proof (cases c)
        case False
        with True p Inr run one less.prems show ?thesis
          by (intro exI [of _ 1]) (simp add: connLoop_step [of env options "Some router" served])
      next
        case go: True
        have more: "int (Suc served) < MaxRequestsPerConnection options"
          using serveRequest_continues [of env options router served req] run go by force
        then have "nat (MaxRequestsPerConnection options - int (Suc served)) < nat (MaxRequestsPerConnection options - int served)"
          using less.prems by simp
        from less.hyps [OF this more, of r' s2] obtain n where
          n: "accessCount (snd (connLoop env options (Some router) (Suc served) r' s2)) = accessCount s2 + n"
          "int (Suc served + n) \<le> MaxRequestsPerConnection options"
          "requestsOf (snd (connLoop env options (Some router) (Suc served) r' s2)) = map_option (\<lambda>k. k + of_nat n) (requestsOf s2)"
          by blast
        have "connLoop env options (Some router) served r s = connLoop env options (Some router) (Suc served) r' s2"
          using True p Inr run go by (simp add: connLoop_step [of env options "Some router" served])
        with n one show ?thesis by (intro exI [of _ "Suc n"]) (cases "requestsOf s", auto simp: add.assoc)
      qed
    qed
  qed
qed

section \<open>A stream of requests\<close>

text \<open>
  The specification of the loop on the requests of a stream that then ends: each is answered
  in turn as long as the connection is kept.
\<close>

fun serveAll :: "environment \<Rightarrow> ConnectionOptions \<Rightarrow> Router \<Rightarrow> nat \<Rightarrow> Request list \<Rightarrow> world \<Rightarrow> world" where
  "serveAll env options router served [] s =
    (if deadlineOk env served then rejectRequest env options served (IOError EOF) s
     else s\<lparr>events := events s @ [DeadlineFailed]\<rparr>)"
| "serveAll env options router served (req # reqs) s =
    (if deadlineOk env served
     then (case serveRequest env options router served req (s\<lparr>metrics := IncRequest (metrics s)\<rparr>) of
             (continue, s2) \<Rightarrow> if continue then serveAll env options router (Suc served) reqs s2 else s2)
     else s\<lparr>events := events s @ [DeadlineFailed]\<rparr>)"

lemma parseMessage_end:
  assumes "pending r = []"
  shows "fst (parseMessage a r) = Inl (IOError (final r))"
proof -
  obtain r' where "ReadByte r = (Inl (final r), r')" using bufio.readByte_Nil [OF assms] .
  then show ?thesis
    by (simp add: parseMessage_def readRequestLine_def readLineLimited_def readLineLoop.simps [of _ "[]" r] bindP_def)
qed

lemma connLoop_serveAll:
  assumes "list_all2 (\<lambda>t req. \<forall>rest. yields (parseMessage (defaultWAF env)) (t @ rest) req rest) texts reqs"
    and "clean r" and "final r = EOF" and "pending r = concat texts"
  shows "snd (connLoop env options (Some router) served r s) = serveAll env options router served reqs s"
  using assms
proof (induction reqs arbitrary: texts served r s rule: list.induct)
  case Nil
  obtain x r' where p: "parseMessage (defaultWAF env) r = (x, r')" by fastforce
  have "texts = []" using Nil.prems(1) by simp
  with Nil.prems p parseMessage_end [of r "defaultWAF env"] have "x = Inl (IOError EOF)" by simp
  with p show ?case by (simp add: connLoop_step)
next
  case (Cons req reqs)
  from Cons.prems(1) obtain t ts where ts: "texts = t # ts"
    and t: "\<And>rest. yields (parseMessage (defaultWAF env)) (t @ rest) req rest"
    and rest: "list_all2 (\<lambda>t req. \<forall>rest. yields (parseMessage (defaultWAF env)) (t @ rest) req rest) ts reqs"
    by (auto simp: list_all2_Cons2)
  have "pending r = t @ concat ts" using Cons.prems(4) ts by simp
  then obtain r' where p: "parseMessage (defaultWAF env) r = (Inr req, r')" and r': "pending r' = concat ts" "clean r'"
    using t [of "concat ts"] Cons.prems(2) by (auto simp: yields_def)
  have "final r' = EOF" using readsD [OF reads_parseMessage p] Cons.prems(3) by metis
  with Cons.IH [OF rest r'(2) _ r'(1)] p show ?case by (auto simp: connLoop_step [of env options "Some router" served] split: prod.split)
qed

end
