(* ===== verification/Core_Properties.thy ===== *)
theory Core_Properties
  imports Core_Connection Http_Properties
begin

text \<open>
  What the connection loop, the router and the response writer promise, each property with a
  concrete run where it has hypotheses.
\<close>

section \<open>Examples\<close>

definition exampleEnv :: environment where
  "exampleEnv = \<lparr>defaultWAF = NewPatterns id exampleRules, deadlineOk = (\<lambda>_. True), dateAt = (\<lambda>_. ''now''),
     elapsed = (\<lambda>_. 2000), lowerTable = id\<rparr>"

definition defaultOptions :: ConnectionOptions where
  "defaultOptions = \<lparr>ReadTimeout = 0, WriteTimeout = 0, IdleTimeout = 0, MaxRequestsPerConnection = 0, DisableKeepAlive = False\<rparr>"

definition freshWorld :: world where
  "freshWorld = \<lparr>sent = [], attempts = [], metrics = Some NewMetrics, closed = False, events = []\<rparr>"

definition hello :: handler where
  "hello date req ws = snd (WriteText date StatusOK ''hi'' ws)"

definition helloRouter :: Router where
  "helloRouter = \<lparr>routes = [''/a'' \<mapsto> hello], prefixRoutes = []\<rparr>"

lemma helloRouter_answering: "answering_router helloRouter"
  by unfold_locales (auto simp: helloRouter_def hello_def acts_WriteText split: if_splits intro!: answering.intro)

lemma example_cut: "Cut (Path exampleRequest) (CHR ''?'') = (''/a'', ''x=%31'', True)"
  by code_simp

section \<open>The response writer\<close>

text \<open>
  C17. A response cannot be split. The writer of an accepted request sends one head and the body,
  and a client that reads lines up to the empty one and then the declared number of bytes gets
  exactly these header lines and this body, whatever bytes the body holds, with the bytes that
  follow left for the next response. The date, the reason and the content type are free of line breaks.
\<close>

theorem response_read_back:
  assumes "parseRequest a ro = (Inr req, ro')" and "attempts s = []"
    and "plainText date" and "plainText (Reason status)" and "plainText contentType"
    and "writeResponse date status contentType body (requestWriter options served req alive, s) = (e, w', s')"
  shows "e = None \<and> (\<exists>out. sent s' = sent s @ out
    \<and> clientRead (out @ rest)
      = Some (headLines (requestWriter options served req alive) date status contentType (length body), body, rest))"
proof -
  let ?w = "requestWriter options served req alive"
  obtain r r' where "parseMessage a r = (Inr req, r')" using parseRequest_Inr [OF assms(1)] .
  then have "rVersion req = ''HTTP/1.1''" using accepted_wellFormed by (auto simp: wellFormed_def)
  then have w: "hasConn ?w" "\<not> wrote ?w" "httpVersion ?w = ''HTTP/1.1''"
    by (simp_all add: requestWriter_def NewResponseWriterWithOptions_def Version_def)
  have "clientRead (responseHead ?w date status contentType (length body) @ body @ rest)
      = Some (headLines ?w date status contentType (length body), body, rest)"
    using assms(3-5) w(3) by (intro clientRead_response) (simp_all add: plainText_def HasPrefix_def)
  with assms(6) writeResponse_reliable [OF w(1,2) assms(2)] show ?thesis by auto
qed

theorem response_read_back_witness:
  "\<exists>out. clientRead (out @ ''next'')
     = Some (headLines (requestWriter defaultOptions 0 exampleRequest True) ''now'' StatusOK ''text/html'' (length [cr, lf, cr, lf]),
             [cr, lf, cr, lf], ''next'')"
proof -
  obtain r' where r: "parseRequest (NewPatterns id exampleRules) (Some (connection [take 9 exampleText, drop 9 exampleText]))
      = (Inr exampleRequest, Some r')" using example_accepted by blast
  obtain e w' s' where out: "writeResponse ''now'' StatusOK ''text/html'' [cr, lf, cr, lf]
      (requestWriter defaultOptions 0 exampleRequest True, freshWorld) = (e, w', s')" using prod_cases3 by blast
  have "attempts freshWorld = []" by (simp add: freshWorld_def)
  from response_read_back [OF r this _ _ _ out, of "''next''"] show ?thesis by (auto simp: plainText_def StatusOK_def)
qed

text \<open>
  C20. One request, at most one response: on a connection whose writes succeed, whatever a handler does
  with its writer and the log, either nothing was sent or exactly one complete response, which is the one that
  the metrics and the status of the writer record.
\<close>

theorem handler_answers_at_most_once:
  assumes "acts (w, s) (w', s')" and "hasConn w" and "\<not> wrote w" and "attempts s = []"
  shows "\<not> wrote w' \<and> sent s' = sent s \<and> metrics s' = metrics s
    \<or> (\<exists>date status contentType body. wrote w' \<and> statusCode w' = Code status
         \<and> sent s' = sent s @ responseHead w date status contentType (length body) @ body
         \<and> metrics s' = (if hasMetrics w then RecordResponse (Code status) (metrics s) else metrics s))"
proof -
  have "silent (w, s) (w', s') \<or> (\<exists>date status contentType body. delivered (w, s) (w', s') date status contentType body)"
    using acts_once [OF assms(1)] assms(2-4) by simp
  then show ?thesis unfolding silent_def delivered_def fst_conv snd_conv using assms(3) by blast
qed

theorem handler_answers_at_most_once_witness:
  "\<exists>date status contentType body.
     sent (snd (snd (WriteText ''now'' StatusForbidden []
       (snd (WriteText ''now'' StatusOK ''hi'' (NewResponseWriter True [], freshWorld))))))
     = responseHead (NewResponseWriter True []) date status contentType (length body) @ body"
proof -
  let ?ws = "(NewResponseWriter True [], freshWorld)"
  let ?fin = "snd (WriteText ''now'' StatusForbidden [] (snd (WriteText ''now'' StatusOK ''hi'' ?ws)))"
  have w: "hasConn (NewResponseWriter True [])" "\<not> wrote (NewResponseWriter True [])" "attempts freshWorld = []"
    by (simp_all add: NewResponseWriter_def NewResponseWriterWithOptions_def freshWorld_def)
  have "acts ?ws (fst ?fin, snd ?fin)" using acts_trans [OF acts_WriteText acts_WriteText] by simp
  moreover have "wrote (fst ?fin)" by code_simp
  moreover have "sent freshWorld = []" by (simp add: freshWorld_def)
  ultimately show ?thesis using handler_answers_at_most_once [OF _ w] by fastforce
qed

section \<open>The router\<close>

text \<open>The registrations of a router, in the order of the calls.\<close>

datatype registration = Exact string handler | Prefixed string handler

fun register :: "registration \<Rightarrow> Router option \<Rightarrow> Router option" where
  "register (Exact p h) = Handle p (Some h)"
| "register (Prefixed p h) = HandlePrefix p (Some h)"

fun exactly :: "string \<Rightarrow> registration \<Rightarrow> bool" where
  "exactly path (Exact p h) \<longleftrightarrow> p \<noteq> [] \<and> path = p"
| "exactly path (Prefixed p h) \<longleftrightarrow> False"

fun below :: "string \<Rightarrow> registration \<Rightarrow> bool" where
  "below path (Exact p h) \<longleftrightarrow> False"
| "below path (Prefixed p h) \<longleftrightarrow> p \<noteq> [] \<and> HasPrefix path p"

fun target :: "registration \<Rightarrow> handler" where
  "target (Exact p h) = h"
| "target (Prefixed p h) = h"

text \<open>The choice of a handler: the last exact registration, else the first prefix, else none.\<close>

definition chosen :: "registration list \<Rightarrow> string \<Rightarrow> handler option" where
  "chosen regs path =
    (case find (exactly path) (rev regs) of
       Some reg \<Rightarrow> Some (target reg)
     | None \<Rightarrow> map_option target (find (below path) regs))"

lemma find_append: "find P (xs @ ys) = (case find P xs of None \<Rightarrow> find P ys | Some x \<Rightarrow> Some x)"
  by (induction xs) auto

definition agrees :: "Router \<Rightarrow> registration list \<Rightarrow> bool" where
  "agrees r regs \<longleftrightarrow> (\<forall>path. routes r path = map_option target (find (exactly path) (rev regs))
     \<and> map_option prefixHandler (find (\<lambda>route. HasPrefix path (prefixOf route)) (prefixRoutes r))
       = map_option target (find (below path) regs))"

lemma agrees_step:
  assumes "agrees r regs"
  shows "\<exists>r'. register reg (Some r) = Some r' \<and> agrees r' (regs @ [reg])"
proof (cases reg)
  case (Exact p h)
  with assms show ?thesis by (auto simp: agrees_def Handle_def find_append split: option.split)
next
  case (Prefixed p h)
  have "map_option prefixHandler (find (\<lambda>route. HasPrefix path (prefixOf route)) (prefixRoutes r @ [\<lparr>prefixOf = p, prefixHandler = h\<rparr>]))
      = map_option target (find (below path) (regs @ [Prefixed p h]))" if "p \<noteq> []" for path
  proof -
    have "map_option prefixHandler (find (\<lambda>route. HasPrefix path (prefixOf route)) (prefixRoutes r))
        = map_option target (find (below path) regs)" using assms by (simp add: agrees_def)
    with that show ?thesis by (cases "find (below path) regs") (auto simp: find_append split: option.splits)
  qed
  with assms Prefixed show ?thesis
    by (cases "p = []") (auto simp: agrees_def HandlePrefix_def find_append split: option.split)
qed

lemma agrees_all: "agrees r done' \<Longrightarrow> \<exists>r'. fold register regs (Some r) = Some r' \<and> agrees r' (done' @ regs)"
proof (induction regs arbitrary: r done')
  case (Cons reg regs)
  from agrees_step [OF Cons.prems] obtain r' where "register reg (Some r) = Some r'" "agrees r' (done' @ [reg])" by blast
  with Cons.IH [of r' "done' @ [reg]"] show ?case by simp
qed simp

text \<open>
  C21. Dispatch: a router built by any sequence of registrations serves a request by the last
  exact registration of its path (cut at the question mark), else by the first registered prefix of the path,
  else with 404; registrations with an empty path have no effect.
\<close>

theorem router_dispatch:
  "\<exists>r. fold register regs (Some NewRouter) = Some r
    \<and> (\<forall>date req ws. ServeHTTP r date req ws
        = (case chosen regs (takeWhile (\<lambda>c. c \<noteq> CHR ''?'') (Path req)) of
             Some h \<Rightarrow> h date req ws
           | None \<Rightarrow> snd (WriteText date StatusNotFound (StatusBody StatusNotFound) ws)))"
proof -
  have "agrees NewRouter []" by (simp add: agrees_def NewRouter_def)
  from agrees_all [OF this, of regs] obtain r where r: "fold register regs (Some NewRouter) = Some r" and a: "agrees r regs"
    by auto
  have "ServeHTTP r date req ws
      = (case chosen regs (takeWhile (\<lambda>c. c \<noteq> CHR ''?'') (Path req)) of
           Some h \<Rightarrow> h date req ws
         | None \<Rightarrow> snd (WriteText date StatusNotFound (StatusBody StatusNotFound) ws))" for date req ws
  proof -
    let ?p = "takeWhile (\<lambda>c. c \<noteq> CHR ''?'') (Path req)"
    obtain q found where "Cut (Path req) (CHR ''?'') = (?p, q, found)" by (simp add: Cut_def)
    moreover have "routes r ?p = map_option target (find (exactly ?p) (rev regs))"
      and "map_option prefixHandler (find (\<lambda>route. HasPrefix ?p (prefixOf route)) (prefixRoutes r))
       = map_option target (find (below ?p) regs)" using a by (auto simp: agrees_def)
    ultimately show ?thesis by (auto simp: ServeHTTP_def chosen_def split: option.splits)
  qed
  with r show ?thesis by blast
qed

section \<open>The connection loop\<close>

definition opened :: "world \<Rightarrow> world" where
  "opened s = s\<lparr>metrics := IncActiveConnection (metrics s), events := events s @ [NewConnection]\<rparr>"

definition hungUp :: "world \<Rightarrow> world" where
  "hungUp s = s\<lparr>metrics := DecActiveConnection (metrics s), closed := True\<rparr>"

lemma HandleConnection_loop:
  "snd (HandleConnectionWithOptions env options ro r s) = hungUp (snd (connLoop env (effectiveOptions options) ro 0 r (opened s)))"
  by (simp add: HandleConnectionWithOptions_def hungUp_def opened_def Let_def split: prod.split)

lemma gauge_hungUp: "activeOf s' = activeOf (opened s) \<Longrightarrow> activeOf (hungUp s') = activeOf s"
  by (cases "metrics s"; cases "metrics s'")
     (simp_all add: activeOf_def opened_def hungUp_def IncActiveConnection_def DecActiveConnection_def)

lemma opened_frame [simp]:
  "accessCount (opened s) = accessCount s" "requestsOf (opened s) = requestsOf s"
  "sent (opened s) = sent s" "attempts (opened s) = attempts s"
  by (cases "metrics s"; simp add: opened_def accessCount_def requestsOf_def isAccess_def IncActiveConnection_def)+

lemma hungUp_frame [simp]:
  "accessCount (hungUp s) = accessCount s" "requestsOf (hungUp s) = requestsOf s"
  "sent (hungUp s) = sent s" "closed (hungUp s)" "events (hungUp s) = events s"
  by (cases "metrics s"; simp add: hungUp_def accessCount_def requestsOf_def DecActiveConnection_def)+

lemma effectiveOptions_max: "0 < MaxRequestsPerConnection (effectiveOptions options)"
  by (simp add: effectiveOptions_def)

text \<open>
  C18. Accounting of a connection. Whatever the peer sends and however its writes end, the handler of a connection
  returns with the connection closed, the gauge of active connections back at its old value, and
  as many new lines in the access log as it counted requests; these are at most the
  configured maximum per connection.
\<close>

theorem connection_accounting:
  assumes "answering_router router" and "HandleConnectionWithOptions env options (Some router) r s = (r', s')"
  shows "closed s' \<and> map_option activeConnections (metrics s') = map_option activeConnections (metrics s)
    \<and> (\<exists>n. int n \<le> MaxRequestsPerConnection (effectiveOptions options)
         \<and> length (filter isAccess (events s')) = length (filter isAccess (events s)) + n
         \<and> map_option totalRequests (metrics s') = map_option (\<lambda>k. k + of_nat n) (map_option totalRequests (metrics s)))"
proof -
  let ?s3 = "snd (connLoop env (effectiveOptions options) (Some router) 0 r (opened s))"
  have s': "s' = hungUp ?s3" using HandleConnection_loop [of env options "Some router" r s] assms(2) by simp
  have "routerOk (Some router)" using assms(1) by (simp add: routerOk_def)
  then have active: "activeOf s' = activeOf s" unfolding s' by (intro gauge_hungUp connLoop_active)
  from connLoop_counts [OF assms(1), of 0 "effectiveOptions options" env r "opened s"]
  obtain n where "accessCount s' = accessCount s + n" "int n \<le> MaxRequestsPerConnection (effectiveOptions options)"
    "requestsOf s' = map_option (\<lambda>k. k + of_nat n) (requestsOf s)"
    using effectiveOptions_max [of options] by (auto simp: s')
  with active show ?thesis unfolding accessCount_def activeOf_def requestsOf_def s' by auto
qed

theorem connection_accounting_witness:
  "closed (snd (HandleConnectionWithOptions exampleEnv defaultOptions (Some helloRouter) (connection [exampleText, ''junk'']) freshWorld))"
  using connection_accounting [OF helloRouter_answering surjective_pairing] by blast

text \<open>The messages of a stream: requests with a declared length.\<close>

record message =
  mMethod :: string
  mPath :: string
  mFields :: "(string \<times> string) list"
  mBody :: string

definition messageText :: "message \<Rightarrow> string" where
  "messageText m = printRequestLine (mMethod m) (mPath m) @ printFields (mFields m) @ mBody m"

definition messageRequest :: "message \<Rightarrow> Request" where
  "messageRequest m = \<lparr>rMethod = mMethod m, rPath = mPath m, rVersion = ''HTTP/1.1'', rHeaders = map_of (mFields m),
     rTrailers = Map.empty, rBody = mBody m\<rparr>"

definition acceptable :: "Automaton option \<Rightarrow> message \<Rightarrow> bool" where
  "acceptable a m \<longleftrightarrow> sendable a (mMethod m) (mPath m) (mFields m) \<and> checkEncoding (map_of (mFields m)) = Inr ()
     \<and> \<not> isChunked (map_of (mFields m)) \<and> contentLength (map_of (mFields m)) = Inr (length (mBody m)) \<and> harmlessBody a (mBody m)"

lemma yields_message: "acceptable a m \<Longrightarrow> yields (parseMessage a) (messageText m @ rest) (messageRequest m) rest"
  using yields_sized [of a "mMethod m" "mPath m" "mFields m" "mBody m" rest]
  by (simp add: acceptable_def messageText_def messageRequest_def)

lemma list_all2_messages:
  "list_all (acceptable a) ms \<Longrightarrow>
   list_all2 (\<lambda>t req. \<forall>rest. yields (parseMessage a) (t @ rest) req rest) (map messageText ms) (map messageRequest ms)"
  by (induction ms) (auto simp: yields_message)

text \<open>
  C5. The loop refines its specification. If the stream consists of requests the parser accepts and then ends, then
  however it is delivered, the requests are served one after the other in their order, each by
  the router and each exactly once, until one of them ends the connection: the world afterwards is the one that
  the specification \<open>serveAll\<close> computes from the list of requests, without bytes, buffers or parser.
\<close>

theorem connection_serves_stream:
  assumes "list_all (acceptable (defaultWAF env)) ms"
    and "clean r" and "final r = EOF" and "pending r = concat (map messageText ms)"
  shows "snd (HandleConnectionWithOptions env options (Some router) r s)
    = hungUp (serveAll env (effectiveOptions options) router 0 (map messageRequest ms) (opened s))"
  unfolding HandleConnection_loop
  by (rule arg_cong [where f = hungUp], rule connLoop_serveAll [OF list_all2_messages [OF assms(1)] assms(2-4)])

definition exampleMessage :: message where
  "exampleMessage = \<lparr>mMethod = ''POST'', mPath = ''/a?x=%31'', mFields = exampleHead, mBody = ''ok''\<rparr>"

lemma exampleMessage_acceptable: "acceptable (defaultWAF exampleEnv) exampleMessage"
  using example_sendable example_checks example_body by (simp add: acceptable_def exampleEnv_def exampleMessage_def)

theorem connection_serves_stream_witness:
  "snd (HandleConnectionWithOptions exampleEnv defaultOptions (Some helloRouter)
      (connection [exampleText, take 5 exampleText, drop 5 exampleText]) freshWorld)
    = hungUp (serveAll exampleEnv (effectiveOptions defaultOptions) helloRouter 0
        [messageRequest exampleMessage, messageRequest exampleMessage] (opened freshWorld))"
proof -
  have "messageText exampleMessage = exampleText" by (simp add: messageText_def exampleMessage_def exampleText_def)
  then have "pending (connection [exampleText, take 5 exampleText, drop 5 exampleText])
      = concat (map messageText [exampleMessage, exampleMessage])" by simp
  from connection_serves_stream [OF _ _ _ this] exampleMessage_acceptable show ?thesis by simp
qed

section \<open>Refused requests\<close>

definition refusal :: "error \<Rightarrow> StatusCode" where
  "refusal err = (case err of Security _ \<Rightarrow> StatusForbidden | _ \<Rightarrow> StatusBadRequest)"

definition countRefusal :: "error \<Rightarrow> Metrics \<Rightarrow> Metrics" where
  "countRefusal err m =
    (case err of Security _ \<Rightarrow> m\<lparr>wafBlocks := wafBlocks m + 1\<rparr> | _ \<Rightarrow> m\<lparr>parseRejects := parseRejects m + 1\<rparr>)"

definition plainResponse :: "ResponseWriter \<Rightarrow> string \<Rightarrow> StatusCode \<Rightarrow> string" where
  "plainResponse w date status =
    responseHead w date status ''text/plain; charset=utf-8'' (length (StatusBody status)) @ StatusBody status"

lemma writeErrorResponse_reliable:
  "attempts s = [] \<Longrightarrow> StatusBody status \<noteq> [] \<Longrightarrow>
   writeErrorResponseWithOptions date version status options s
   = s\<lparr>sent := sent s @ plainResponse (NewResponseWriterWithOptions True version options) date status,
       metrics := (if optMetrics options then RecordResponse (Code status) (metrics s) else metrics s)\<rparr>"
  by (simp add: writeErrorResponseWithOptions_def WriteText_def plainResponse_def writeResponse_reliable
      NewResponseWriterWithOptions_def)

lemma refusal_body: "StatusBody (refusal err) \<noteq> []" and refusal_code: "400 \<le> Code (refusal err)" "Code (refusal err) < 500"
  by (simp_all add: refusal_def StatusForbidden_def StatusBadRequest_def split: error.split)

text \<open>A later request that ends with the stream is dropped without an answer.\<close>

definition cutOff :: "nat \<Rightarrow> error \<Rightarrow> bool" where
  "cutOff served err \<longleftrightarrow> 0 < served \<and> isEOF err"

lemma rejectRequest_answers:
  assumes "err \<noteq> Panic" and "attempts s = []" and "metrics s = Some m" and "\<not> cutOff served err"
  shows "sent (rejectRequest env options served err s)
      = sent s @ plainResponse (NewResponseWriterWithOptions True ''HTTP/1.1'' (errorOptions options)) (dateAt env served) (refusal err)
    \<and> metrics (rejectRequest env options served err s)
      = Some ((countRefusal err m)\<lparr>responses4xx := responses4xx m + 1\<rparr>)"
proof -
  have skip: "(isEOF err \<and> 0 < served) = False" using assms(4) by (auto simp: cutOff_def)
  show ?thesis unfolding rejectRequest_def skip if_False using assms(1-3)
    by (cases err)
     (simp_all add: errorOptions_def refusal_def countRefusal_def Let_def writeErrorResponse_reliable logSecurityEvent_def
       logParseReject_def IncWAFBlock_def IncParseReject_def RecordResponse_def StatusForbidden_def StatusBadRequest_def)
qed

lemma refused_outcome:
  assumes "deadlineOk env 0" and "parseMessage (defaultWAF env) r = (Inl err, r')" and "err \<noteq> Panic"
    and "attempts s = []" and "metrics s = Some m"
    and "HandleConnectionWithOptions env options ro r s = (r'', s')"
  shows "sent s' = sent s @ plainResponse
      (NewResponseWriterWithOptions True ''HTTP/1.1'' (errorOptions (effectiveOptions options))) (dateAt env 0) (refusal err)
    \<and> closed s' \<and> metrics s' = Some ((countRefusal err m)\<lparr>responses4xx := responses4xx m + 1\<rparr>)"
proof -
  have s': "s' = hungUp (rejectRequest env (effectiveOptions options) 0 err (opened s))"
    using HandleConnection_loop [of env options ro r s] assms(1,2,6) by (simp add: connLoop_step)
  have m: "metrics (opened s) = Some (m\<lparr>activeConnections := activeConnections m + 1\<rparr>)"
    using assms(5) by (simp add: opened_def IncActiveConnection_def)
  have "\<not> cutOff 0 err" by (simp add: cutOff_def)
  then show ?thesis
    using rejectRequest_answers [OF assms(3) _ m, of 0 env "effectiveOptions options"] assms(4)
    unfolding s' by (cases err) (simp_all add: hungUp_def countRefusal_def DecActiveConnection_def)
qed




definition attackText :: string where
  "attackText = ''GET /%3Cscript HTTP/1.1'' @ [cr, lf] @ ''Host: h'' @ [cr, lf, cr, lf]"

lemma attack_refused:
  "case fst (parseMessage (NewPatterns id exampleRules) (connection [attackText])) of
     Inl (Security se) \<Rightarrow> seField se = ''uri'' \<and> sePattern se = ''<script'' | _ \<Rightarrow> False"
  by code_simp



section \<open>Handlers that fail\<close>

lemma requestWriter_fresh [simp]:
  "hasConn (requestWriter options served req alive)" "\<not> wrote (requestWriter options served req alive)"
  "keepAlive (requestWriter options served req alive) = alive"
  by (simp_all add: requestWriter_def NewResponseWriterWithOptions_def)

text \<open>
  A handler that sends nothing: the peer of a kept connection gets a response 500 whose head says
  that the connection stays open, and then the loop ends and the connection is closed.
\<close>

lemma silent_handler_announces_keep_alive:
  assumes "\<And>ws. ServeHTTP router (dateAt env served) req ws = ws"
    and "shouldKeepAlive (lowerTable env) req options (MaxRequestsPerConnection options - int served - 1)"
    and "attempts s = []"
    and "serveRequest env options router served req s = (continue, s')"
  shows "\<not> continue
    \<and> sent s' = sent s @ plainResponse (requestWriter options served req True) (dateAt env served) StatusInternalServerError
    \<and> ''Connection: keep-alive'' \<in> set (headLines (requestWriter options served req True) (dateAt env served)
         StatusInternalServerError ''text/plain; charset=utf-8'' (length (StatusBody StatusInternalServerError)))"
  using assms(2-4)
  by (auto simp: serveRequest_def assms(1) Let_def Wrote_def WriteText_def writeResponse_reliable plainResponse_def
      logAccessEvent_def headLines_def StatusInternalServerError_def)

lemma silent_handler_announces_keep_alive_witness:
  "\<not> fst (serveRequest exampleEnv (effectiveOptions defaultOptions) \<lparr>routes = [''/a'' \<mapsto> (\<lambda>date req ws. ws)], prefixRoutes = []\<rparr> 0
            exampleRequest freshWorld)"
proof -
  let ?r = "\<lparr>routes = [''/a'' \<mapsto> (\<lambda>date req ws. ws)], prefixRoutes = []\<rparr>"
  have "ServeHTTP ?r (dateAt exampleEnv 0) exampleRequest ws = ws" for ws
    by (simp add: ServeHTTP_def example_cut)
  moreover have "shouldKeepAlive (lowerTable exampleEnv) exampleRequest (effectiveOptions defaultOptions)
      (MaxRequestsPerConnection (effectiveOptions defaultOptions) - int 0 - 1)" by code_simp
  moreover have "attempts freshWorld = []" by (simp add: freshWorld_def)
  ultimately show ?thesis using silent_handler_announces_keep_alive [OF _ _ _ surjective_pairing] by blast
qed

text \<open>
  A write that fails half way: the writer does not record it, so after the handler the loop
  sends a second, complete response 500 behind the bytes of the first that went out, and the two
  heads share one response slot of the client.
\<close>

lemma failed_write_sends_second_response:
  assumes "\<And>ws. ServeHTTP router (dateAt env served) req ws = snd (writeResponse (dateAt env served) status contentType body ws)"
    and "attempts s = [\<lparr>deadlineFails = False, writeFails = Some n\<rparr>]"
    and "serveRequest env options router served req s = (continue, s')"
  shows "\<not> continue \<and> (\<exists>alive. sent s' = sent s
      @ take n (responseHead (requestWriter options served req alive) (dateAt env served) status contentType (length body) @ body)
      @ plainResponse (requestWriter options served req alive) (dateAt env served) StatusInternalServerError)"
  using assms(2,3)
  by (auto simp: serveRequest_def assms(1) Let_def Wrote_def WriteText_def writeResponse_def nextAttempt_def plainResponse_def
      logAccessEvent_def StatusInternalServerError_def)

lemma failed_write_sends_second_response_witness:
  "\<not> fst (serveRequest exampleEnv (effectiveOptions defaultOptions) helloRouter 0 exampleRequest
        (freshWorld\<lparr>attempts := [\<lparr>deadlineFails = False, writeFails = Some 12\<rparr>]\<rparr>))"
proof -
  have "ServeHTTP helloRouter (dateAt exampleEnv 0) exampleRequest ws
      = snd (writeResponse (dateAt exampleEnv 0) StatusOK ''text/plain; charset=utf-8'' ''hi'' ws)" for ws
    by (simp add: ServeHTTP_def example_cut helloRouter_def hello_def WriteText_def)
  from failed_write_sends_second_response [OF this _ surjective_pairing] show ?thesis by simp
qed

end
