(* ===== verification/Core_Logs.thy ===== *)
theory Core_Logs
  imports Go_Strings
begin

text \<open>
  The store of recent log lines of \<^verbatim>\<open>core/logsink.go\<close>. The entries are the slice of the code, whose
  oldest element is overwritten by shifting when it is full. The formatted time of a call is an
  argument; the mutex makes the calls a sequence. A nil store is \<open>None\<close>.
\<close>

section \<open>Definitions\<close>

record LogEntry =
  entryTime :: string
  Message :: string

record LogStore =
  maxEntries :: int
  entries :: "LogEntry list"

definition NewLogStore :: "int \<Rightarrow> LogStore" where
  "NewLogStore m = \<lparr>maxEntries = (if m \<le> 0 then 200 else m), entries = []\<rparr>"

definition defaultLogStore :: LogStore where
  "defaultLogStore = NewLogStore 200"

text \<open>\<open>copy(s.entries, s.entries[1:])\<close> moves all entries down by one and leaves the last in place.\<close>

definition shiftDown :: "'a list \<Rightarrow> 'a list" where
  "shiftDown xs = tl xs @ drop (length xs - 1) xs"

definition Add :: "string \<Rightarrow> string \<Rightarrow> LogStore option \<Rightarrow> LogStore option" where
  "Add time raw store =
    (let message = TrimSpace raw in
     case store of
       None \<Rightarrow> None
     | Some s \<Rightarrow>
        if message = [] then Some s
        else if maxEntries s \<le> int (length (entries s))
        then Some (s\<lparr>entries := (shiftDown (entries s))[length (entries s) - 1 := \<lparr>entryTime = time, Message = message\<rparr>]\<rparr>)
        else Some (s\<lparr>entries := entries s @ [\<lparr>entryTime = time, Message = message\<rparr>]\<rparr>))"

definition Snapshot :: "int \<Rightarrow> LogStore option \<Rightarrow> LogEntry list" where
  "Snapshot limit store =
    (case store of
       None \<Rightarrow> []
     | Some s \<Rightarrow>
        (let n = int (length (entries s)); limit = (if limit \<le> 0 \<or> n < limit then n else limit); start = n - limit
         in take (nat limit) (drop (nat start) (entries s))))"

definition RecentLogs :: "int \<Rightarrow> LogStore \<Rightarrow> LogEntry list" where
  "RecentLogs limit s = Snapshot limit (Some s)"

text \<open>\<open>LogWriter.Write\<close>: the result is the length of the argument, and no error.\<close>

definition trimNewlines :: "string \<Rightarrow> string" where
  "trimNewlines s = rev (dropWhile (\<lambda>c. c = lf) (rev s))"

definition LogWrite :: "string \<Rightarrow> string \<Rightarrow> LogStore option \<Rightarrow> int \<times> LogStore option" where
  "LogWrite time p store =
    (case store of
       None \<Rightarrow> (int (length p), None)
     | Some s \<Rightarrow>
        (int (length p),
         fold (\<lambda>chunk st. let line = TrimSpace chunk in if line \<noteq> [] then Add time line st else st)
              (Split (trimNewlines p) lf) (Some s)))"

section \<open>The last lines\<close>

text \<open>The specification: the last elements of a list.\<close>

definition lastN :: "nat \<Rightarrow> 'a list \<Rightarrow> 'a list" where
  "lastN n xs = drop (length xs - n) xs"

lemma lastN_snoc: "0 < n \<Longrightarrow> lastN n (xs @ [x]) = lastN (n - 1) xs @ [x]"
  by (auto simp: lastN_def Suc_diff_le)

lemma length_lastN [simp]: "length (lastN n xs) = min n (length xs)"
  by (simp add: lastN_def)

lemma tl_lastN: "n \<le> length xs \<Longrightarrow> tl (lastN n xs) = lastN (n - 1) xs"
  by (cases n) (simp_all add: lastN_def tl_drop drop_Suc [symmetric] Suc_diff_Suc flip: drop_Suc)

lemma shiftDown_set:
  "xs \<noteq> [] \<Longrightarrow> (shiftDown xs)[length xs - 1 := x] = tl xs @ [x]"
  by (cases xs rule: rev_cases) (auto simp: shiftDown_def list_update_append tl_append split: list.splits)

text \<open>The lines of a write: trimmed and not blank, as often as the code trims and tests them.\<close>

definition trimmed :: "string list \<Rightarrow> string list" where
  "trimmed ls = filter (\<lambda>l. l \<noteq> []) (map TrimSpace ls)"

definition logLines :: "string \<Rightarrow> string list" where
  "logLines p = trimmed (trimmed (Split (trimNewlines p) lf))"

definition written :: "string \<times> string \<Rightarrow> LogEntry list" where
  "written w = map (\<lambda>l. \<lparr>entryTime = fst w, Message = l\<rparr>) (logLines (snd w))"

text \<open>A store that holds the last entries of a history.\<close>

definition holds :: "LogStore option \<Rightarrow> int \<Rightarrow> LogEntry list \<Rightarrow> bool" where
  "holds store m hist \<longleftrightarrow> 0 < m \<and> store = Some \<lparr>maxEntries = m, entries = lastN (nat m) hist\<rparr>"

lemma holds_Add:
  assumes "holds store m hist"
  shows "holds (Add time raw store) m (hist @ map (\<lambda>l. \<lparr>entryTime = time, Message = l\<rparr>) (trimmed [raw]))"
proof -
  have m: "0 < m" and st: "store = Some \<lparr>maxEntries = m, entries = lastN (nat m) hist\<rparr>" using assms by (simp_all add: holds_def)
  show ?thesis
  proof (cases "TrimSpace raw = []")
    case True
    with m st show ?thesis by (simp add: holds_def Add_def trimmed_def)
  next
    case msg: False
    let ?e = "\<lparr>entryTime = time, Message = TrimSpace raw\<rparr>"
    have snoc: "lastN (nat m) (hist @ [?e]) = lastN (nat m - 1) hist @ [?e]" using m by (simp add: lastN_snoc)
    show ?thesis
    proof (cases "m \<le> int (length hist)")
      case True
      then have ne: "lastN (nat m) hist \<noteq> []" and len: "length (lastN (nat m) hist) = nat m" using m by (auto simp: lastN_def)
      have "(shiftDown (lastN (nat m) hist))[nat m - 1 := ?e] = lastN (nat m) (hist @ [?e])"
        using shiftDown_set [OF ne, of ?e] len True tl_lastN [of "nat m" hist] snoc by simp
      with True m msg st show ?thesis by (simp add: holds_def Add_def trimmed_def len)
    next
      case False
      then have "lastN (nat m) hist = hist" "lastN (nat m) (hist @ [?e]) = hist @ [?e]" by (simp_all add: lastN_def)
      with False m msg st show ?thesis by (simp add: holds_def Add_def trimmed_def)
    qed
  qed
qed

lemma trimmed_Cons: "trimmed (l # ls) = trimmed [l] @ trimmed ls"
  by (simp add: trimmed_def)

lemma holds_chunks:
  "holds store m hist \<Longrightarrow>
   holds (fold (\<lambda>chunk st. let line = TrimSpace chunk in if line \<noteq> [] then Add time line st else st) chunks store) m
     (hist @ map (\<lambda>l. \<lparr>entryTime = time, Message = l\<rparr>) (trimmed (trimmed chunks)))"
proof (induction chunks arbitrary: store hist)
  case Nil
  then show ?case by (simp add: trimmed_def)
next
  case (Cons chunk chunks)
  show ?case
  proof (cases "TrimSpace chunk = []")
    case True
    with Cons show ?thesis by (simp add: trimmed_def)
  next
    case False
    then have "trimmed (trimmed (chunk # chunks)) = trimmed [TrimSpace chunk] @ trimmed (trimmed chunks)"
      by (simp add: trimmed_def)
    with Cons.IH [OF holds_Add [OF Cons.prems, of time "TrimSpace chunk"]] False show ?thesis by (simp add: Let_def)
  qed
qed

lemma holds_LogWrite: "holds store m hist \<Longrightarrow> holds (snd (LogWrite (fst w) (snd w) store)) m (hist @ written w)"
  using holds_chunks [of store m hist "fst w" "Split (trimNewlines (snd w)) lf"]
  by (auto simp: LogWrite_def written_def logLines_def holds_def)

lemma holds_all:
  "holds store m hist \<Longrightarrow>
   holds (fold (\<lambda>w st. snd (LogWrite (fst w) (snd w) st)) ws store) m (hist @ concat (map written ws))"
proof (induction ws arbitrary: store hist)
  case (Cons w ws)
  from Cons.IH [OF holds_LogWrite [OF Cons.prems, of w]] show ?case by simp
qed simp

section \<open>Property\<close>

text \<open>
  C29. The store is the tail of the log: after any writes, a query returns, oldest first, exactly the last
  lines that were written, as many as asked for and at most as many as the store is built for.
\<close>

theorem recent_logs_are_the_last_lines:
  "Snapshot limit (fold (\<lambda>w st. snd (LogWrite (fst w) (snd w) st)) ws (Some (NewLogStore m)))
   = lastN (let size = (if m \<le> 0 then 200 else nat m) in if limit \<le> 0 then size else min (nat limit) size)
       (concat (map written ws))"
proof -
  let ?m = "if m \<le> 0 then 200 else m" and ?hist = "concat (map written ws)"
  have "holds (Some (NewLogStore m)) ?m []" by (simp add: holds_def NewLogStore_def lastN_def)
  from holds_all [OF this, of ws]
  have st: "fold (\<lambda>w st. snd (LogWrite (fst w) (snd w) st)) ws (Some (NewLogStore m))
      = Some \<lparr>maxEntries = ?m, entries = lastN (nat ?m) ?hist\<rparr>" by (simp add: holds_def)
  have size: "nat ?m = (if m \<le> 0 then 200 else nat m)" by simp
  have "Snapshot limit (Some \<lparr>maxEntries = k, entries = lastN (nat k) hist\<rparr>)
      = lastN (if limit \<le> 0 then nat k else min (nat limit) (nat k)) hist" for k hist
    by (auto simp: Snapshot_def Let_def lastN_def nat_diff_distrib min_def)
  then show ?thesis unfolding st size [symmetric] Let_def by simp
qed

end
