(* ===== verification/Go_Float.thy ===== *)
theory Go_Float
  imports Complex_Main "HOL-Library.Log_Nat" Go_Strings
begin

text \<open>
  The numbers of type \<^verbatim>\<open>float64\<close>: finite values as the rational they denote, the infinities and
  not-a-number. The arithmetic rounds the exact result to 53 bits, to nearest and ties to even,
  with gradual underflow, as IEEE 754 demands. The sign of zero is not represented.
\<close>

section \<open>Rounding\<close>

datatype float64 = Fin rat | PosInf | NegInf | NaN

text \<open>The binary exponent of a positive number.\<close>

definition expo :: "rat \<Rightarrow> int" where
  "expo x = (let (n, d) = quotient_of x; k = bitlen n - bitlen d in if 2 powi k \<le> x then k else k - 1)"

definition roundEven :: "rat \<Rightarrow> int" where
  "roundEven x =
    (let f = \<lfloor>x\<rfloor>; r = x - of_int f in
     if r < 1 / 2 then f else if 1 / 2 < r then f + 1 else if even f then f else f + 1)"

definition scaleOf :: "rat \<Rightarrow> int" where
  "scaleOf x = max (expo x - 52) (- 1074)"

definition roundPos :: "rat \<Rightarrow> rat" where
  "roundPos x = of_int (roundEven (x / 2 powi scaleOf x)) * 2 powi scaleOf x"

definition maxFloat :: rat where
  "maxFloat = (2 ^ 53 - 1) * 2 ^ 971"

definition round64 :: "rat \<Rightarrow> float64" where
  "round64 x =
    (if x = 0 then Fin 0
     else if 0 < x then (let r = roundPos x in if r \<le> maxFloat then Fin r else PosInf)
     else (let r = roundPos (- x) in if r \<le> maxFloat then Fin (- r) else NegInf))"

section \<open>Operations\<close>

fun negF :: "float64 \<Rightarrow> float64" where
  "negF (Fin x) = Fin (- x)"
| "negF PosInf = NegInf"
| "negF NegInf = PosInf"
| "negF NaN = NaN"

fun addF :: "float64 \<Rightarrow> float64 \<Rightarrow> float64" where
  "addF (Fin x) (Fin y) = round64 (x + y)"
| "addF NaN _ = NaN"
| "addF _ NaN = NaN"
| "addF PosInf NegInf = NaN"
| "addF NegInf PosInf = NaN"
| "addF PosInf _ = PosInf"
| "addF _ PosInf = PosInf"
| "addF NegInf _ = NegInf"
| "addF _ NegInf = NegInf"

definition subF :: "float64 \<Rightarrow> float64 \<Rightarrow> float64" where
  "subF a b = addF a (negF b)"

fun positive :: "float64 \<Rightarrow> bool" where
  "positive (Fin x) = (0 < x)"
| "positive PosInf = True"
| "positive _ = False"

fun mulF :: "float64 \<Rightarrow> float64 \<Rightarrow> float64" where
  "mulF (Fin x) (Fin y) = round64 (x * y)"
| "mulF NaN _ = NaN"
| "mulF _ NaN = NaN"
| "mulF a b = (if a = Fin 0 \<or> b = Fin 0 then NaN else if positive a = positive b then PosInf else NegInf)"

text \<open>Division by zero gives the infinity of the sign of the dividend, for a divisor zero without sign.\<close>

fun divF :: "float64 \<Rightarrow> float64 \<Rightarrow> float64" where
  "divF (Fin x) (Fin y) =
    (if y = 0 then (if x = 0 then NaN else if 0 < x then PosInf else NegInf) else round64 (x / y))"
| "divF NaN _ = NaN"
| "divF _ NaN = NaN"
| "divF (Fin x) _ = Fin 0"
| "divF a (Fin y) = (if positive a = (0 \<le> y) then PosInf else NegInf)"
| "divF a b = NaN"

text \<open>Comparisons are false when one side is not a number.\<close>

fun lessF :: "float64 \<Rightarrow> float64 \<Rightarrow> bool" where
  "lessF (Fin x) (Fin y) = (x < y)"
| "lessF NaN _ = False"
| "lessF _ NaN = False"
| "lessF a b = (a \<noteq> b \<and> (a = NegInf \<or> b = PosInf))"

definition leF :: "float64 \<Rightarrow> float64 \<Rightarrow> bool" where
  "leF a b \<longleftrightarrow> lessF a b \<or> a = b \<and> a \<noteq> NaN"

definition float64OfInt :: "int \<Rightarrow> float64" where
  "float64OfInt n = round64 (of_int n)"

text \<open>\<open>Duration.Seconds\<close>, for a duration in nanoseconds: whole seconds and the rest are converted apart.\<close>

definition quot :: "int \<Rightarrow> int \<Rightarrow> int" where
  "quot a b = (if 0 \<le> a then a div b else - (- a div b))"

definition Seconds :: "int \<Rightarrow> float64" where
  "Seconds d =
    (let sec = quot d 1000000000; nsec = d - sec * 1000000000
     in addF (float64OfInt sec) (divF (float64OfInt nsec) (float64OfInt 1000000000)))"

section \<open>Lemmas on rounding\<close>

lemma two_powi_mono: "m \<le> n \<Longrightarrow> (2 :: rat) powi m \<le> 2 powi n"
  by (rule power_int_increasing) auto

lemma two_powi_less: "m < n \<Longrightarrow> (2 :: rat) powi m < 2 powi n"
  by (rule power_int_strict_increasing) auto

lemma two_powi_pos [simp]: "0 < (2 :: rat) powi n"
  by simp

lemma two_powi_add: "(2 :: rat) powi (m + n) = 2 powi m * 2 powi n"
  by (simp add: power_int_add)

lemma bitlen_rat:
  assumes "0 < n"
  shows "2 powi (bitlen n - 1) \<le> (of_int n :: rat)" and "(of_int n :: rat) < 2 powi bitlen n"
proof -
  have b: "2 ^ nat (bitlen n - 1) \<le> n" "n < 2 ^ nat (bitlen n)" using bitlen_bounds [OF assms] by auto
  have "1 \<le> bitlen n" using assms by (simp add: bitlen_alt_def)
  then have p: "(2 :: rat) powi (bitlen n - 1) = of_int (2 ^ nat (bitlen n - 1))" "(2 :: rat) powi bitlen n = of_int (2 ^ nat (bitlen n))"
    by (simp_all add: power_int_def)
  show "2 powi (bitlen n - 1) \<le> (of_int n :: rat)" unfolding p(1) using b(1) by (simp only: of_int_le_iff)
  show "(of_int n :: rat) < 2 powi bitlen n" unfolding p(2) using b(2) by (simp only: of_int_less_iff)
qed

lemma expo_bounds:
  assumes "0 < x"
  shows "2 powi expo x \<le> x" and "x < 2 powi (expo x + 1)"
proof -
  obtain n d where q: "quotient_of x = (n, d)" by fastforce
  have d: "0 < d" using quotient_of_denom_pos [OF q] .
  have x: "x = of_int n / of_int d" using quotient_of_div [OF q] .
  have n: "0 < n" using assms x d by (simp add: zero_less_divide_iff)
  let ?k = "bitlen n - bitlen d"
  have up: "x < 2 powi (?k + 1)"
  proof -
    have "x < 2 powi bitlen n / of_int d" unfolding x using bitlen_rat(2) [OF n] d by (simp add: divide_strict_right_mono)
    also have "\<dots> \<le> 2 powi bitlen n / 2 powi (bitlen d - 1)"
      using bitlen_rat(1) [OF d] by (intro divide_left_mono) (use d in auto)
    also have "\<dots> = 2 powi (?k + 1)" by (simp add: power_int_diff [symmetric] algebra_simps)
    finally show ?thesis .
  qed
  have low: "2 powi (?k - 1) \<le> x"
  proof -
    have "(2 :: rat) powi (?k - 1) = 2 powi (bitlen n - 1) / 2 powi bitlen d" by (simp add: power_int_diff [symmetric] algebra_simps)
    also have "\<dots> \<le> of_int n / 2 powi bitlen d" using bitlen_rat(1) [OF n] by (intro divide_right_mono) auto
    also have "\<dots> \<le> of_int n / of_int d" using bitlen_rat(2) [OF d] d n by (intro divide_left_mono) (auto simp: less_imp_le)
    finally show ?thesis unfolding x .
  qed
  have e: "expo x = (if 2 powi ?k \<le> x then ?k else ?k - 1)" by (simp add: expo_def q)
  show "2 powi expo x \<le> x" using low by (simp add: e)
  show "x < 2 powi (expo x + 1)" using up by (auto simp: e)
qed

lemma expo_mono: "0 < x \<Longrightarrow> x \<le> y \<Longrightarrow> expo x \<le> expo y"
proof (rule ccontr)
  assume x: "0 < x" and xy: "x \<le> y" and "\<not> expo x \<le> expo y"
  then have "(2 :: rat) powi (expo y + 1) \<le> 2 powi expo x" by (intro two_powi_mono) simp
  with expo_bounds(1) [OF x] expo_bounds(2) [of y] x xy show False by simp
qed

lemma roundEven_mono: "x \<le> y \<Longrightarrow> roundEven x \<le> roundEven y"
proof -
  assume xy: "x \<le> y"
  then have f: "\<lfloor>x\<rfloor> \<le> \<lfloor>y\<rfloor>" by (rule floor_mono)
  show ?thesis
  proof (cases "\<lfloor>x\<rfloor> = \<lfloor>y\<rfloor>")
    case True
    with xy show ?thesis by (simp add: roundEven_def Let_def)
  next
    case False
    with f show ?thesis by (simp add: roundEven_def Let_def)
  qed
qed

lemma roundEven_of_int [simp]: "roundEven (of_int n) = n"
  by (simp add: roundEven_def)

lemma two_powi_int: "0 \<le> n \<Longrightarrow> (2 :: rat) powi n = of_int (2 ^ nat n)"
  by (simp add: power_int_def)

lemma scaleOf_mono: "0 < x \<Longrightarrow> x \<le> y \<Longrightarrow> scaleOf x \<le> scaleOf y"
  using expo_mono [of x y] by (simp add: scaleOf_def)

text \<open>A multiple of the unit of rounding is a fixed point.\<close>

lemma roundEven_multiple: "s \<le> e \<Longrightarrow> roundEven (of_int m * 2 powi e / 2 powi s) = m * 2 ^ nat (e - s)"
proof -
  assume "s \<le> e"
  then have "of_int m * 2 powi e / 2 powi s = (of_int (m * 2 ^ nat (e - s)) :: rat)"
    by (simp add: power_int_diff [symmetric] two_powi_int times_divide_eq_right [symmetric] del: times_divide_eq_right)
  then show ?thesis by (simp only: roundEven_of_int)
qed

lemma multiple_restored: "s \<le> e \<Longrightarrow> of_int (m * 2 ^ nat (e - s)) * (2 :: rat) powi s = of_int m * 2 powi e"
  using two_powi_int [of "e - s"] two_powi_add [of "e - s" s] by (simp add: mult.assoc)

lemma roundPos_upper:
  assumes "0 < x" and "x \<le> of_int m * 2 powi e" and "scaleOf x \<le> e"
  shows "roundPos x \<le> of_int m * 2 powi e"
proof -
  have "x / 2 powi scaleOf x \<le> of_int m * 2 powi e / 2 powi scaleOf x" using assms(2) by (intro divide_right_mono) auto
  then have "roundEven (x / 2 powi scaleOf x) \<le> m * 2 ^ nat (e - scaleOf x)"
    using roundEven_mono roundEven_multiple [OF assms(3), of m] by metis
  then have "roundPos x \<le> of_int (m * 2 ^ nat (e - scaleOf x)) * 2 powi scaleOf x"
    unfolding roundPos_def by (intro mult_right_mono) (simp_all only: of_int_le_iff zero_le_power_int zero_le_numeral)
  then show ?thesis unfolding multiple_restored [OF assms(3)] .
qed

lemma roundPos_lower:
  assumes "0 < x" and "of_int m * 2 powi e \<le> x" and "scaleOf x \<le> e"
  shows "of_int m * 2 powi e \<le> roundPos x"
proof -
  have "of_int m * 2 powi e / 2 powi scaleOf x \<le> x / 2 powi scaleOf x" using assms(2) by (intro divide_right_mono) auto
  then have "m * 2 ^ nat (e - scaleOf x) \<le> roundEven (x / 2 powi scaleOf x)"
    using roundEven_mono roundEven_multiple [OF assms(3), of m] by metis
  then have "of_int (m * 2 ^ nat (e - scaleOf x)) * 2 powi scaleOf x \<le> roundPos x"
    unfolding roundPos_def by (intro mult_right_mono) (simp_all only: of_int_le_iff zero_le_power_int zero_le_numeral)
  then show ?thesis unfolding multiple_restored [OF assms(3)] .
qed

lemma roundPos_mono:
  assumes "0 < x" and "x \<le> y"
  shows "roundPos x \<le> roundPos y"
proof (cases "scaleOf x = scaleOf y")
  case True
  have "x / 2 powi scaleOf x \<le> y / 2 powi scaleOf x" using assms by (intro divide_right_mono) auto
  then show ?thesis unfolding roundPos_def True [symmetric]
    by (intro mult_right_mono) (auto dest: roundEven_mono)
next
  case False
  with scaleOf_mono [OF assms] have less: "scaleOf x < scaleOf y" by simp
  then have y: "scaleOf y = expo y - 52" by (auto simp: scaleOf_def split: if_splits)
  have "expo x + 1 \<le> expo y" using less y by (auto simp: scaleOf_def max_def split: if_splits)
  then have "x \<le> of_int 1 * 2 powi expo y"
    using expo_bounds(2) [OF assms(1)] two_powi_mono [of "expo x + 1" "expo y"] by simp
  then have "roundPos x \<le> of_int 1 * 2 powi expo y" using less y by (intro roundPos_upper [OF assms(1)]) auto
  also have "\<dots> \<le> roundPos y"
    using expo_bounds(1) [of y] assms y by (intro roundPos_lower) auto
  finally show ?thesis .
qed

section \<open>Representable numbers\<close>

definition representable :: "rat \<Rightarrow> bool" where
  "representable x \<longleftrightarrow> (\<exists>m e. x = of_int m * 2 powi e \<and> 0 \<le> m \<and> m < 2 ^ 53 \<and> - 1074 \<le> e)"

lemma representable_scale:
  assumes "0 < m" and "m < 2 ^ 53" and "- 1074 \<le> e"
  shows "scaleOf (of_int m * 2 powi e) \<le> e"
proof -
  let ?x = "of_int m * 2 powi e :: rat"
  have pos: "0 < ?x" using assms(1) by simp
  have "(of_int m :: rat) < of_int (2 ^ 53)" using assms(2) by (simp only: of_int_less_iff)
  then have "?x < 2 powi 53 * 2 powi e" by (intro mult_strict_right_mono) simp_all
  then have "?x < 2 powi (53 + e)" by (simp only: two_powi_add)
  then have "(2 :: rat) powi expo ?x < 2 powi (53 + e)" using expo_bounds(1) [OF pos] by (rule order.strict_trans1 [rotated])
  then have "expo ?x < 53 + e" using two_powi_mono [of "53 + e" "expo ?x"] by (meson leD leI)
  then show ?thesis using assms(3) by (simp add: scaleOf_def)
qed

lemma roundPos_representable: "0 < x \<Longrightarrow> representable x \<Longrightarrow> roundPos x = x"
proof -
  assume pos: "0 < x" and "representable x"
  then obtain m e where x: "x = of_int m * 2 powi e" and m: "0 \<le> m" "m < 2 ^ 53" "- 1074 \<le> e"
    by (auto simp: representable_def)
  have "0 < m" using pos x m(1) by (cases "m = 0") auto
  then have "scaleOf x \<le> e" unfolding x using m by (intro representable_scale)
  with roundPos_upper [OF pos, of m e] roundPos_lower [OF pos, of m e] x show ?thesis by simp
qed

lemma roundPos_nonneg: "0 < x \<Longrightarrow> 0 \<le> roundPos x"
proof -
  assume x: "0 < x"
  then have "roundEven 0 \<le> roundEven (x / 2 powi scaleOf x)" by (intro roundEven_mono) simp
  moreover have "roundEven 0 = 0" using roundEven_of_int [of 0] by simp
  ultimately show ?thesis by (simp add: roundPos_def)
qed

text \<open>A number between zero and a float is rounded to a number between them.\<close>

lemma round64_between:
  assumes "0 \<le> x" and "x \<le> y" and "representable y" and "y \<le> maxFloat"
  obtains r where "round64 x = Fin r" and "0 \<le> r" and "r \<le> y"
proof (cases "x = 0")
  case True
  with that [of 0] assms show ?thesis by (simp add: round64_def)
next
  case False
  then have x: "0 < x" "0 < y" using assms by auto
  have "roundPos x \<le> y" using roundPos_mono [OF x(1) assms(2)] roundPos_representable [OF x(2) assms(3)] by simp
  with that [of "roundPos x"] roundPos_nonneg [OF x(1)] x assms(4) show ?thesis by (simp add: round64_def Let_def)
qed

lemma round64_representable: "0 \<le> x \<Longrightarrow> representable x \<Longrightarrow> x \<le> maxFloat \<Longrightarrow> round64 x = Fin x"
  by (auto simp: round64_def roundPos_representable)

lemma representable_int: "0 \<le> n \<Longrightarrow> n < 2 ^ 53 \<Longrightarrow> representable (of_int n)"
  unfolding representable_def by (rule exI [of _ n], rule exI [of _ 0]) simp

text \<open>Subtracting one is exact below 2 to the 53.\<close>

lemma representable_minus_one:
  assumes "representable x" and "1 \<le> x" and "x \<le> 2 ^ 53"
  shows "representable (x - 1)"
proof -
  obtain m e where x: "x = of_int m * 2 powi e" and m: "0 \<le> m" "m < 2 ^ 53" "- 1074 \<le> e"
    using assms(1) by (auto simp: representable_def)
  show ?thesis
  proof (cases "0 \<le> e")
    case True
    then have n: "x - 1 = of_int (m * 2 ^ nat e - 1)" by (simp add: x two_powi_int)
    then have "0 \<le> m * 2 ^ nat e - 1" "m * 2 ^ nat e - 1 < 2 ^ 53"
      using assms(2,3) of_int_0_le_iff [of "m * 2 ^ nat e - 1", where ?'a = rat]
        of_int_less_iff [of "m * 2 ^ nat e - 1" "2 ^ 53", where ?'a = rat] by auto
    then show ?thesis unfolding n by (rule representable_int)
  next
    case False
    have one: "(1 :: rat) = of_int (2 ^ nat (- e)) * 2 powi e"
      using False two_powi_add [of "- e" e] by (simp add: two_powi_int)
    then have n: "x - 1 = of_int (m - 2 ^ nat (- e)) * 2 powi e" by (simp add: x left_diff_distrib)
    moreover have "0 \<le> m - 2 ^ nat (- e)"
      using assms(2) n zero_le_mult_iff [of "of_int (m - 2 ^ nat (- e)) :: rat" "2 powi e"]
      by (metis diff_ge_0_iff_ge of_int_0_le_iff two_powi_pos linorder_not_less order_less_le)
    moreover have "m - 2 ^ nat (- e) < 2 ^ 53" using m(2) by (smt (verit) zero_le_power)
    ultimately show ?thesis using m(3) unfolding representable_def by blast
  qed
qed

lemma representableI: "x = of_int m * 2 powi e \<Longrightarrow> - 1074 \<le> e \<Longrightarrow> 0 \<le> m \<Longrightarrow> m < 2 ^ 53 \<Longrightarrow> representable x"
  unfolding representable_def by blast

lemma representable_roundPos:
  assumes "0 < x"
  shows "representable (roundPos x)"
proof -
  let ?s = "scaleOf x" and ?k = "roundEven (x / 2 powi scaleOf x)"
  have low: "- 1074 \<le> ?s" "expo x - 52 \<le> ?s" by (simp_all add: scaleOf_def)
  have "x \<le> 2 powi (?s + 53)"
    using expo_bounds(2) [OF assms] two_powi_mono [of "expo x + 1" "?s + 53"] low by simp
  then have "x / 2 powi ?s \<le> of_int (2 ^ 53)" by (simp add: two_powi_add divide_le_eq)
  then have top: "?k \<le> 2 ^ 53" using roundEven_mono [of _ "of_int (2 ^ 53)"] by (simp only: roundEven_of_int)
  have bottom: "0 \<le> ?k" using roundEven_mono [of 0 "x / 2 powi ?s"] roundEven_of_int [of 0] assms by simp
  show ?thesis
  proof (cases "?k = 2 ^ 53")
    case True
    then have "roundPos x = of_int (2 ^ 52) * 2 powi (?s + 1)" by (simp add: roundPos_def two_powi_add)
    moreover have "- 1074 \<le> ?s + 1" using low(1) by simp
    ultimately show ?thesis by (rule representableI) simp_all
  next
    case False
    show ?thesis by (rule representableI [OF roundPos_def]) (use False top bottom low in simp_all)
  qed
qed

lemma representable_zero [simp]: "representable 0"
  using representable_int [of 0] by simp

lemma round64_Fin: "round64 x = Fin r \<Longrightarrow> 0 \<le> x \<Longrightarrow> representable r \<and> 0 \<le> r \<and> r \<le> maxFloat"
  using representable_roundPos [of x] roundPos_nonneg [of x]
  by (auto simp: round64_def Let_def maxFloat_def split: if_splits)

lemma round64_nonneg: "0 \<le> x \<Longrightarrow> round64 x = PosInf \<or> (\<exists>r. round64 x = Fin r)"
  by (auto simp: round64_def Let_def)

section \<open>The error of rounding\<close>

text \<open>Half a unit in the last place is at most this part of the number.\<close>

definition eps :: rat where "eps = 2 powi (- 53)"
definition tiny :: rat where "tiny = 2 powi (- 1075)"

lemma eps_pos [simp]: "0 < eps" "0 \<le> eps" and tiny_pos [simp]: "0 < tiny" "0 \<le> tiny"
  unfolding eps_def tiny_def by (simp_all only: two_powi_pos less_imp_le)

lemma roundEven_upper: "of_int (roundEven x) \<le> x + 1 / 2"
proof -
  have "of_int \<lfloor>x\<rfloor> \<le> x" by (rule of_int_floor_le)
  then show ?thesis by (simp add: roundEven_def Let_def) linarith
qed

lemma roundPos_error:
  assumes "0 < x"
  shows "roundPos x \<le> x + 2 powi (scaleOf x) / 2"
proof -
  have "of_int (roundEven (x / 2 powi scaleOf x)) * 2 powi scaleOf x \<le> (x / 2 powi scaleOf x + 1 / 2) * 2 powi scaleOf x"
    using roundEven_upper by (intro mult_right_mono) auto
  then show ?thesis by (simp add: roundPos_def distrib_right)
qed

lemma half_scale_normal:
  assumes "0 < x"
  shows "2 powi (expo x - 52) / 2 \<le> x * eps"
proof -
  have "(2 :: rat) powi (expo x - 52) / 2 = 2 powi expo x * eps"
    using two_powi_add [of "expo x" "- 53"] two_powi_add [of "expo x - 53" 1] by (simp add: eps_def)
  also have "\<dots> \<le> x * eps" using expo_bounds(1) [OF assms] by (intro mult_right_mono) simp_all
  finally show ?thesis .
qed

lemma roundPos_upper_normal:
  assumes "0 < x" and "2 powi (- 1022) \<le> x"
  shows "roundPos x \<le> x * (1 + eps)"
proof -
  have "(2 :: rat) powi (- 1022) < 2 powi (expo x + 1)" using assms(2) expo_bounds(2) [OF assms(1)] by (rule order.strict_trans1)
  then have "- 1022 < expo x + 1" using two_powi_mono [of "expo x + 1" "- 1022"] by (meson leD leI)
  then have "scaleOf x = expo x - 52" by (simp add: scaleOf_def)
  with roundPos_error [OF assms(1)] half_scale_normal [OF assms(1)] show ?thesis by (simp add: distrib_left)
qed

lemma roundPos_upper_any:
  assumes "0 < x"
  shows "roundPos x \<le> x * (1 + eps) + tiny"
proof -
  have "(2 :: rat) powi scaleOf x / 2 \<le> x * eps + tiny"
  proof (cases "- 1074 \<le> expo x - 52")
    case True
    then have "scaleOf x = expo x - 52" by (simp add: scaleOf_def)
    with half_scale_normal [OF assms] tiny_pos(2) show ?thesis by (simp add: add_increasing2)
  next
    case False
    then have "scaleOf x = - 1074" by (simp add: scaleOf_def)
    moreover have "(2 :: rat) powi (- 1074) / 2 = tiny" using two_powi_add [of "- 1075" 1] by (simp add: tiny_def)
    moreover have "0 \<le> x * eps" using assms by simp
    ultimately show ?thesis by simp
  qed
  with roundPos_error [OF assms] show ?thesis by (simp add: distrib_left)
qed

text \<open>The part of a rounded number below a bound, whether or not the rounding overflows.\<close>

fun atMost :: "rat \<Rightarrow> float64 \<Rightarrow> rat" where
  "atMost c (Fin x) = min c x"
| "atMost c PosInf = c"
| "atMost c NegInf = 0"
| "atMost c NaN = 0"

lemma atMost_round64:
  assumes "0 \<le> x" and "c \<le> maxFloat"
  shows "atMost c (round64 x) \<le> x * (1 + eps) + tiny"
proof (cases "x = 0")
  case True
  then show ?thesis using tiny_pos(2) by (simp add: round64_def min_le_iff_disj)
next
  case False
  with assms roundPos_upper_any [of x] show ?thesis by (auto simp: round64_def Let_def min_le_iff_disj)
qed

end
