(* ===== verification/Core_Json.thy ===== *)
theory Core_Json
  imports Core_Logs Go_Float
begin

text \<open>
  The structured log of \<^verbatim>\<open>core/logging.go\<close>: its entries, their encoding by \<^verbatim>\<open>encoding/json\<close> and the line that is written. Texts of
  clients go into these lines, so a reader of the log must get them back as one value and one line. The
  text of a floating point number is an argument.
\<close>

section \<open>Encoding of strings\<close>

definition hexDigit :: "nat \<Rightarrow> byte" where
  "hexDigit n = (if n < 10 then char_of (48 + n) else char_of (87 + n))"

text \<open>Bytes of ASCII that are copied: no control character, quote, backslash, or one of the characters that are special in HTML.\<close>

definition htmlSafe :: "byte \<Rightarrow> bool" where
  "htmlSafe c \<longleftrightarrow> 0x20 \<le> byteval c \<and> c \<noteq> CHR 0x22 \<and> c \<noteq> CHR 0x5C \<and> c \<noteq> CHR ''<'' \<and> c \<noteq> CHR ''>'' \<and> c \<noteq> CHR ''&''"

definition escapeByte :: "byte \<Rightarrow> string" where
  "escapeByte c =
    CHR 0x5C #
    (if c = CHR 0x22 \<or> c = CHR 0x5C then [c]
     else if c = CHR 0x08 then ''b''
     else if c = CHR 0x0C then ''f''
     else if c = lf then ''n''
     else if c = cr then ''r''
     else if c = tab then ''t''
     else ''u00'' @ [hexDigit (byteval c div 16), hexDigit (byteval c mod 16)])"

function appendString :: "string \<Rightarrow> string" where
  "appendString s =
    (if s = [] then []
     else if byteval (hd s) < 0x80 then (if htmlSafe (hd s) then [hd s] else escapeByte (hd s)) @ appendString (tl s)
     else
      (let (r, n) = decodeRune s in
       (if r = RuneError \<and> n = 1 then CHR 0x5C # ''ufffd''
        else if r = 0x2028 \<or> r = 0x2029 then CHR 0x5C # ''u202'' @ [hexDigit (r mod 16)]
        else take n s) @ appendString (drop n s)))"
  by pat_completeness auto
termination
proof (relation "measure length")
  fix s x r n
  assume s: "s \<noteq> []" "x = decodeRune s" "(r, n) = x"
  then have "n = snd (decodeRune s)" by (auto simp: prod_eq_iff)
  with s(1) show "(drop n s, s) \<in> measure length" by (cases s) auto
qed auto

declare appendString.simps [simp del]

definition jsonString :: "string \<Rightarrow> string" where
  "jsonString s = CHR 0x22 # appendString s @ [CHR 0x22]"

section \<open>Entries\<close>

record securityLogEntry =
  Time :: string
  Event :: string
  RemoteAddr :: string
  Field :: string
  Pattern :: string
  RuleID :: string
  Status :: int
  entryReason :: string

record accessLogEntry =
  accTime :: string
  accEvent :: string
  accRemoteAddr :: string
  accMethod :: string
  accPath :: string
  accStatus :: int
  accBytes :: int
  DurationMS :: float64

datatype jsonValue = Text string | Number string

definition valueText :: "jsonValue \<Rightarrow> string" where
  "valueText v = (case v of Text s \<Rightarrow> jsonString s | Number t \<Rightarrow> t)"

definition fieldText :: "string \<times> jsonValue \<Rightarrow> string" where
  "fieldText f = jsonString (fst f) @ '':'' @ valueText (snd f)"

fun joinFields :: "(string \<times> jsonValue) list \<Rightarrow> string" where
  "joinFields [] = []"
| "joinFields [f] = fieldText f"
| "joinFields (f # fs) = fieldText f @ '','' @ joinFields fs"

definition objectText :: "(string \<times> jsonValue) list \<Rightarrow> string" where
  "objectText fs = ''{'' @ joinFields fs @ ''}''"

text \<open>An empty text is left out where the tag says so.\<close>

definition omitEmpty :: "string \<Rightarrow> string \<Rightarrow> (string \<times> jsonValue) list" where
  "omitEmpty name s = (if s = [] then [] else [(name, Text s)])"

definition securityFields :: "securityLogEntry \<Rightarrow> (string \<times> jsonValue) list" where
  "securityFields e =
    [(''time'', Text (Time e)), (''event'', Text (Event e)), (''remote_addr'', Text (RemoteAddr e))]
    @ omitEmpty ''field'' (Field e) @ omitEmpty ''pattern'' (Pattern e) @ omitEmpty ''rule_id'' (RuleID e)
    @ [(''status'', Number (Itoa (Status e)))] @ omitEmpty ''reason'' (entryReason e)"

definition accessFields :: "(float64 \<Rightarrow> string) \<Rightarrow> accessLogEntry \<Rightarrow> (string \<times> jsonValue) list" where
  "accessFields formatFloat e =
    [(''time'', Text (accTime e)), (''event'', Text (accEvent e)), (''remote_addr'', Text (accRemoteAddr e)),
     (''method'', Text (accMethod e)), (''path'', Text (accPath e)), (''status'', Number (Itoa (accStatus e))),
     (''bytes'', Number (Itoa (accBytes e))), (''duration_ms'', Number (formatFloat (DurationMS e)))]"

text \<open>The address of a connection, empty for a nil connection or address.\<close>

definition remoteAddr :: "string option \<Rightarrow> string" where
  "remoteAddr conn = (case conn of None \<Rightarrow> [] | Some addr \<Rightarrow> addr)"

definition securityEntry :: "string \<Rightarrow> string option \<Rightarrow> string \<Rightarrow> string \<Rightarrow> string \<Rightarrow> int \<Rightarrow> securityLogEntry" where
  "securityEntry now conn field pattern rule status =
    \<lparr>Time = now, Event = ''waf_block'', RemoteAddr = remoteAddr conn, Field = field, Pattern = pattern, RuleID = rule,
     Status = status, entryReason = []\<rparr>"

definition rejectEntry :: "string \<Rightarrow> string option \<Rightarrow> string \<Rightarrow> int \<Rightarrow> securityLogEntry" where
  "rejectEntry now conn reason status =
    \<lparr>Time = now, Event = ''parse_reject'', RemoteAddr = remoteAddr conn, Field = [], Pattern = [], RuleID = [],
     Status = status, entryReason = reason\<rparr>"

definition accessEntry :: "string \<Rightarrow> string option \<Rightarrow> string \<Rightarrow> string \<Rightarrow> int \<Rightarrow> int \<Rightarrow> int \<Rightarrow> accessLogEntry" where
  "accessEntry now conn method path status n duration =
    \<lparr>accTime = now, accEvent = ''access'', accRemoteAddr = remoteAddr conn, accMethod = method, accPath = path,
     accStatus = status, accBytes = n, DurationMS = divF (float64OfInt (quot duration 1000)) (Fin 1000)\<rparr>"

text \<open>
  \<open>writeStructuredLog\<close>: encoding fails only for a floating point value that is not finite; then the line tells the error.
  \<open>log.Println\<close> puts its header in front and a line feed behind.
\<close>

definition writeStructuredLog :: "string \<Rightarrow> string \<Rightarrow> (string \<times> jsonValue) list option \<Rightarrow> string" where
  "writeStructuredLog header err entry =
    (case entry of
       None \<Rightarrow> header @ ''structured_log_error='' @ err @ [lf]
     | Some members \<Rightarrow> header @ objectText members @ [lf])"

definition marshalAccess :: "(float64 \<Rightarrow> string) \<Rightarrow> accessLogEntry \<Rightarrow> (string \<times> jsonValue) list option" where
  "marshalAccess formatFloat e = (case DurationMS e of Fin _ \<Rightarrow> Some (accessFields formatFloat e) | _ \<Rightarrow> None)"

section \<open>A reader\<close>

text \<open>The specification: a reader of JSON texts, with the escapes of the format. A control character inside a text is an error.\<close>

definition unescape :: "byte \<Rightarrow> byte option" where
  "unescape c =
    (if c = CHR 0x22 \<or> c = CHR 0x5C \<or> c = CHR ''/'' then Some c
     else if c = CHR ''b'' then Some (CHR 0x08)
     else if c = CHR ''f'' then Some (CHR 0x0C)
     else if c = CHR ''n'' then Some lf
     else if c = CHR ''r'' then Some cr
     else if c = CHR ''t'' then Some tab
     else None)"

definition hex4 :: "string \<Rightarrow> nat option" where
  "hex4 s =
    (case map unhex s of
       [Some a, Some b, Some c, Some d] \<Rightarrow> Some (a * 4096 + b * 256 + c * 16 + d)
     | _ \<Rightarrow> None)"

function readText :: "string \<Rightarrow> (string \<times> string) option" where
  "readText [] = None"
| "readText (c # s) =
    (if c = CHR 0x22 then Some ([], s)
     else if byteval c < 0x20 then None
     else if c \<noteq> CHR 0x5C then map_option (apfst (Cons c)) (readText s)
     else
      (case s of
         [] \<Rightarrow> None
       | e # t \<Rightarrow>
          if e = CHR ''u'' then
            (case hex4 (take 4 t) of
               None \<Rightarrow> None
             | Some r \<Rightarrow> map_option (apfst (append (encodeRune r))) (readText (drop 4 t)))
          else
            (case unescape e of
               None \<Rightarrow> None
             | Some d \<Rightarrow> map_option (apfst (Cons d)) (readText t))))"
  by pat_completeness auto
termination
  by (relation "measure length") auto

declare readText.simps(2) [simp del]

definition readJsonString :: "string \<Rightarrow> (string \<times> string) option" where
  "readJsonString s = (case s of c # t \<Rightarrow> if c = CHR 0x22 then readText t else None | [] \<Rightarrow> None)"

text \<open>Bytes that are no UTF-8 are replaced.\<close>

function validUTF8 :: "string \<Rightarrow> string" where
  "validUTF8 s =
    (if s = [] then []
     else
      (let (r, n) = decodeRune s in
       (if r = RuneError \<and> n = 1 then encodeRune RuneError else take n s) @ validUTF8 (drop n s)))"
  by pat_completeness auto
termination
proof (relation "measure length")
  fix s x r n
  assume s: "s \<noteq> []" "x = decodeRune s" "(r, n) = x"
  then have "n = snd (decodeRune s)" by (auto simp: prod_eq_iff)
  with s(1) show "(drop n s, s) \<in> measure length" by (cases s) auto
qed auto

declare validUTF8.simps [simp del]

lemma unhex_hexDigit: "n < 16 \<Longrightarrow> unhex (hexDigit n) = Some n"
proof -
  assume "n < 16"
  then have "n \<in> set [0..<16]" by simp
  then show ?thesis by (simp add: upt_rec) (elim disjE; simp add: hexDigit_def unhex_def; code_simp)
qed

lemma readText_plain:
  "c \<noteq> CHR 0x22 \<Longrightarrow> c \<noteq> CHR 0x5C \<Longrightarrow> 0x20 \<le> byteval c \<Longrightarrow> readText (c # s) = map_option (apfst (Cons c)) (readText s)"
  by (simp add: readText.simps)

lemma readText_u:
  "readText (CHR 0x5C # CHR ''u'' # a # b # c # d # s)
   = (case hex4 [a, b, c, d] of None \<Rightarrow> None | Some r \<Rightarrow> map_option (apfst (append (encodeRune r))) (readText s))"
  by (simp add: readText.simps(2) [of "CHR 0x5C"] split: option.split)

lemma readText_escape:
  "e \<noteq> CHR ''u'' \<Longrightarrow> unescape e = Some d \<Longrightarrow> readText (CHR 0x5C # e # s) = map_option (apfst (Cons d)) (readText s)"
  by (simp add: readText.simps(2) [of "CHR 0x5C"])

lemma readText_ascii:
  assumes "byteval c < 0x80"
  shows "readText ((if htmlSafe c then [c] else escapeByte c) @ t) = map_option (apfst (Cons c)) (readText t)"
proof (cases "htmlSafe c")
  case True
  then show ?thesis by (simp add: htmlSafe_def readText_plain)
next
  case False
  let ?named = "[CHR 0x22, CHR 0x5C, CHR 0x08, CHR 0x0C, lf, cr, tab]"
  show ?thesis
  proof (cases "c \<in> set ?named")
    case True
    with False show ?thesis by (auto simp: escapeByte_def unescape_def readText_escape)
  next
    case other: False
    have "byteval c div 16 < 16" using assms by simp
    then have "hex4 [CHR ''0'', CHR ''0'', hexDigit (byteval c div 16), hexDigit (byteval c mod 16)] = Some (byteval c)"
      using unhex_hexDigit [of "byteval c div 16"] unhex_hexDigit [of "byteval c mod 16"] by (simp add: hex4_def unhex_def isDigit_def)
    moreover have "encodeRune (byteval c) = [c]" using assms by (simp add: encodeRune_def)
    ultimately show ?thesis using False other by (simp add: escapeByte_def readText_u) (cases "readText t"; simp add: apfst_def map_prod_def)
  qed
qed

lemma readText_high:
  "list_all (\<lambda>c. 0x80 \<le> byteval c) bs \<Longrightarrow> readText (bs @ t) = map_option (apfst (append bs)) (readText t)"
proof (induction bs)
  case Nil
  then show ?case by (cases "readText t") auto
next
  case (Cons c bs)
  then have "c \<noteq> CHR 0x22" "c \<noteq> CHR 0x5C" "0x20 \<le> byteval c" by auto
  with Cons show ?case by (cases "readText t") (auto simp: readText_plain)
qed

text \<open>The multi-byte sequences.\<close>

lemma accept_bounds: "0x80 \<le> acceptLo b" "acceptHi b \<le> 0xBF"
  by (simp_all add: acceptLo_def acceptHi_def)

lemma decodeRune_sequence:
  assumes "0x80 \<le> byteval c" and "decodeRune (c # cs) = (r, n)" and "\<not> (r = RuneError \<and> n = 1)"
  obtains c1 rest where "cs = c1 # rest" "n = 2" "0x80 \<le> byteval c1" "byteval c1 \<le> 0xBF" "r < 0x2000"
  | c1 c2 rest where "cs = c1 # c2 # rest" "n = 3" "0x80 \<le> byteval c1" "byteval c1 \<le> 0xBF" "0x80 \<le> byteval c2" "byteval c2 \<le> 0xBF" "0xE0 \<le> byteval c"
      "r = (byteval c - 0xE0) * 4096 + (byteval c1 - 0x80) * 64 + (byteval c2 - 0x80)"
  | c1 c2 c3 rest where "cs = c1 # c2 # c3 # rest" "n = 4" "0x80 \<le> byteval c1" "0x80 \<le> byteval c2" "0x80 \<le> byteval c3" "0x10000 \<le> r"
proof (cases cs)
  case Nil
  with assms show ?thesis by (auto simp: decodeRune_def Let_def split: if_splits)
next
  case c1: (Cons c1 cs1)
  show ?thesis
  proof (cases "byteval c < 0xE0")
    case True
    then have "n = 2 \<and> r = (byteval c - 0xC0) * 64 + (byteval c1 - 0x80) \<and> acceptLo (byteval c) \<le> byteval c1 \<and> byteval c1 \<le> acceptHi (byteval c)"
      using assms c1 by (auto simp: decodeRune_def Let_def split: if_splits)
    with accept_bounds [of "byteval c"] True c1 that(1) show ?thesis by auto
  next
    case False
    then obtain c2 cs2 where c2: "cs1 = c2 # cs2" and a: "contByte (byteval c2)" "acceptLo (byteval c) \<le> byteval c1" "byteval c1 \<le> acceptHi (byteval c)"
      using assms c1 by (cases cs1) (auto simp: decodeRune_def Let_def split: if_splits)
    show ?thesis
    proof (cases "byteval c < 0xF0")
      case True
      then have "n = 3 \<and> r = (byteval c - 0xE0) * 4096 + (byteval c1 - 0x80) * 64 + (byteval c2 - 0x80)"
        using assms c1 c2 a False by (auto simp: decodeRune_def Let_def split: if_splits)
      with accept_bounds [of "byteval c"] True False c1 c2 a that(2) show ?thesis by (auto simp: contByte_def)
    next
      case big: False
      then obtain c3 cs3 where c3: "cs2 = c3 # cs3" and b: "contByte (byteval c3)" "n = 4"
          and r: "r = (byteval c - 0xF0) * 262144 + (byteval c1 - 0x80) * 4096 + (byteval c2 - 0x80) * 64 + (byteval c3 - 0x80)"
        using assms c1 c2 a by (cases cs2) (auto simp: decodeRune_def Let_def split: if_splits)
      have "0x10000 \<le> r"
      proof (cases "byteval c = 0xF0")
        case True
        then have "0x90 \<le> byteval c1" using a(2) by (simp add: acceptLo_def)
        then show ?thesis using r by simp
      next
        case False
        then have "1 \<le> byteval c - 0xF0" using big by simp
        then have "1 * 262144 \<le> (byteval c - 0xF0) * 262144" by (intro mult_right_mono) auto
        then show ?thesis using r by simp
      qed
      with accept_bounds [of "byteval c"] c1 c2 c3 a b that(3) show ?thesis by (auto simp: contByte_def)
    qed
  qed
qed

lemma decodeRune_high:
  assumes "0x80 \<le> byteval c" and "decodeRune (c # cs) = (r, n)" and "\<not> (r = RuneError \<and> n = 1)"
  shows "list_all (\<lambda>b. 0x80 \<le> byteval b) (take n (c # cs))"
  using decodeRune_sequence [OF assms] by cases (use assms(1) in auto)

lemma decodeRune_separator:
  assumes "0x80 \<le> byteval c" and "decodeRune (c # cs) = (r, n)" and "r = 0x2028 \<or> r = 0x2029"
  shows "take n (c # cs) = encodeRune r"
proof -
  have "\<not> (r = RuneError \<and> n = 1)" using assms(3) by (auto simp: RuneError_def)
  from decodeRune_sequence [OF assms(1,2) this] assms(3)
  obtain c1 c2 rest where s: "cs = c1 # c2 # rest" "n = 3" "0x80 \<le> byteval c1" "byteval c1 \<le> 0xBF" "0x80 \<le> byteval c2" "byteval c2 \<le> 0xBF" "0xE0 \<le> byteval c"
      "r = (byteval c - 0xE0) * 4096 + (byteval c1 - 0x80) * 64 + (byteval c2 - 0x80)" by cases auto
  define x where "x = byteval c - 0xE0"
  define y where "y = byteval c1 - 0x80"
  define z where "z = byteval c2 - 0x80"
  have r: "y < 64" "z < 64" "r = x * 4096 + y * 64 + z" using s by (auto simp: x_def y_def z_def)
  have x2: "x = 2" using r assms(3) by auto
  then have y0: "y = 0" using r assms(3) by auto
  have xyz: "x = 2" "y = 0" "z = r - 0x2000" using r x2 y0 by auto
  have "byteval c = 0xE2" using xyz s(7) by (simp add: x_def)
  moreover have "byteval c1 = 0x80" using xyz s(3) by (simp add: y_def)
  moreover have "byteval c2 = 0x80 + (r - 0x2000)" using xyz s(5) by (simp add: z_def)
  ultimately have "c = char_of (0xE2 :: nat)" "c1 = char_of (0x80 :: nat)" "c2 = char_of (0x80 + (r - 0x2000))" by (metis char_of_char)+
  then show ?thesis using s(1,2) assms(3) by (auto simp: encodeRune_def)
qed

lemma appendString_ascii:
  "byteval c < 0x80 \<Longrightarrow> appendString (c # s) = (if htmlSafe c then [c] else escapeByte c) @ appendString s"
  by (simp add: appendString.simps [of "c # s"])

lemma validUTF8_ascii: "byteval c < 0x80 \<Longrightarrow> validUTF8 (c # s) = c # validUTF8 s"
  by (simp add: validUTF8.simps [of "c # s"] RuneError_def)

lemma validUTF8_Nil [simp]: "validUTF8 [] = []" and appendString_Nil [simp]: "appendString [] = []"
  by (simp_all add: validUTF8.simps appendString.simps)

lemma rune_text:
  assumes "0x80 \<le> byteval c" and "decodeRune (c # cs) = (r, n)"
  shows "readText ((if r = RuneError \<and> n = 1 then CHR 0x5C # ''ufffd''
        else if r = 0x2028 \<or> r = 0x2029 then CHR 0x5C # ''u202'' @ [hexDigit (r mod 16)] else take n (c # cs)) @ t)
    = map_option (apfst (append (if r = RuneError \<and> n = 1 then encodeRune RuneError else take n (c # cs)))) (readText t)"
proof -
  consider "r = RuneError \<and> n = 1" | "r = 0x2028" | "r = 0x2029" | "\<not> (r = RuneError \<and> n = 1)" "r \<noteq> 0x2028" "r \<noteq> 0x2029" by blast
  then show ?thesis
  proof cases
    case 1
    have "hex4 ''fffd'' = Some RuneError" by (simp add: hex4_def unhex_def RuneError_def isDigit_def)
    then show ?thesis using 1 by (simp add: readText_u)
  next
    case 2
    have "hex4 ''2028'' = Some 0x2028" "hexDigit 8 = CHR ''8''" by code_simp+
    then show ?thesis using 2 decodeRune_separator [OF assms] by (simp add: readText_u RuneError_def)
  next
    case 3
    have "hex4 ''2029'' = Some 0x2029" "hexDigit 9 = CHR ''9''" by code_simp+
    then show ?thesis using 3 decodeRune_separator [OF assms] by (simp add: readText_u RuneError_def)
  next
    case 4
    then show ?thesis using readText_high [OF decodeRune_high [OF assms 4(1)]] by auto
  qed
qed

lemma readText_appendString: "readText (appendString s @ CHR 0x22 # t) = Some (validUTF8 s, t)"
proof (induction s rule: length_induct)
  case (1 s)
  show ?case
  proof (cases s)
    case Nil
    then show ?thesis by (simp add: readText.simps)
  next
    case (Cons c cs)
    show ?thesis
    proof (cases "byteval c < 0x80")
      case True
      then show ?thesis using 1 Cons readText_ascii [OF True, of "appendString cs @ CHR 0x22 # t"]
        by (simp add: appendString_ascii validUTF8_ascii)
    next
      case False
      obtain r n where d: "decodeRune (c # cs) = (r, n)" by fastforce
      then have n: "0 < n" using decodeRune_pos [of c cs] by simp
      then have IH: "readText (appendString (drop n s) @ CHR 0x22 # t) = Some (validUTF8 (drop n s), t)" using 1 Cons by simp
      have "0x80 \<le> byteval c" using False by simp
      from rune_text [OF this d, of "appendString (drop n s) @ CHR 0x22 # t"] False d IH show ?thesis
        unfolding Cons by (simp add: appendString.simps [of "c # cs"] validUTF8.simps [of "c # cs"])
    qed
  qed
qed

section \<open>Reading an entry\<close>

text \<open>A number ends at the comma or brace behind it.\<close>

definition numberText :: "string \<Rightarrow> bool" where
  "numberText t \<longleftrightarrow> t \<noteq> [] \<and> list_all (\<lambda>c. isDigit c \<or> c = CHR ''-'' \<or> c = CHR ''+'' \<or> c = CHR ''.'' \<or> c = CHR ''e'') t"

definition readNumber :: "string \<Rightarrow> string \<times> string" where
  "readNumber s = (let p = (\<lambda>c. c \<noteq> CHR '','' \<and> c \<noteq> CHR ''}'') in (takeWhile p s, dropWhile p s))"

definition readValue :: "string \<Rightarrow> (jsonValue \<times> string) option" where
  "readValue s =
    (case readJsonString s of
       Some (x, r) \<Rightarrow> Some (Text x, r)
     | None \<Rightarrow> (case readNumber s of (t, r) \<Rightarrow> if numberText t then Some (Number t, r) else None))"

definition readField :: "string \<Rightarrow> ((string \<times> jsonValue) \<times> string) option" where
  "readField s =
    (case readJsonString s of
       Some (name, c # r) \<Rightarrow> if c = CHR '':'' then map_option (apfst (Pair name)) (readValue r) else None
     | _ \<Rightarrow> None)"

text \<open>The members up to the closing brace; the number of members read is at most \<open>n\<close>, the length of the text.\<close>

fun readMembers :: "nat \<Rightarrow> string \<Rightarrow> ((string \<times> jsonValue) list \<times> string) option" where
  "readMembers 0 s = None"
| "readMembers (Suc n) s =
    (case readField s of
       Some (f, c # r) \<Rightarrow>
         if c = CHR ''}'' then Some ([f], r)
         else if c = CHR '','' then map_option (apfst (Cons f)) (readMembers n r)
         else None
     | _ \<Rightarrow> None)"

definition readObject :: "string \<Rightarrow> ((string \<times> jsonValue) list \<times> string) option" where
  "readObject s = (case s of c # r \<Rightarrow> if c = CHR ''{'' then readMembers (length r) r else None | [] \<Rightarrow> None)"

lemma readJsonString_text: "readJsonString (jsonString s @ t) = Some (validUTF8 s, t)"
  by (simp add: readJsonString_def jsonString_def readText_appendString)

fun validValue :: "jsonValue \<Rightarrow> jsonValue" where
  "validValue (Text s) = Text (validUTF8 s)"
| "validValue (Number t) = Number t"

definition separated :: "string \<Rightarrow> bool" where
  "separated t \<longleftrightarrow> t \<noteq> [] \<and> (hd t = CHR '','' \<or> hd t = CHR ''}'')"

definition wellTyped :: "string \<times> jsonValue \<Rightarrow> bool" where
  "wellTyped f \<longleftrightarrow> (case snd f of Text _ \<Rightarrow> True | Number t \<Rightarrow> numberText t)"

lemma readNumber_text:
  assumes "numberText x" and "separated t"
  shows "readNumber (x @ t) = (x, t)"
proof -
  have "\<forall>c \<in> set x. c \<noteq> CHR '','' \<and> c \<noteq> CHR ''}''"
    using assms(1) by (auto simp: numberText_def list_all_iff isDigit_def less_eq_char_def)
  with assms(2) show ?thesis
    by (cases t) (auto simp: readNumber_def Let_def separated_def takeWhile_append dropWhile_append)
qed

lemma readValue_text: "wellTyped (k, v) \<Longrightarrow> separated t \<Longrightarrow> readValue (valueText v @ t) = Some (validValue v, t)"
proof (cases v)
  case (Number x)
  assume "wellTyped (k, v)" "separated t"
  then have x: "numberText x" and n: "readNumber (x @ t) = (x, t)" using Number by (auto simp: wellTyped_def readNumber_text)
  have "readJsonString (x @ t) = None"
    using x by (cases x) (auto simp: readJsonString_def numberText_def isDigit_def less_eq_char_def)
  with x n show ?thesis by (simp add: readValue_def valueText_def Number)
qed (simp add: readValue_def valueText_def readJsonString_text)

lemma readField_text:
  "wellTyped f \<Longrightarrow> separated t \<Longrightarrow> readField (fieldText f @ t) = Some (map_prod validUTF8 validValue f, t)"
  using readValue_text [of "fst f" "snd f" t]
  by (simp add: readField_def fieldText_def readJsonString_text map_prod_def case_prod_beta)

lemma readMembers_text:
  "list_all wellTyped fs \<Longrightarrow> fs \<noteq> [] \<Longrightarrow> length fs \<le> n \<Longrightarrow>
   readMembers n (joinFields fs @ ''}'' @ t) = Some (map (map_prod validUTF8 validValue) fs, t)"
proof (induction fs arbitrary: n rule: joinFields.induct)
  case (2 f)
  then show ?case using readField_text [of f "''}'' @ t"] by (cases n) (simp_all add: separated_def)
next
  case (3 f g fs)
  then show ?case using readField_text [of f "'','' @ joinFields (g # fs) @ ''}'' @ t"] by (cases n) (simp_all add: separated_def)
qed simp

lemma length_joinFields: "length fs \<le> length (joinFields fs)"
  by (induction fs rule: joinFields.induct) (simp_all add: fieldText_def jsonString_def)

lemma readObject_text:
  assumes "list_all wellTyped fs" and "fs \<noteq> []"
  shows "readObject (objectText fs @ t) = Some (map (map_prod validUTF8 validValue) fs, t)"
  using readMembers_text [OF assms, of "length (joinFields fs @ ''}'' @ t)" t] length_joinFields [of fs]
  by (simp add: readObject_def objectText_def)

section \<open>One line\<close>

text \<open>No control character: in particular no line break.\<close>

definition printableText :: "string \<Rightarrow> bool" where
  "printableText s \<longleftrightarrow> list_all (\<lambda>c. 0x20 \<le> byteval c) s"

lemma printableText_append [simp]: "printableText (a @ b) \<longleftrightarrow> printableText a \<and> printableText b"
  by (simp add: printableText_def)

lemma printable_no_break: "printableText s \<Longrightarrow> lf \<notin> set s"
  by (induction s) (auto simp: printableText_def)

lemma printable_hexDigit: "n < 16 \<Longrightarrow> 0x20 \<le> byteval (hexDigit n)"
  by (simp add: hexDigit_def)

lemma printable_ascii:
  assumes "byteval c < 0x80"
  shows "printableText (if htmlSafe c then [c] else escapeByte c)"
proof -
  have "byteval c div 16 < 16" "byteval c mod 16 < 16" using assms by simp_all
  then have "0x20 \<le> byteval (hexDigit (byteval c div 16))" "0x20 \<le> byteval (hexDigit (byteval c mod 16))" by (simp_all only: printable_hexDigit)
  then show ?thesis by (simp add: printableText_def escapeByte_def) (simp add: htmlSafe_def)
qed

lemma printable_rune:
  assumes "0x80 \<le> byteval c" and "decodeRune (c # cs) = (r, n)"
  shows "printableText (if r = RuneError \<and> n = 1 then CHR 0x5C # ''ufffd''
        else if r = 0x2028 \<or> r = 0x2029 then CHR 0x5C # ''u202'' @ [hexDigit (r mod 16)] else take n (c # cs))"
proof (cases "r = RuneError \<and> n = 1")
  case False
  from decodeRune_high [OF assms False] False show ?thesis
    by (auto simp: printableText_def list_all_iff intro!: printable_hexDigit)
qed (simp add: printableText_def)

lemma printable_appendString: "printableText (appendString s)"
proof (induction s rule: length_induct)
  case (1 s)
  show ?case
  proof (cases s)
    case (Cons c cs)
    show ?thesis
    proof (cases "byteval c < 0x80")
      case True
      then show ?thesis using 1 Cons printable_ascii [OF True] by (simp add: appendString_ascii)
    next
      case False
      obtain r n where d: "decodeRune (c # cs) = (r, n)" by fastforce
      then have "0 < n" using decodeRune_pos [of c cs] by simp
      then have "printableText (appendString (drop n s))" using 1 Cons by simp
      then show ?thesis using printable_rune [of c cs r n] False d unfolding Cons by (simp add: appendString.simps [of "c # cs"])
    qed
  qed (simp add: printableText_def)
qed

lemma printable_field: "wellTyped f \<Longrightarrow> printableText (fieldText f)"
  using printable_appendString
  by (auto simp: fieldText_def valueText_def jsonString_def wellTyped_def printableText_def numberText_def list_all_iff isDigit_def less_eq_char_def
      split: jsonValue.splits)

lemma printable_object: "list_all wellTyped fs \<Longrightarrow> printableText (objectText fs)"
proof -
  assume "list_all wellTyped fs"
  then have "printableText (joinFields fs)"
    by (induction fs rule: joinFields.induct) (auto simp: printable_field, auto simp: printableText_def)
  then show ?thesis by (simp add: objectText_def) (simp add: printableText_def)
qed

section \<open>The line in the store\<close>

lemma splitLoop_none: "c \<notin> set s \<Longrightarrow> splitLoop cur c s = [cur @ s]"
  by (induction cur c s rule: splitLoop.induct) auto

lemma logLines_one:
  assumes "l \<noteq> []" and "lf \<notin> set l" and "TrimSpace l = l"
  shows "logLines (l @ [lf]) = [l]"
proof -
  have "hd (rev l) \<noteq> lf" using assms(1,2) by (metis hd_in_set rev_is_Nil_conv set_rev)
  then have "trimNewlines (l @ [lf]) = l" using assms(1) by (cases "rev l") (auto simp: trimNewlines_def)
  with assms show ?thesis by (simp add: logLines_def trimmed_def Split_def splitLoop_none)
qed

text \<open>A header of the log package: printable, and starting with a letter or digit.\<close>

definition headerText :: "string \<Rightarrow> bool" where
  "headerText h \<longleftrightarrow> h \<noteq> [] \<and> printableText h \<and> byteval (hd h) < 0x80 \<and> \<not> isSpace (byteval (hd h))"

lemma entry_line:
  assumes "headerText h" and "list_all wellTyped ms"
  shows "logLines (writeStructuredLog h err (Some ms)) = [h @ objectText ms]"
proof -
  have p: "printableText (h @ objectText ms)" using assms printable_object by (simp add: headerText_def)
  have "TrimSpace (h @ objectText ms) = h @ objectText ms"
    using assms(1) by (intro TrimSpace_id) (auto simp: headerText_def objectText_def isSpace_def)
  moreover have "lf \<notin> set (h @ objectText ms)" using p by (rule printable_no_break)
  ultimately have "logLines ((h @ objectText ms) @ [lf]) = [h @ objectText ms]"
    using assms(1) by (intro logLines_one) (auto simp: headerText_def)
  then show ?thesis by (simp add: writeStructuredLog_def)
qed

lemma newest_entry:
  assumes "holds store m (hist @ [x])"
  shows "Snapshot 1 store = [x]"
proof -
  have "0 < nat m" and s: "store = Some \<lparr>maxEntries = m, entries = lastN (nat m - 1) hist @ [x]\<rparr>"
    using assms lastN_snoc [of "nat m" hist x] by (auto simp: holds_def)
  then show ?thesis by (simp add: Snapshot_def Let_def)
qed

lemma numberText_Itoa: "numberText (Itoa n)"
proof -
  have "Itoa n \<noteq> []" using digits_spec by (simp add: Itoa_def)
  then show ?thesis using Itoa_set [of _ n] by (auto simp: numberText_def list_all_iff)
qed

lemma security_wellTyped: "list_all wellTyped (securityFields e)"
  by (auto simp: securityFields_def omitEmpty_def wellTyped_def numberText_Itoa)

lemma access_wellTyped: "numberText (formatFloat (DurationMS a)) \<Longrightarrow> list_all wellTyped (accessFields formatFloat a)"
  by (auto simp: accessFields_def wellTyped_def numberText_Itoa)

section \<open>Properties\<close>

text \<open>
  C30. The structured log cannot be forged. Whatever bytes a client has put into a method, a target or a
  matched field, an event becomes one line: after any earlier writes the newest entry of the store of recent lines is the
  whole event behind the header of the log package. And a JSON reader gets from this line exactly the fields of the
  event, in order and none more, with the bytes that are no UTF-8 replaced.
\<close>

theorem structured_log_not_forgeable:
  assumes "headerText header"
    and "members = securityFields e \<or> members = accessFields formatFloat a \<and> numberText (formatFloat (DurationMS a))"
    and "store = fold (\<lambda>w st. snd (LogWrite (fst w) (snd w) st)) ws (Some (NewLogStore m))"
  shows "Snapshot 1 (snd (LogWrite time (writeStructuredLog header err (Some members)) store))
      = [\<lparr>entryTime = time, Message = header @ objectText members\<rparr>]
    \<and> readObject (objectText members) = Some (map (map_prod validUTF8 validValue) members, [])"
proof -
  have typed: "list_all wellTyped members" using assms(2) security_wellTyped access_wellTyped by blast
  have "members \<noteq> []" using assms(2) by (auto simp: securityFields_def accessFields_def)
  with readObject_text [OF typed, of "[]"] have "readObject (objectText members) = Some (map (map_prod validUTF8 validValue) members, [])" by simp
  moreover have "holds (Some (NewLogStore m)) (if m \<le> 0 then 200 else m) []" by (simp add: holds_def NewLogStore_def lastN_def)
  from holds_LogWrite [OF holds_all [OF this, of ws], of "(time, writeStructuredLog header err (Some members))"]
  have "Snapshot 1 (snd (LogWrite time (writeStructuredLog header err (Some members)) store))
      = [\<lparr>entryTime = time, Message = header @ objectText members\<rparr>]"
    unfolding assms(3) by (intro newest_entry) (simp add: written_def entry_line [OF assms(1) typed])
  ultimately show ?thesis by simp
qed

definition forgedPath :: string where
  "forgedPath = [lf] @ ''}'' @ [CHR 0x22, CHR 0xFF]"

theorem structured_log_not_forgeable_witness:
  "readObject (objectText (securityFields (securityEntry ''now'' None ''uri'' forgedPath ''R1'' 403)))
   = Some ([(''time'', Text ''now''), (''event'', Text ''waf_block''), (''remote_addr'', Text []), (''field'', Text ''uri''),
      (''pattern'', Text ([lf] @ ''}'' @ [CHR 0x22, CHR 0xEF, CHR 0xBF, CHR 0xBD])), (''rule_id'', Text ''R1''), (''status'', Number ''403'')], [])
   \<and> readObject (objectText (accessFields (\<lambda>_. ''2.5'') (accessEntry ''now'' None ''GET'' forgedPath 200 2 2500000)))
   = Some ([(''time'', Text ''now''), (''event'', Text ''access''), (''remote_addr'', Text []), (''method'', Text ''GET''),
      (''path'', Text ([lf] @ ''}'' @ [CHR 0x22, CHR 0xEF, CHR 0xBF, CHR 0xBD])), (''status'', Number ''200''), (''bytes'', Number ''2''),
      (''duration_ms'', Number ''2.5'')], [])"
proof -
  let ?e = "securityEntry ''now'' None ''uri'' forgedPath ''R1'' 403" and ?a = "accessEntry ''now'' None ''GET'' forgedPath 200 2 2500000"
  have h: "headerText ''12:00 ''" by code_simp
  have n: "numberText ''2.5''" by code_simp
  have p: "validUTF8 forgedPath = [lf] @ ''}'' @ [CHR 0x22, CHR 0xEF, CHR 0xBF, CHR 0xBD]" by code_simp
  have i: "Itoa 200 = ''200''" "Itoa 2 = ''2''" by code_simp+
  have v: "map (map_prod validUTF8 validValue) (securityFields ?e)
      = [(''time'', Text ''now''), (''event'', Text ''waf_block''), (''remote_addr'', Text []), (''field'', Text ''uri''),
      (''pattern'', Text ([lf] @ ''}'' @ [CHR 0x22, CHR 0xEF, CHR 0xBF, CHR 0xBD])), (''rule_id'', Text ''R1''), (''status'', Number ''403'')]"
    by code_simp
  have u: "map (map_prod validUTF8 validValue) (accessFields (\<lambda>_. ''2.5'') ?a)
      = [(''time'', Text ''now''), (''event'', Text ''access''), (''remote_addr'', Text []), (''method'', Text ''GET''),
      (''path'', Text ([lf] @ ''}'' @ [CHR 0x22, CHR 0xEF, CHR 0xBF, CHR 0xBD])), (''status'', Number ''200''), (''bytes'', Number ''2''),
      (''duration_ms'', Number ''2.5'')]"
    by (simp add: accessFields_def accessEntry_def remoteAddr_def p validUTF8_ascii i)
  have "readObject (objectText (securityFields ?e)) = Some (map (map_prod validUTF8 validValue) (securityFields ?e), [])"
    using structured_log_not_forgeable [OF h disjI1 refl, of "securityFields ?e" ?e] by simp
  moreover have "readObject (objectText (accessFields (\<lambda>_. ''2.5'') ?a)) = Some (map (map_prod validUTF8 validValue) (accessFields (\<lambda>_. ''2.5'') ?a), [])"
    using structured_log_not_forgeable [OF h disjI2 refl, of "accessFields (\<lambda>_. ''2.5'') ?a" "\<lambda>_. ''2.5''" ?a] n by simp
  ultimately show ?thesis unfolding v u by simp
qed

end
