(* ===== verification/Go_Round.thy ===== *)
theory Go_Round
  imports Go_Float
begin

text \<open>
  How far rounding moves a number: the error from below, relative errors of both signs, and the whole numbers that
  are kept exactly. The statistics of the laboratory and the rendering of durations rest on these bounds.
\<close>

lemma eps_eq: "eps = 1 / 2 ^ 53"
  by (simp add: eps_def power_int_def power_one_over)

lemma quarter: "(2 :: rat) powi (- 2) = 1 / 4"
  by (simp add: power_int_def power2_eq_square)

lemma roundEven_lower: "x - 1 / 2 \<le> of_int (roundEven x)"
proof -
  have "x < of_int \<lfloor>x\<rfloor> + 1" by (rule floor_correct [THEN conjunct2, unfolded of_int_add of_int_1])
  then show ?thesis by (simp add: roundEven_def Let_def)
qed

lemma roundEven_near:
  assumes "of_int n - 1 / 2 < x" and "x < of_int n + 1 / 2"
  shows "roundEven x = n"
proof -
  have "of_int (roundEven x) < (of_int (n + 1) :: rat)" "(of_int (n - 1) :: rat) < of_int (roundEven x)"
    using roundEven_lower [of x] roundEven_upper [of x] assms by simp_all
  then show ?thesis unfolding of_int_less_iff by simp
qed

lemma roundPos_lower_normal:
  assumes "2 powi (- 1022) \<le> x"
  shows "x * (1 - eps) \<le> roundPos x"
proof -
  have pos: "0 < x" using assms two_powi_pos [of "- 1022"] by linarith
  have "(2 :: rat) powi (- 1022) < 2 powi (expo x + 1)" using assms expo_bounds(2) [OF pos] by (rule order.strict_trans1)
  then have "- 1022 < expo x + 1" using two_powi_mono [of "expo x + 1" "- 1022"] by (meson leD leI)
  then have scale: "scaleOf x = expo x - 52" by (simp add: scaleOf_def)
  have "(x / 2 powi scaleOf x - 1 / 2) * 2 powi scaleOf x \<le> of_int (roundEven (x / 2 powi scaleOf x)) * 2 powi scaleOf x"
    using roundEven_lower by (intro mult_right_mono) auto
  then have "x - 2 powi scaleOf x / 2 \<le> roundPos x" by (simp add: roundPos_def left_diff_distrib)
  with half_scale_normal [OF pos] show ?thesis unfolding scale by (simp add: right_diff_distrib)
qed

lemma round64_relative:
  assumes "1 / 2 ^ 100 \<le> x" and "x \<le> 2 ^ 64"
  obtains r where "round64 x = Fin r" and "x * (1 - eps) \<le> r" and "r \<le> x * (1 + eps)"
proof -
  have pos: "0 < x" using assms(1) by (rule order.strict_trans2 [rotated]) simp
  have "(2 :: rat) powi (- 1022) \<le> 2 powi (- 100)" by (rule two_powi_mono) simp
  also have "(2 :: rat) powi (- 100) = 1 / 2 ^ 100" by (simp add: power_int_def power_one_over)
  finally have n: "2 powi (- 1022) \<le> x" using assms(1) by (rule order_trans)
  have up: "roundPos x \<le> x * (1 + eps)" by (rule roundPos_upper_normal [OF pos n])
  have "x * (1 + eps) \<le> 2 ^ 64 * 2" using assms(2) pos by (intro mult_mono) (auto simp: eps_eq)
  also have "\<dots> \<le> maxFloat" by (simp add: maxFloat_def)
  finally have "roundPos x \<le> maxFloat" using up by simp
  with that [of "roundPos x"] roundPos_lower_normal [OF n] up pos show ?thesis by (simp add: round64_def Let_def)
qed

lemma round64_int: "0 \<le> n \<Longrightarrow> n < 2 ^ 53 \<Longrightarrow> round64 (of_int n) = Fin (of_int n)"
proof (rule round64_representable)
  assume n: "0 \<le> n" "n < 2 ^ 53"
  then show "representable (of_int n)" by (rule representable_int)
  have "of_int n \<le> (of_int (2 ^ 53) :: rat)" using n(2) by (simp only: of_int_le_iff)
  also have "\<dots> \<le> maxFloat" by (simp add: maxFloat_def)
  finally show "of_int n \<le> maxFloat" .
qed simp

end
