(* ===== verification/Go_Format.thy ===== *)
theory Go_Format
  imports Go_Round
begin

text \<open>
  The verbs of \<^verbatim>\<open>fmt\<close> that the programs print with: numbers with a fixed number of decimals, columns of a fixed
  width, and a reader for decimal numbers as the counterpart of the first.
\<close>

section \<open>Definitions\<close>

definition zeroPadded :: "nat \<Rightarrow> nat \<Rightarrow> string" where
  "zeroPadded w n = replicate (w - length (digits n)) (CHR ''0'') @ digits n"

text \<open>The verb \<^verbatim>\<open>%.kf\<close>: rounded to nearest, ties to even.\<close>

definition formatFixed :: "nat \<Rightarrow> float64 \<Rightarrow> string" where
  "formatFixed k f =
    (case f of
       NaN \<Rightarrow> ''NaN''
     | PosInf \<Rightarrow> ''+Inf''
     | NegInf \<Rightarrow> ''-Inf''
     | Fin x \<Rightarrow>
        (let n = nat (roundEven (abs x * 10 ^ k))
         in (if x < 0 then ''-'' else []) @ digits (n div 10 ^ k) @ (if k = 0 then [] else CHR ''.'' # zeroPadded k (n mod 10 ^ k))))"

text \<open>The verb \<^verbatim>\<open>%-ws\<close>: spaces up to a width, which counts runes.\<close>

definition padRight :: "nat \<Rightarrow> string \<Rightarrow> string" where
  "padRight w s = s @ replicate (w - length (runes s)) sp"

definition boolText :: "bool \<Rightarrow> string" where
  "boolText b = (if b then ''true'' else ''false'')"

text \<open>A reader of decimal numbers: digits, and perhaps a point and more digits.\<close>

definition readDecimal :: "string \<Rightarrow> rat option" where
  "readDecimal s =
    (let (whole, part, found) = Cut s (CHR ''.'')
     in if whole = [] \<or> \<not> list_all isDigit whole \<or> \<not> list_all isDigit part \<or> found \<and> part = [] then None
        else Some (of_int (decval whole) + of_int (decval part) / 10 ^ length part))"

section \<open>Reading back\<close>

lemma digit_no_point: "list_all isDigit s \<Longrightarrow> CHR ''.'' \<notin> set s"
  by (auto simp: list_all_iff isDigit_def)

lemma digits_facts [simp]: "decval (digits n) = int n" "list_all isDigit (digits n)" "digits n \<noteq> []"
  using digits_spec [of n] by simp_all

lemma length_digits: "0 < k \<Longrightarrow> n < 10 ^ k \<Longrightarrow> length (digits n) \<le> k"
proof (induction n arbitrary: k rule: digits.induct)
  case (1 n)
  show ?case
  proof (cases "n < 10")
    case False
    then have "1 < k" using 1(3) by (cases k; cases "k - 1") auto
    moreover have "n div 10 < 10 ^ (k - 1)" using 1(2,3) by (cases k) (auto simp: less_mult_imp_div_less mult.commute)
    ultimately have "length (digits (n div 10)) \<le> k - 1" using 1(1) [of "k - 1"] False by auto
    with False \<open>1 < k\<close> show ?thesis by (subst digits.simps) simp
  qed (use 1(2) in \<open>subst digits.simps, simp\<close>)
qed

lemma zeroPadded_facts:
  assumes "0 < k" and "n < 10 ^ k"
  shows "length (zeroPadded k n) = k" and "decval (zeroPadded k n) = int n" and "list_all isDigit (zeroPadded k n)"
proof -
  have "isDigit (CHR ''0'')" by (simp add: isDigit_def)
  then show "length (zeroPadded k n) = k" "decval (zeroPadded k n) = int n" "list_all isDigit (zeroPadded k n)"
    using length_digits [OF assms] digits_facts(2) [of n] by (auto simp: zeroPadded_def decval_zeros list_all_iff)
qed

lemma readDecimal_digits: "list_all isDigit s \<Longrightarrow> s \<noteq> [] \<Longrightarrow> readDecimal s = Some (of_int (decval s))"
  by (simp add: readDecimal_def Cut_missing digit_no_point decval_def)

lemma roundEven_nonneg: "0 \<le> x \<Longrightarrow> 0 \<le> roundEven x"
  by (auto simp: roundEven_def Let_def)

text \<open>What is printed with a fixed number of decimals reads back as the number rounded to that many decimals.\<close>

lemma readDecimal_formatFixed:
  assumes "0 \<le> x" and "0 < k"
  shows "readDecimal (formatFixed k (Fin x)) = Some (of_int (roundEven (x * 10 ^ k)) / 10 ^ k)"
proof -
  let ?n = "nat (roundEven (x * 10 ^ k))"
  have n: "int ?n = roundEven (x * 10 ^ k)" using assms(1) roundEven_nonneg [of "x * 10 ^ k"] by simp
  note z = zeroPadded_facts [OF assms(2), of "?n mod 10 ^ k"]
  have "of_int (roundEven (x * 10 ^ k)) / (10 ^ k :: rat) = of_nat ?n / 10 ^ k" using n by (metis of_int_of_nat_eq)
  also have "\<dots> = of_nat (?n div 10 ^ k) + of_nat (?n mod 10 ^ k) / 10 ^ k"
  proof -
    have "of_nat ?n = (of_nat (?n div 10 ^ k * 10 ^ k + ?n mod 10 ^ k) :: rat)" by (simp only: div_mult_mod_eq)
    then show ?thesis by (simp add: add_divide_distrib)
  qed
  finally show ?thesis using assms z
    by (simp add: readDecimal_def formatFixed_def Let_def Cut_append digit_no_point) (cases "zeroPadded k (?n mod 10 ^ k)"; simp)
qed

end
