(* ===== verification/Core_Prometheus.thy ===== *)
theory Core_Prometheus
  imports Core_Metrics Go_Format
begin

text \<open>
  The report of the counters of \<^verbatim>\<open>core/metrics.go\<close>: the snapshot, whose two durations are floating point
  numbers of milliseconds, and its rendering in the Prometheus text format.
\<close>

section \<open>Definitions\<close>

record MetricsSnapshot =
  AcceptedConnections :: uint64
  ActiveConnections :: uint64
  TotalRequests :: uint64
  AverageRequestDurationMS :: float64
  MaxRequestDurationMS :: float64
  WAFBlocks :: uint64
  ParseRejects :: uint64
  QueueRejects :: uint64
  RateLimited :: uint64
  Responses2xx :: uint64
  Responses3xx :: uint64
  Responses4xx :: uint64
  Responses5xx :: uint64

definition float64OfUint :: "uint64 \<Rightarrow> float64" where
  "float64OfUint w = float64OfInt (uint w)"

definition averageDurationMS :: "uint64 \<Rightarrow> uint64 \<Rightarrow> float64" where
  "averageDurationMS totalMicros requests =
    (if totalMicros = 0 \<or> requests = 0 then Fin 0
     else divF (divF (float64OfUint totalMicros) (Fin 1000)) (float64OfUint requests))"

definition metricsSnapshot :: "Metrics option \<Rightarrow> MetricsSnapshot" where
  "metricsSnapshot mo =
    (case mo of
       None \<Rightarrow>
         \<lparr>AcceptedConnections = 0, ActiveConnections = 0, TotalRequests = 0, AverageRequestDurationMS = Fin 0,
          MaxRequestDurationMS = Fin 0, WAFBlocks = 0, ParseRejects = 0, QueueRejects = 0, RateLimited = 0,
          Responses2xx = 0, Responses3xx = 0, Responses4xx = 0, Responses5xx = 0\<rparr>
     | Some m \<Rightarrow>
         \<lparr>AcceptedConnections = acceptedConnections m, ActiveConnections = activeConnections m,
          TotalRequests = totalRequests m,
          AverageRequestDurationMS = averageDurationMS (totalRequestDuration m) (totalRequests m),
          MaxRequestDurationMS = divF (float64OfUint (maxRequestDuration m)) (Fin 1000),
          WAFBlocks = wafBlocks m, ParseRejects = parseRejects m, QueueRejects = queueRejects m,
          RateLimited = rateLimited m, Responses2xx = responses2xx m, Responses3xx = responses3xx m,
          Responses4xx = responses4xx m, Responses5xx = responses5xx m\<rparr>)"

text \<open>The verbs \<^verbatim>\<open>%d\<close> and \<^verbatim>\<open>%.3f\<close>: three decimals, rounded to nearest and ties to even.\<close>

definition formatUint :: "uint64 \<Rightarrow> string" where
  "formatUint w = Itoa (uint w)"

definition formatFixed3 :: "float64 \<Rightarrow> string" where
  "formatFixed3 f = formatFixed 3 f"

definition metricLines :: "string \<Rightarrow> string \<Rightarrow> string \<Rightarrow> string \<Rightarrow> string" where
  "metricLines kind name help text =
    ''# HELP '' @ name @ '' '' @ help @ [lf] @ ''# TYPE '' @ name @ '' '' @ kind @ [lf] @ name @ '' '' @ text @ [lf]"

definition writeMetric :: "string \<Rightarrow> string \<Rightarrow> uint64 \<Rightarrow> string" where
  "writeMetric name help v = metricLines ''counter'' name help (formatUint v)"

definition writeGaugeUint64 :: "string \<Rightarrow> string \<Rightarrow> uint64 \<Rightarrow> string" where
  "writeGaugeUint64 name help v = metricLines ''gauge'' name help (formatUint v)"

definition writeGaugeFloat :: "string \<Rightarrow> string \<Rightarrow> float64 \<Rightarrow> string" where
  "writeGaugeFloat name help v = metricLines ''gauge'' name help (formatFixed3 v)"

definition Prometheus :: "Metrics option \<Rightarrow> string" where
  "Prometheus m =
    (let s = metricsSnapshot m in
     writeMetric ''mtws_connections_accepted_total'' ''Total TCP connections accepted.'' (AcceptedConnections s)
     @ writeGaugeUint64 ''mtws_connections_active'' ''Currently active TCP connections.'' (ActiveConnections s)
     @ writeMetric ''mtws_requests_total'' ''Total parsed HTTP requests.'' (TotalRequests s)
     @ writeGaugeFloat ''mtws_request_duration_average_ms'' ''Average request duration in milliseconds.'' (AverageRequestDurationMS s)
     @ writeGaugeFloat ''mtws_request_duration_max_ms'' ''Maximum request duration in milliseconds.'' (MaxRequestDurationMS s)
     @ writeMetric ''mtws_waf_blocks_total'' ''Total requests blocked by in-parser WAF rules.'' (WAFBlocks s)
     @ writeMetric ''mtws_parse_rejects_total'' ''Total malformed requests rejected by the strict parser.'' (ParseRejects s)
     @ writeMetric ''mtws_queue_rejects_total'' ''Total connections rejected because the worker queue was saturated.'' (QueueRejects s)
     @ writeMetric ''mtws_rate_limited_total'' ''Total connections rejected by the token-bucket rate limiter.'' (RateLimited s)
     @ writeMetric ''mtws_responses_2xx_total'' ''Total 2xx responses.'' (Responses2xx s)
     @ writeMetric ''mtws_responses_3xx_total'' ''Total 3xx responses.'' (Responses3xx s)
     @ writeMetric ''mtws_responses_4xx_total'' ''Total 4xx responses.'' (Responses4xx s)
     @ writeMetric ''mtws_responses_5xx_total'' ''Total 5xx responses.'' (Responses5xx s))"

end
