(* ===== verification/Core_Scrape.thy ===== *)
theory Core_Scrape
  imports Core_Prometheus
begin

text \<open>
  What a monitoring system reads from the metrics page. The reader is that of the Prometheus text format, as far as the page uses it:
  lines that begin with a hash sign are comments, every other line is a name and a number.
\<close>

section \<open>The reader\<close>

definition isSample :: "string \<Rightarrow> bool" where
  "isSample line \<longleftrightarrow> line \<noteq> [] \<and> hd line \<noteq> CHR ''#''"

definition readSample :: "string \<Rightarrow> string \<times> rat option" where
  "readSample line = (let (name, text, found) = Cut line sp in (name, if found then readDecimal text else None))"

definition scrape :: "string \<Rightarrow> (string \<times> rat option) list" where
  "scrape page = map readSample (filter isSample (Split page lf))"

section \<open>Reading a metric\<close>

definition plainLine :: "string \<Rightarrow> bool" where
  "plainLine s \<longleftrightarrow> lf \<notin> set s"

lemma splitLoop_line: "plainLine a \<Longrightarrow> splitLoop cur lf (a @ lf # b) = (cur @ a) # splitLoop [] lf b"
  by (induction a arbitrary: cur) (auto simp: plainLine_def)

lemma Split_line: "plainLine a \<Longrightarrow> Split (a @ lf # b) lf = a # Split b lf"
  by (simp add: Split_def splitLoop_line)

definition metricName :: "string \<Rightarrow> bool" where
  "metricName name \<longleftrightarrow> name \<noteq> [] \<and> hd name \<noteq> CHR ''#'' \<and> sp \<notin> set name \<and> plainLine name"

lemma scrape_metricLines:
  assumes "metricName name" and "plainLine doc" and "plainLine kind" and "plainLine val"
  shows "scrape (metricLines kind name doc val @ rest) = (name, readDecimal val) # scrape rest"
proof -
  have comments: "plainLine (''# HELP '' @ name @ '' '' @ doc)" "plainLine (''# TYPE '' @ name @ '' '' @ kind)" "plainLine (name @ '' '' @ val)"
    using assms by (auto simp: plainLine_def metricName_def)
  have page: "metricLines kind name doc val @ rest
      = (''# HELP '' @ name @ '' '' @ doc) @ lf # (''# TYPE '' @ name @ '' '' @ kind) @ lf # (name @ '' '' @ val) @ lf # rest"
    by (simp add: metricLines_def)
  have "readSample (name @ '' '' @ val) = (name, readDecimal val)"
    using assms(1) Cut_append [of sp name val] by (simp add: readSample_def metricName_def)
  then show ?thesis unfolding scrape_def page using assms(1) Split_line [OF comments(1)] Split_line [OF comments(2)] Split_line [OF comments(3)]
    by (simp add: isSample_def metricName_def)
qed

lemma plainLine_digits: "list_all isDigit s \<Longrightarrow> plainLine s"
  by (auto simp: plainLine_def list_all_iff isDigit_def)

lemma readDecimal_formatUint: "readDecimal (formatUint w) = Some (rat_of_int (uint w)) \<and> plainLine (formatUint w)"
proof -
  have "formatUint w = digits (nat (uint w))" using Itoa_nat [of "nat (uint w)"] by (simp add: formatUint_def)
  then show ?thesis using readDecimal_digits [of "digits (nat (uint w))"] plainLine_digits [of "digits (nat (uint w))"] by simp
qed

lemma plainLine_formatFixed3: "0 \<le> x \<Longrightarrow> plainLine (formatFixed3 (Fin x))"
  using plainLine_digits zeroPadded_facts(3) [of 3]
  by (simp add: formatFixed3_def formatFixed_def Let_def plainLine_def)

lemma scrape_counter: "metricName name \<Longrightarrow> plainLine doc \<Longrightarrow> scrape (writeMetric name doc w @ rest) = (name, Some (rat_of_int (uint w))) # scrape rest"
  unfolding writeMetric_def using readDecimal_formatUint [of w] by (subst scrape_metricLines) (simp_all add: plainLine_def)

lemma scrape_last_counter: "metricName name \<Longrightarrow> plainLine doc \<Longrightarrow> scrape (writeMetric name doc w) = [(name, Some (rat_of_int (uint w)))]"
  using scrape_counter [of name doc w "[]"] by (simp add: scrape_def Split_def isSample_def)

lemma scrape_gauge: "metricName name \<Longrightarrow> plainLine doc \<Longrightarrow> scrape (writeGaugeUint64 name doc w @ rest) = (name, Some (rat_of_int (uint w))) # scrape rest"
  unfolding writeGaugeUint64_def using readDecimal_formatUint [of w] by (subst scrape_metricLines) (simp_all add: plainLine_def)

lemma scrape_float:
  assumes "metricName name" and "plainLine doc" and "0 \<le> x"
  shows "scrape (writeGaugeFloat name doc (Fin x) @ rest) = (name, Some (of_int (roundEven (x * 1000)) / 1000)) # scrape rest"
  unfolding writeGaugeFloat_def using assms plainLine_formatFixed3 [OF assms(3)] readDecimal_formatFixed [OF assms(3), of 3]
  by (subst scrape_metricLines) (simp_all add: plainLine_def formatFixed3_def)

section \<open>The durations\<close>

lemma float64OfUint_exact: "uint w < 2 ^ 53 \<Longrightarrow> float64OfUint w = Fin (of_int (uint w))"
  using round64_int [of "uint w"] by (simp add: float64OfUint_def float64OfInt_def)

text \<open>A division whose quotient is neither tiny nor huge is exact up to one part in \<^term>\<open>(2::nat) ^ 53\<close>.\<close>

lemma divF_near:
  assumes "0 < b" and "1 / 2 ^ 100 \<le> a / b" and "a / b \<le> 2 ^ 64"
  obtains r where "divF (Fin a) (Fin b) = Fin r" and "a / b * (1 - eps) \<le> r" and "r \<le> a / b * (1 + eps)"
  using round64_relative [OF assms(2,3)] assms(1) by auto

lemma uint_bounds:
  assumes "w \<noteq> 0" and "uint w < 2 ^ 50"
  shows "1 \<le> rat_of_int (uint w)" and "rat_of_int (uint w) \<le> 2 ^ 50"
proof -
  have "1 \<le> uint w" using assms(1) word_neq_0_conv [of w] by (simp add: word_less_def)
  then show "1 \<le> rat_of_int (uint w)" by (metis of_int_1_le_iff)
  have "uint w \<le> 2 ^ 50" using assms(2) by simp
  then show "rat_of_int (uint w) \<le> 2 ^ 50" by (metis of_int_le_iff of_int_numeral of_int_power)
qed

lemma max_duration_exact:
  assumes "uint w < 2 ^ 50"
  shows "\<exists>x. divF (float64OfUint w) (Fin 1000) = Fin x \<and> 0 \<le> x \<and> roundEven (x * 1000) = uint w"
proof (cases "w = 0")
  case True
  have "roundEven 0 = 0" using roundEven_near [of 0 0] by simp
  moreover have "divF (float64OfUint w) (Fin 1000) = Fin 0" using True round64_int [of 0] by (simp add: float64OfUint_exact)
  ultimately show ?thesis using True by simp
next
  case False
  define u where "u = rat_of_int (uint w)"
  have u: "1 \<le> u" "u \<le> 2 ^ 50" unfolding u_def using uint_bounds [OF False assms] by blast+
  obtain r where r: "divF (Fin u) (Fin 1000) = Fin r" "u / 1000 * (1 - eps) \<le> r" "r \<le> u / 1000 * (1 + eps)"
    using u by (auto intro: divF_near [of 1000 u])
  have near: "u * (1 - eps) \<le> r * 1000" "r * 1000 \<le> u * (1 + eps)" using r(2,3) by simp_all
  have small: "u * eps \<le> 1 / 8" using u by (simp add: eps_eq)
  have "u - 1 / 2 < r * 1000" "r * 1000 < u + 1 / 2" using near small by (simp_all add: algebra_simps)
  then have "roundEven (r * 1000) = uint w" unfolding u_def by (rule roundEven_near)
  moreover have "0 \<le> r * 1000" using near(1) small u(1) by (simp add: algebra_simps)
  moreover have "float64OfUint w = Fin u" using float64OfUint_exact [of w] assms by (simp add: u_def)
  ultimately show ?thesis using r(1) by auto
qed

text \<open>Two roundings in a row, of a number of at most \<^term>\<open>(2::nat) ^ 50\<close>.\<close>

lemma two_roundings:
  assumes "0 \<le> a" and "a \<le> 2 ^ 50" and "a / 1000 * (1 - eps) \<le> y" and "y \<le> a / 1000 * (1 + eps)"
    and "y * (1 - eps) \<le> x" and "x \<le> y * (1 + eps)"
  shows "0 \<le> x" and "\<bar>x * 1000 - a\<bar> < 1 / 2"
proof -
  have e: "0 \<le> eps" "eps \<le> 1 / 2 ^ 53" by (simp_all add: eps_eq)
  have y: "a * (1 - eps) \<le> y * 1000" "y * 1000 \<le> a * (1 + eps)" using assms(3,4) by simp_all
  have "0 \<le> a * (1 - eps)" using assms(1) e by simp
  with y have y0: "0 \<le> y" by simp
  have "0 \<le> y * (1 - eps)" using y0 e by simp
  with assms(5) show "0 \<le> x" by simp
  have small: "a * eps \<le> 1 / 8" using assms(2) e mult_mono [of a "2 ^ 50" eps "1 / 2 ^ 53"] by simp
  have "y * 1000 * eps \<le> a * (1 + eps) * eps" using y(2) e by (intro mult_right_mono) simp_all
  also have "\<dots> \<le> a * 2 * eps" using assms(1) e by (intro mult_right_mono mult_left_mono) simp_all
  also have "\<dots> \<le> 1 / 4" using small by simp
  finally have drift: "y * 1000 * eps \<le> 1 / 4" .
  have "x * 1000 \<le> a + 3 / 8" "a - 3 / 8 \<le> x * 1000" using assms(5,6) y small drift by (simp_all add: algebra_simps)
  then show "\<bar>x * 1000 - a\<bar> < 1 / 2" by linarith
qed

lemma average_near:
  assumes "uint tot < 2 ^ 50" and "uint n < 2 ^ 50"
  shows "\<exists>x. averageDurationMS tot n = Fin x \<and> 0 \<le> x
    \<and> \<bar>rat_of_int (roundEven (x * 1000)) - rat_of_int (uint tot) / rat_of_int (uint n)\<bar> < 1"
proof (cases "tot = 0 \<or> n = 0")
  case True
  have "roundEven 0 = 0" using roundEven_near [of 0 0] by simp
  with True show ?thesis by (auto simp: averageDurationMS_def)
next
  case False
  define t where "t = rat_of_int (uint tot)"
  define k where "k = rat_of_int (uint n)"
  have t: "1 \<le> t" "t \<le> 2 ^ 50" and k: "1 \<le> k" "k \<le> 2 ^ 50" unfolding t_def k_def using False uint_bounds assms by blast+
  obtain r where r: "divF (Fin t) (Fin 1000) = Fin r" "t / 1000 * (1 - eps) \<le> r" "r \<le> t / 1000 * (1 + eps)"
    using t by (auto intro: divF_near [of 1000 t])
  have "t * (1 - eps) \<le> r * 1000" "r * 1000 \<le> t * (1 + eps)" using r(2,3) by simp_all
  then have r': "1 / 2000 \<le> r" "r \<le> 2 ^ 50" using t by (simp_all add: eps_eq)
  have "1 / 2 ^ 100 * k \<le> r" "r \<le> 2 ^ 64 * k" using r' k by simp_all
  then have q: "1 / 2 ^ 100 \<le> r / k" "r / k \<le> 2 ^ 64" using k by (simp_all add: pos_le_divide_eq pos_divide_le_eq)
  obtain x where x: "divF (Fin r) (Fin k) = Fin x" "r / k * (1 - eps) \<le> x" "x \<le> r / k * (1 + eps)"
    using divF_near [OF _ q] k by auto
  have a: "0 \<le> t / k" "t / k \<le> 2 ^ 50" using t k by (simp_all add: pos_divide_le_eq mult_mono order_trans [OF t(2)])
  have y: "t / k / 1000 * (1 - eps) \<le> r / k" "r / k \<le> t / k / 1000 * (1 + eps)"
    using divide_right_mono [OF r(2), of k] divide_right_mono [OF r(3), of k] k by simp_all
  note near = two_roundings [OF a y x(2,3)]
  have "\<bar>rat_of_int (roundEven (x * 1000)) - x * 1000\<bar> \<le> 1 / 2" using roundEven_lower [of "x * 1000"] roundEven_upper [of "x * 1000"] by linarith
  with near(2) have "\<bar>rat_of_int (roundEven (x * 1000)) - t / k\<bar> < 1" by linarith
  moreover have "averageDurationMS tot n = Fin x"
    using False r(1) x(1) float64OfUint_exact [of tot] float64OfUint_exact [of n] assms by (simp add: averageDurationMS_def t_def k_def)
  ultimately show ?thesis using near(1) by (auto simp: t_def k_def)
qed

section \<open>Property\<close>

text \<open>
  C19. The metrics page tells what was counted. A monitoring system that reads it finds the thirteen metrics by name and in this order; the
  counters with their exact 64-bit values; the longest duration, exact to the microsecond and in milliseconds, although it went
  through floating point; and the average duration with an error below one microsecond, for total durations of up to 35 years.
\<close>

theorem prometheus_read_back:
  assumes "uint (totalRequestDuration m) < 2 ^ 50" and "uint (maxRequestDuration m) < 2 ^ 50" and "uint (totalRequests m) < 2 ^ 50"
  shows "\<exists>average. scrape (Prometheus (Some m)) =
      [(''mtws_connections_accepted_total'', Some (rat_of_int (uint (acceptedConnections m)))),
       (''mtws_connections_active'', Some (rat_of_int (uint (activeConnections m)))),
       (''mtws_requests_total'', Some (rat_of_int (uint (totalRequests m)))),
       (''mtws_request_duration_average_ms'', Some average),
       (''mtws_request_duration_max_ms'', Some (rat_of_int (uint (maxRequestDuration m)) / 1000)),
       (''mtws_waf_blocks_total'', Some (rat_of_int (uint (wafBlocks m)))),
       (''mtws_parse_rejects_total'', Some (rat_of_int (uint (parseRejects m)))),
       (''mtws_queue_rejects_total'', Some (rat_of_int (uint (queueRejects m)))),
       (''mtws_rate_limited_total'', Some (rat_of_int (uint (rateLimited m)))),
       (''mtws_responses_2xx_total'', Some (rat_of_int (uint (responses2xx m)))),
       (''mtws_responses_3xx_total'', Some (rat_of_int (uint (responses3xx m)))),
       (''mtws_responses_4xx_total'', Some (rat_of_int (uint (responses4xx m)))),
       (''mtws_responses_5xx_total'', Some (rat_of_int (uint (responses5xx m))))]
    \<and> \<bar>average * 1000 - rat_of_int (uint (totalRequestDuration m)) / rat_of_int (uint (totalRequests m))\<bar> < 1"
proof -
  obtain x where x: "averageDurationMS (totalRequestDuration m) (totalRequests m) = Fin x" "0 \<le> x"
      "\<bar>rat_of_int (roundEven (x * 1000)) - rat_of_int (uint (totalRequestDuration m)) / rat_of_int (uint (totalRequests m))\<bar> < 1"
    using average_near [OF assms(1,3)] by blast
  obtain y where y: "divF (float64OfUint (maxRequestDuration m)) (Fin 1000) = Fin y" "0 \<le> y" "roundEven (y * 1000) = uint (maxRequestDuration m)"
    using max_duration_exact [OF assms(2)] by blast
  show ?thesis
    by (rule exI [of _ "rat_of_int (roundEven (x * 1000)) / 1000"])
      (use x y in \<open>simp add: Prometheus_def metricsSnapshot_def Let_def scrape_counter scrape_gauge scrape_float scrape_last_counter metricName_def plainLine_def
        del: append_assoc append.simps\<close>)
qed

definition someMetrics :: Metrics where
  "someMetrics = NewMetrics\<lparr>totalRequests := 3, totalRequestDuration := 5000, maxRequestDuration := 4321\<rparr>"

theorem prometheus_read_back_witness:
  "\<exists>average. (''mtws_request_duration_average_ms'', Some average) \<in> set (scrape (Prometheus (Some someMetrics)))
     \<and> \<bar>average * 1000 - 5000 / 3\<bar> < 1 \<and> (''mtws_request_duration_max_ms'', Some (4321 / 1000)) \<in> set (scrape (Prometheus (Some someMetrics)))"
  using prometheus_read_back [of someMetrics] by (auto simp: someMetrics_def)

end
