(* ===== verification/Server_Paths.thy ===== *)
theory Server_Paths
  imports Go_Strings
begin

text \<open>
  File paths of \<^verbatim>\<open>cmd/server/main.go\<close>: the functions of \<^verbatim>\<open>path/filepath\<close> that the static file
  handler calls, for the separator of Unix, and the two checks \<open>isSafeStaticPath\<close> and
  \<open>isWithinRoot\<close>. An absolute path denotes a list of components; the lemmas say what the checks
  mean for it.
\<close>

section \<open>Paths of the standard library\<close>

definition slash :: byte where "slash = CHR ''/''"

fun joinWith :: "byte \<Rightarrow> string list \<Rightarrow> string" where
  "joinWith c [] = []"
| "joinWith c [e] = e"
| "joinWith c (e # es) = e @ c # joinWith c es"

definition IsAbs :: "string \<Rightarrow> bool" where
  "IsAbs p \<longleftrightarrow> HasPrefix p [slash]"

text \<open>
  \<open>filepath.Clean\<close> reads the elements from left to right and keeps those of the result on a stack.
  An element with two dots removes the top of the stack, unless the top is such an element
  itself; at the start of a rooted path it is dropped, of another path it is kept.
\<close>

fun cleanLoop :: "bool \<Rightarrow> string list \<Rightarrow> string list \<Rightarrow> string list" where
  "cleanLoop rooted stack [] = stack"
| "cleanLoop rooted stack (e # es) =
    (if e = [] \<or> e = ''.'' then cleanLoop rooted stack es
     else if e = ''..'' then
      (case stack of
         [] \<Rightarrow> cleanLoop rooted (if rooted then [] else [e]) es
       | t # rest \<Rightarrow> if t = ''..'' then cleanLoop rooted (e # stack) es else cleanLoop rooted rest es)
     else cleanLoop rooted (e # stack) es)"

definition Clean :: "string \<Rightarrow> string" where
  "Clean p =
    (let es = rev (cleanLoop (IsAbs p) [] (Split p slash)) in
     if IsAbs p then slash # joinWith slash es
     else if es = [] then ''.'' else joinWith slash es)"

definition JoinPath :: "string \<Rightarrow> string \<Rightarrow> string" where
  "JoinPath a b = (if a \<noteq> [] then Clean (a @ slash # b) else if b \<noteq> [] then Clean b else [])"

definition Dir :: "string \<Rightarrow> string" where
  "Dir p = Clean (rev (dropWhile (\<lambda>c. c \<noteq> slash) (rev p)))"

definition Ext :: "string \<Rightarrow> string" where
  "Ext p =
    (let name = takeWhile (\<lambda>c. c \<noteq> slash) (rev p);
         ext = takeWhile (\<lambda>c. c \<noteq> CHR ''.'') name
     in if CHR ''.'' \<in> set name then rev (ext @ ''.'') else [])"

text \<open>\<open>filepath.Rel\<close>: the elements of both clean paths after their common start.\<close>

definition relElems :: "string \<Rightarrow> string list" where
  "relElems p = (if p = [] then [] else if p = [slash] then [[]] else Split p slash)"

fun dropCommon :: "string list \<Rightarrow> string list \<Rightarrow> string list \<times> string list" where
  "dropCommon (b # bs) (t # ts) = (if b = t then dropCommon bs ts else (b # bs, t # ts))"
| "dropCommon bs ts = (bs, ts)"

definition Rel :: "string \<Rightarrow> string \<Rightarrow> string option" where
  "Rel basepath targpath =
    (let base = Clean basepath; targ = Clean targpath in
     if targ = base then Some ''.''
     else
      (let base = (if base = ''.'' then [] else base) in
       if IsAbs base \<noteq> IsAbs targ then None
       else
        (let (bs, ts) = dropCommon (relElems base) (relElems targ) in
         if bs \<noteq> [] \<and> ts \<noteq> [] \<and> hd bs = ''..'' then None
         else Some (joinWith slash (replicate (length bs) ''..'' @ ts)))))"

section \<open>The checks of the server\<close>

text \<open>
  The loop over the runes of the path finds a control character exactly if a byte is one, because the bytes of longer
  runes are all at least 128. \<open>FromSlash\<close> and \<open>ToSlash\<close> are identities on Unix.
\<close>

definition isControl :: "nat \<Rightarrow> bool" where
  "isControl r \<longleftrightarrow> r \<le> 31 \<or> r = 127"

definition isSafeStaticPath :: "string \<Rightarrow> bool" where
  "isSafeStaticPath path =
    (if path = [] then True
     else if CHR 0x5C \<in> set path \<or> CHR '':'' \<in> set path then False
     else if list_ex isControl (runes path) then False
     else
      (let cleaned = Clean path in
       if cleaned = ''.'' then True
       else \<not> HasPrefix cleaned ''../'' \<and> cleaned \<noteq> ''..'' \<and> \<not> HasPrefix cleaned ''/''))"

definition isWithinRoot :: "string \<Rightarrow> string \<Rightarrow> bool" where
  "isWithinRoot root target =
    (case Rel root target of
       None \<Rightarrow> False
     | Some relative \<Rightarrow>
        relative = ''.'' \<or> \<not> HasPrefix relative ''../'' \<and> relative \<noteq> ''..'' \<and> \<not> IsAbs relative)"

section \<open>Elements\<close>

text \<open>An element of a clean path.\<close>

definition element :: "string \<Rightarrow> bool" where
  "element e \<longleftrightarrow> e \<noteq> [] \<and> e \<noteq> ''.'' \<and> slash \<notin> set e"

lemma splitLoop_elements: "slash \<notin> set cur \<Longrightarrow> \<forall>e \<in> set (splitLoop cur slash s). slash \<notin> set e"
proof (induction s arbitrary: cur)
  case (Cons a s)
  with Cons.IH [of "[]"] Cons.IH [of "cur @ [a]"] show ?case by simp
qed simp

lemma Split_elements: "e \<in> set (Split p slash) \<Longrightarrow> slash \<notin> set e"
  using splitLoop_elements [of "[]" p] by (simp add: Split_def)

lemma splitLoop_word: "c \<notin> set e \<Longrightarrow> splitLoop cur c e = [cur @ e]"
  by (induction e arbitrary: cur) auto

lemma splitLoop_cons: "c \<notin> set e \<Longrightarrow> splitLoop cur c (e @ c # s) = (cur @ e) # splitLoop [] c s"
  by (induction e arbitrary: cur) auto

lemma splitLoop_append: "splitLoop cur c (s @ c # t) = splitLoop cur c s @ splitLoop [] c t"
  by (induction s arbitrary: cur) auto

lemma Split_append: "Split (s @ c # t) c = Split s c @ Split t c"
  by (simp add: Split_def splitLoop_append)

lemma Split_joinWith:
  "es \<noteq> [] \<Longrightarrow> \<forall>e \<in> set es. c \<notin> set e \<Longrightarrow> Split (joinWith c es) c = es"
  unfolding Split_def by (induction c es rule: joinWith.induct) (auto simp: splitLoop_word splitLoop_cons)

lemma joinWith_Cons: "es \<noteq> [] \<Longrightarrow> joinWith c (e # es) = e @ c # joinWith c es"
  by (cases es) auto

lemma cleanLoop_cases:
  "cleanLoop rooted stack (e # es) \<in>
    {cleanLoop rooted stack es, cleanLoop rooted (e # stack) es, cleanLoop rooted (tl stack) es}"
  by (auto split: list.split)

lemma cleanLoop_elements:
  "\<forall>e \<in> set stack. element e \<Longrightarrow> \<forall>e \<in> set es. slash \<notin> set e \<Longrightarrow> \<forall>e \<in> set (cleanLoop rooted stack es). element e"
proof (induction es arbitrary: stack)
  case (Cons e es)
  show ?case
  proof (cases "e = [] \<or> e = ''.''")
    case True
    with Cons show ?thesis by auto
  next
    case False
    with Cons.prems have "element e" by (auto simp: element_def)
    moreover have "\<forall>x \<in> set (tl stack). element x" using Cons.prems by (cases stack) auto
    ultimately have rest: "\<forall>x \<in> set (cleanLoop rooted st es). element x" if "st \<in> {stack, e # stack, tl stack}" for st
      using that Cons.prems by (intro Cons.IH) auto
    obtain st where st: "st \<in> {stack, e # stack, tl stack}" "cleanLoop rooted stack (e # es) = cleanLoop rooted st es"
      using cleanLoop_cases [of rooted stack e es] by blast
    show ?thesis unfolding st(2) by (rule rest [OF st(1)])
  qed
qed simp

lemma cleanLoop_rooted:
  "''..'' \<notin> set stack \<Longrightarrow> ''..'' \<notin> set (cleanLoop True stack es)"
  by (induction True stack es rule: cleanLoop.induct) (auto split: list.splits)

section \<open>Components of an absolute path\<close>

definition components :: "string \<Rightarrow> string list" where
  "components p = rev (cleanLoop True [] (Split p slash))"

lemma components_element: "e \<in> set (components p) \<Longrightarrow> element e \<and> e \<noteq> ''..''"
  using cleanLoop_elements [of "[]" "Split p slash" True] cleanLoop_rooted [of "[]"]
  by (auto simp: components_def Split_elements)

lemma Clean_abs: "IsAbs p \<Longrightarrow> Clean p = slash # joinWith slash (components p)"
  by (simp add: Clean_def components_def)

lemma joinWith_Nil_iff: "\<forall>e \<in> set es. element e \<Longrightarrow> joinWith c es = [] \<longleftrightarrow> es = []"
  by (induction c es rule: joinWith.induct) (auto simp: element_def)

lemma relElems_abs: "relElems (slash # joinWith slash (components p)) = [] # components p"
proof (cases "components p = []")
  case False
  have "joinWith slash (components p) \<noteq> []" using False components_element by (subst joinWith_Nil_iff) auto
  moreover have "slash # joinWith slash (components p) = joinWith slash ([] # components p)"
    using False by (simp add: joinWith_Cons)
  moreover have "\<forall>e \<in> set ([] # components p). slash \<notin> set e" using components_element by (auto simp: element_def)
  ultimately have "Split (slash # joinWith slash (components p)) slash = [] # components p"
    and "joinWith slash (components p) \<noteq> []" using Split_joinWith [of "[] # components p" slash] by simp_all
  then show ?thesis by (simp add: relElems_def)
qed (simp add: relElems_def)

lemma Clean_abs_eq: "IsAbs p \<Longrightarrow> IsAbs q \<Longrightarrow> Clean p = Clean q \<longleftrightarrow> components p = components q"
  using relElems_abs by (metis Clean_abs list.inject)

lemma IsAbs_Clean: "IsAbs p \<Longrightarrow> IsAbs (Clean p)"
  by (simp add: Clean_abs IsAbs_def HasPrefix_def)

lemma dropCommon_prefix: "prefix bs ts \<Longrightarrow> dropCommon bs ts = ([], drop (length bs) ts)"
  by (induction bs ts rule: dropCommon.induct) auto

lemma dropCommon_not_prefix:
  "\<not> prefix bs ts \<Longrightarrow> dropCommon bs ts = (bs', ts') \<Longrightarrow> bs' \<noteq> [] \<and> set bs' \<subseteq> set bs"
  by (induction bs ts arbitrary: bs' ts' rule: dropCommon.induct) (auto split: if_splits)

text \<open>The relative path of an absolute path.\<close>

lemma Rel_abs:
  assumes "IsAbs root" and "IsAbs target"
  shows "Rel root target =
    (if components target = components root then Some ''.''
     else case dropCommon (components root) (components target) of
            (bs, ts) \<Rightarrow> Some (joinWith slash (replicate (length bs) ''..'' @ ts)))"
proof -
  obtain bs ts where d: "dropCommon (components root) (components target) = (bs, ts)" by fastforce
  have "set bs \<subseteq> set (components root)"
    using d by (cases "prefix (components root) (components target)") (auto simp: dropCommon_prefix dest: dropCommon_not_prefix)
  then have "bs = [] \<or> hd bs \<noteq> ''..''" using components_element by (cases bs) auto
  moreover have "Clean root \<noteq> ''.''" using assms by (simp add: Clean_abs slash_def)
  moreover have "dropCommon (relElems (Clean root)) (relElems (Clean target)) = (bs, ts)"
    using assms d by (simp add: Clean_abs relElems_abs)
  ultimately show ?thesis
    using assms d IsAbs_Clean [OF assms(1)] IsAbs_Clean [OF assms(2)]
    by (auto simp: Rel_def Let_def Clean_abs_eq simp del: dropCommon.simps)
qed

lemma joinWith_up:
  "HasPrefix (joinWith slash (''..'' # es)) ''../'' \<or> joinWith slash (''..'' # es) = ''..''"
  by (cases es) (simp_all add: HasPrefix_def slash_def)

lemma joinWith_first:
  assumes "element e"
  shows "\<not> IsAbs (joinWith slash (e # es))"
    and "e \<noteq> ''..'' \<Longrightarrow> \<not> HasPrefix (joinWith slash (e # es)) ''../'' \<and> joinWith slash (e # es) \<noteq> ''..''"
proof -
  show "\<not> IsAbs (joinWith slash (e # es))"
    using assms by (cases e; cases es) (auto simp: IsAbs_def HasPrefix_def element_def)
  assume dots: "e \<noteq> ''..''"
  have "e = ''..''" if p: "prefix ''../'' (e @ s)" and s: "s = [] \<or> hd s = slash" for s
  proof -
    have noslash: "slash \<notin> set e" "e \<noteq> []" "e \<noteq> ''.''" using assms by (auto simp: element_def)
    obtain t where "e @ s = ''../'' @ t" using p by (auto simp: prefix_def)
    then show ?thesis using noslash s
      by (cases e rule: remdups_adj.cases) (auto simp: slash_def Cons_eq_append_conv append_eq_Cons_conv)
  qed
  from this [of "[]"] this [of "slash # joinWith slash es"] dots
  have "\<not> prefix ''../'' e" "\<not> prefix ''../'' (e @ slash # joinWith slash es)" by auto
  moreover have "e @ slash # x \<noteq> ''..''" for x by (auto simp: append_eq_Cons_conv slash_def)
  ultimately show "\<not> HasPrefix (joinWith slash (e # es)) ''../'' \<and> joinWith slash (e # es) \<noteq> ''..''"
    using dots by (cases "es = []") (simp_all add: HasPrefix_def joinWith_Cons)
qed

section \<open>What the checks mean\<close>

lemma isWithinRoot_components:
  assumes "IsAbs root" and "IsAbs target"
  shows "isWithinRoot root target \<longleftrightarrow> prefix (components root) (components target)"
proof (cases "components target = components root")
  case True
  with assms show ?thesis by (simp add: isWithinRoot_def Rel_abs)
next
  case differ: False
  obtain bs ts where d: "dropCommon (components root) (components target) = (bs, ts)" by fastforce
  have rel: "Rel root target = Some (joinWith slash (replicate (length bs) ''..'' @ ts))"
    using assms differ d by (simp add: Rel_abs)
  show ?thesis
  proof (cases "prefix (components root) (components target)")
    case True
    then obtain rest where rest: "components target = components root @ rest" by (auto simp: prefix_def)
    with differ obtain e es where es: "rest = e # es" by (cases rest) auto
    have "bs = []" "ts = e # es" using d dropCommon_prefix [OF True] rest es by auto
    moreover have "e \<in> set (components target)" using rest es by simp
    ultimately show ?thesis
      using True rel joinWith_first components_element by (auto simp: isWithinRoot_def simp del: joinWith.simps)
  next
    case False
    then obtain n where "length bs = Suc n" using dropCommon_not_prefix [OF False d] by (cases bs) auto
    then have "replicate (length bs) ''..'' @ ts = ''..'' # (replicate n ''..'' @ ts)" by simp
    moreover have "joinWith slash (''..'' # es) \<noteq> ''.''" for es by (cases es) auto
    ultimately show ?thesis using False rel joinWith_up
      by (auto simp: isWithinRoot_def simp del: joinWith.simps replicate.simps)
  qed
qed

lemma cleanLoop_keeps_up: "''..'' \<in> set stack \<Longrightarrow> ''..'' \<in> set (cleanLoop rooted stack es)"
proof (induction es arbitrary: stack)
  case (Cons e es)
  then show ?case by (cases stack) auto
qed simp

text \<open>A relative path that does not climb acts on every stack alike.\<close>

lemma cleanLoop_relative:
  "''..'' \<notin> set (cleanLoop False acc es) \<Longrightarrow> cleanLoop True (acc @ stack) es = cleanLoop False acc es @ stack"
proof (induction es arbitrary: acc)
  case (Cons e es)
  show ?case
  proof (cases "e = ''..''")
    case True
    show ?thesis
    proof (cases acc)
      case Nil
      with True Cons.prems cleanLoop_keeps_up [of "[''..'']" False es] show ?thesis by simp
    next
      case (Cons t rest)
      have "t \<noteq> ''..''" using Cons Cons.prems True cleanLoop_keeps_up [of "''..'' # acc" False es] by auto
      with True Cons Cons.IH Cons.prems show ?thesis by auto
    qed
  next
    case False
    with Cons.IH [of acc] Cons.IH [of "e # acc"] Cons.prems show ?thesis by auto
  qed
qed simp

lemma cleanLoop_append: "cleanLoop rooted stack (xs @ ys) = cleanLoop rooted (cleanLoop rooted stack xs) ys"
proof (induction xs arbitrary: stack)
  case (Cons e xs)
  then show ?case by (cases stack) simp_all
qed simp

lemma cleanLoop_id: "\<forall>e \<in> set es. element e \<and> e \<noteq> ''..'' \<Longrightarrow> cleanLoop rooted stack es = rev es @ stack"
  by (induction es arbitrary: stack) (auto simp: element_def)

lemma components_Clean: "IsAbs p \<Longrightarrow> components (Clean p) = components p"
proof (cases "components p = []")
  case True
  moreover assume "IsAbs p"
  ultimately show ?thesis by (simp add: Clean_abs components_def [of "[slash]"] Split_def)
next
  case False
  assume "IsAbs p"
  moreover have "Split (slash # joinWith slash (components p)) slash = [] # components p"
    using False components_element Split_joinWith [of "[] # components p" slash] by (auto simp: joinWith_Cons element_def)
  moreover have "cleanLoop True [] ([] # components p) = rev (components p)"
    using cleanLoop_id components_element by simp
  ultimately show ?thesis by (simp add: Clean_abs components_def [of "slash # _"])
qed

lemma components_JoinPath:
  assumes "IsAbs root" and "''..'' \<notin> set (cleanLoop False [] (Split p slash))"
  shows "components (JoinPath root p) = components root @ rev (cleanLoop False [] (Split p slash))"
proof -
  have abs: "root \<noteq> []" "IsAbs (root @ slash # p)" using assms(1) by (auto simp: IsAbs_def HasPrefix_def)
  have "components (root @ slash # p) = rev (cleanLoop True (cleanLoop True [] (Split root slash)) (Split p slash))"
    by (simp add: components_def Split_append cleanLoop_append)
  with cleanLoop_relative [of "[]" "Split p slash"] assms(2)
  have "components (root @ slash # p) = components root @ rev (cleanLoop False [] (Split p slash))"
    by (simp add: components_def)
  with abs show ?thesis by (simp add: JoinPath_def components_Clean)
qed

lemma JoinPath_abs: "IsAbs root \<Longrightarrow> IsAbs (JoinPath root p)"
proof -
  assume "IsAbs root"
  then have "root \<noteq> []" "IsAbs (root @ slash # p)" by (auto simp: IsAbs_def HasPrefix_def)
  then show ?thesis by (simp add: JoinPath_def IsAbs_Clean)
qed

text \<open>In a relative path the climbing elements come first.\<close>

definition climbsFirst :: "string list \<Rightarrow> bool" where
  "climbsFirst stack \<longleftrightarrow> (\<exists>xs n. stack = xs @ replicate n ''..'' \<and> ''..'' \<notin> set xs)"

lemma climbsFirst_push: "climbsFirst stack \<Longrightarrow> e \<noteq> ''..'' \<Longrightarrow> climbsFirst (e # stack)"
  unfolding climbsFirst_def by (elim exE) (metis append_Cons set_ConsD)

lemma climbsFirst_climb: "climbsFirst (''..'' # stack) \<Longrightarrow> climbsFirst (''..'' # ''..'' # stack)"
proof -
  assume "climbsFirst (''..'' # stack)"
  then obtain xs n where x: "''..'' # stack = xs @ replicate n ''..''" "''..'' \<notin> set xs" by (auto simp: climbsFirst_def)
  then have "xs = []" by (cases xs) auto
  with x have "''..'' # ''..'' # stack = [] @ replicate (Suc n) ''..''" by simp
  then show ?thesis unfolding climbsFirst_def by (metis empty_iff list.set(1))
qed

lemma climbsFirst_pop: "climbsFirst (t # stack) \<Longrightarrow> t \<noteq> ''..'' \<Longrightarrow> climbsFirst stack"
proof -
  assume "climbsFirst (t # stack)" and t: "t \<noteq> ''..''"
  then obtain xs n where x: "t # stack = xs @ replicate n ''..''" "''..'' \<notin> set xs" by (auto simp: climbsFirst_def)
  then obtain ys where "xs = t # ys" using t by (cases xs; cases n) auto
  with x show ?thesis unfolding climbsFirst_def by auto
qed

lemma cleanLoop_climbsFirst: "climbsFirst stack \<Longrightarrow> climbsFirst (cleanLoop False stack es)"
proof (induction es arbitrary: stack)
  case (Cons e es)
  have up: "climbsFirst [''..'']"
    unfolding climbsFirst_def by (rule exI [of _ "[]"], rule exI [of _ 1]) simp
  show ?case
  proof (cases "e = ''..''")
    case True
    with Cons up climbsFirst_climb climbsFirst_pop show ?thesis by (cases stack) auto
  qed (use Cons climbsFirst_push in auto)
qed simp

lemma climbsFirst_last: "climbsFirst stack \<Longrightarrow> ''..'' \<in> set stack \<Longrightarrow> last stack = ''..''"
  by (auto simp: climbsFirst_def split: if_splits)

lemma isSafe_no_climb:
  assumes "isSafeStaticPath p"
  shows "\<not> IsAbs p \<and> ''..'' \<notin> set (cleanLoop False [] (Split p slash))"
proof (cases "p = []")
  case True
  then show ?thesis by (simp add: IsAbs_def HasPrefix_def Split_def)
next
  case False
  let ?st = "cleanLoop False [] (Split p slash)"
  have rel: "\<not> IsAbs p"
    using assms False by (auto simp: isSafeStaticPath_def Let_def Clean_abs slash_def HasPrefix_def split: if_splits)
  have "''..'' \<notin> set ?st"
  proof
    assume up: "''..'' \<in> set ?st"
    have "climbsFirst ?st" using cleanLoop_climbsFirst [of "[]"] by (simp add: climbsFirst_def)
    then have "last ?st = ''..''" using up by (rule climbsFirst_last)
    with up obtain es where "rev ?st = ''..'' # es" by (cases ?st rule: rev_cases) auto
    moreover from this have "?st \<noteq> []" by auto
    ultimately have "Clean p = joinWith slash (''..'' # es)" using rel by (simp add: Clean_def)
    moreover have "joinWith slash (''..'' # es) \<noteq> ''.''" by (cases es) auto
    ultimately show False using assms False joinWith_up [of es]
      by (auto simp: isSafeStaticPath_def Let_def split: if_splits)
  qed
  with rel show ?thesis by blast
qed

end
