(* ===== verification/Server_Files.thy ===== *)
theory Server_Files
  imports Server_Paths
begin

text \<open>
  The file system that the server reads: directories, regular files and symbolic links, and the functions of the Go library on it. A location is
  the list of names from the root; an absolute path leads to a location by following links. \<^verbatim>\<open>filepath.EvalSymlinks\<close> does this
  itself, with at most 255 links, and \<^verbatim>\<open>os.Stat\<close> and \<^verbatim>\<open>os.ReadFile\<close> leave it to the kernel, which follows at most 40. The code calls them with
  absolute paths only.
\<close>

section \<open>Definitions\<close>

datatype fsError = NotExist | OtherError

text \<open>Reading a file or a link can fail.\<close>

datatype inode = RegularFile "fsError + string" | Directory | Symlink "fsError + string"

record filesystem =
  lstat :: "string list \<Rightarrow> fsError + inode"
  workingDir :: "fsError + string"
  typeByExtension :: "string \<Rightarrow> string"

text \<open>
  \<open>walk fs links dest rest\<close> follows the elements \<open>rest\<close> from the location \<open>dest\<close>, with so many links left. The target of a link stands in
  front of the elements that are left, and an absolute target starts at the root. A regular file must be the last element.
\<close>

function walk :: "filesystem \<Rightarrow> nat \<Rightarrow> string list \<Rightarrow> string list \<Rightarrow> fsError + string list" where
  "walk fs links dest [] = Inr dest"
| "walk fs links dest (e # rest) =
    (if e = [] \<or> e = ''.'' then walk fs links dest rest
     else if e = ''..'' then walk fs links (butlast dest) rest
     else
      (case lstat fs (dest @ [e]) of
         Inl err \<Rightarrow> Inl err
       | Inr Directory \<Rightarrow> walk fs links (dest @ [e]) rest
       | Inr (RegularFile _) \<Rightarrow> if rest = [] then Inr (dest @ [e]) else Inl OtherError
       | Inr (Symlink target) \<Rightarrow>
          (case links of
             0 \<Rightarrow> Inl OtherError
           | Suc links' \<Rightarrow>
              (case target of
                 Inl err \<Rightarrow> Inl err
               | Inr link \<Rightarrow> walk fs links' (if IsAbs link then [] else dest) (Split link slash @ rest)))))"
  by pat_completeness auto
termination by (relation "inv_image (less_than <*lex*> less_than) (\<lambda>(fs, links, dest, rest). (links, length rest))") auto

definition pathOf :: "string list \<Rightarrow> string" where
  "pathOf ks = slash # joinWith slash ks"

definition evalSymlinks :: "filesystem \<Rightarrow> string \<Rightarrow> fsError + string" where
  "evalSymlinks fs p = map_sum id pathOf (walk fs 255 [] (Split p slash))"

text \<open>The kernel: the location of a path and what is there.\<close>

definition inodeOf :: "filesystem \<Rightarrow> string \<Rightarrow> fsError + inode" where
  "inodeOf fs p =
    (case walk fs 40 [] (Split p slash) of
       Inl e \<Rightarrow> Inl e
     | Inr ks \<Rightarrow> if ks = [] then Inr Directory else lstat fs ks)"

definition isDirectory :: "filesystem \<Rightarrow> string \<Rightarrow> fsError + bool" where
  "isDirectory fs p = map_sum id (\<lambda>node. node = Directory) (inodeOf fs p)"

definition readFile :: "filesystem \<Rightarrow> string \<Rightarrow> fsError + string" where
  "readFile fs p =
    (case inodeOf fs p of
       Inl e \<Rightarrow> Inl e
     | Inr (RegularFile content) \<Rightarrow> content
     | Inr _ \<Rightarrow> Inl OtherError)"

section \<open>Locations without links\<close>

text \<open>A location all of whose parents are directories, and which is not a link itself.\<close>

definition directories :: "filesystem \<Rightarrow> string list \<Rightarrow> bool" where
  "directories fs ks \<longleftrightarrow> (\<forall>js. prefix js ks \<and> js \<noteq> [] \<longrightarrow> lstat fs js = Inr Directory)"

definition linkFree :: "filesystem \<Rightarrow> string list \<Rightarrow> bool" where
  "linkFree fs ks \<longleftrightarrow> directories fs (butlast ks) \<and> (ks \<noteq> [] \<longrightarrow> (\<exists>node. lstat fs ks = Inr node \<and> (\<forall>t. node \<noteq> Symlink t)))"

definition named :: "string list \<Rightarrow> bool" where
  "named ks \<longleftrightarrow> (\<forall>e \<in> set ks. element e \<and> e \<noteq> ''..'')"

lemma named_simps [simp]: "named []" "named (ks @ js) \<longleftrightarrow> named ks \<and> named js" "named (e # ks) \<longleftrightarrow> element e \<and> e \<noteq> ''..'' \<and> named ks"
  by (auto simp: named_def)

lemma named_butlast: "named ks \<Longrightarrow> named (butlast ks)"
  by (auto simp: named_def dest: in_set_butlastD)

lemma directories_Nil [simp]: "directories fs []"
  by (simp add: directories_def)

lemma directories_snoc: "directories fs (ks @ [e]) \<longleftrightarrow> directories fs ks \<and> lstat fs (ks @ [e]) = Inr Directory"
  by (auto simp: directories_def)

lemma directories_butlast: "directories fs ks \<Longrightarrow> directories fs (butlast ks)"
  by (cases ks rule: rev_cases) (auto simp: directories_snoc)

lemma directories_linkFree: "directories fs ks \<Longrightarrow> linkFree fs ks"
  by (cases ks rule: rev_cases) (auto simp: linkFree_def directories_snoc)

text \<open>Following links ends at a location without links.\<close>

lemma walk_linkFree:
  assumes "directories fs dest" and "named dest" and "\<forall>e \<in> set rest. slash \<notin> set e" and "walk fs links dest rest = Inr ks"
  shows "linkFree fs ks \<and> named ks"
  using assms
proof (induction fs links dest rest rule: walk.induct)
  case (1 fs links dest)
  then show ?case by (simp add: directories_linkFree)
next
  case (2 fs links dest e rest)
  consider "e = [] \<or> e = ''.''" | "e = ''..''" | "element e" "e \<noteq> ''..''" using "2.prems"(3) by (auto simp: element_def)
  then show ?case
  proof cases
    case 1
    with 2 show ?thesis by (simp add: "2.IH"(1))
  next
    case 2
    with "2.prems" have "walk fs links (butlast dest) rest = Inr ks" by simp
    with "2.IH"(2) 2 "2.prems" directories_butlast named_butlast show ?thesis by simp
  next
    case 3
    then have e: "\<not> (e = [] \<or> e = ''.'')" by (auto simp: element_def)
    obtain node where node: "lstat fs (dest @ [e]) = Inr node" using "2.prems"(4) e 3(2) by (auto split: sum.splits)
    show ?thesis
    proof (cases node)
      case Directory
      then have "walk fs links (dest @ [e]) rest = Inr ks" using "2.prems"(4) e 3(2) node by simp
      with "2.IH"(3) [OF e 3(2) node Directory] "2.prems" 3 node Directory show ?thesis by (simp add: directories_snoc)
    next
      case (RegularFile c)
      then have "ks = dest @ [e]" using "2.prems"(4) e 3(2) node by (auto split: if_splits)
      with "2.prems"(1,2) 3 node RegularFile show ?thesis by (simp add: linkFree_def)
    next
      case (Symlink target)
      then obtain links' link where l: "links = Suc links'" "target = Inr link"
          "walk fs links' (if IsAbs link then [] else dest) (Split link slash @ rest) = Inr ks"
        using "2.prems"(4) e 3(2) node by (auto split: nat.splits sum.splits)
      show ?thesis using "2.IH"(4) [OF e 3(2) node Symlink l(1,2)] l(3) "2.prems"(1-3) Split_elements by (auto split: if_splits)
    qed
  qed
qed

text \<open>The path of a location without links leads to this location.\<close>

lemma walk_directories: "directories fs (dest @ es) \<Longrightarrow> named es \<Longrightarrow> walk fs links dest (es @ rest) = walk fs links (dest @ es) rest"
proof (induction es arbitrary: dest)
  case (Cons e es)
  then have "lstat fs (dest @ [e]) = Inr Directory" by (simp add: directories_def)
  with Cons.prems Cons.IH [of "dest @ [e]"] show ?case by (simp add: element_def)
qed simp

lemma Split_pathOf: "named ks \<Longrightarrow> Split (pathOf ks) slash = [] # (if ks = [] then [[]] else ks)"
proof (cases "ks = []")
  case False
  assume "named ks"
  with False show ?thesis
    using Split_joinWith [of "[] # ks" slash] by (auto simp: pathOf_def joinWith_Cons named_def element_def)
qed (simp add: pathOf_def Split_def)

lemma walk_pathOf:
  assumes "linkFree fs ks" and "named ks"
  shows "walk fs links [] (Split (pathOf ks) slash) = Inr ks"
proof (cases ks rule: rev_cases)
  case Nil
  then show ?thesis by (simp add: Split_pathOf)
next
  case (snoc js e)
  have "walk fs links [] (js @ [e]) = walk fs links js [e]"
    using walk_directories [of fs "[]" js links "[e]"] assms snoc by (simp add: linkFree_def)
  moreover obtain node where "lstat fs (js @ [e]) = Inr node" "\<forall>t. node \<noteq> Symlink t" using assms(1) snoc by (auto simp: linkFree_def)
  ultimately show ?thesis using assms(2) snoc by (cases node) (simp_all add: Split_pathOf element_def)
qed

lemma components_pathOf: "named ks \<Longrightarrow> components (pathOf ks) = ks"
  using cleanLoop_id [of ks True "[]"] by (auto simp: components_def Split_pathOf named_def)

lemma IsAbs_pathOf [simp]: "IsAbs (pathOf ks)"
  by (simp add: pathOf_def IsAbs_def HasPrefix_def)

lemma evalSymlinks_resolved:
  assumes "evalSymlinks fs p = Inr q"
  obtains ks where "q = pathOf ks" and "linkFree fs ks" and "named ks"
proof -
  obtain ks where ks: "walk fs 255 [] (Split p slash) = Inr ks" "q = pathOf ks"
    using assms by (cases "walk fs 255 [] (Split p slash)") (auto simp: evalSymlinks_def)
  from walk_linkFree [OF _ _ _ ks(1)] that [OF ks(2)] Split_elements show ?thesis by auto
qed

lemma evalSymlinks_abs: "evalSymlinks fs p = Inr q \<Longrightarrow> IsAbs q"
  by (erule evalSymlinks_resolved) simp

text \<open>What is read at the path of such a location is the file at this location.\<close>

lemma readFile_pathOf:
  assumes "linkFree fs ks" and "named ks" and "readFile fs (pathOf ks) = Inr body"
  shows "ks \<noteq> [] \<and> lstat fs ks = Inr (RegularFile (Inr body))"
  using assms by (auto simp: readFile_def inodeOf_def walk_pathOf split: if_splits sum.splits inode.splits)

end
