(* ===== verification/Server_Static.thy ===== *)
theory Server_Static
  imports Core_Router Server_Files
begin

text \<open>
  The static file handler and the index page of \<^verbatim>\<open>cmd/server/main.go\<close>, on the file system of \<open>Server_Files\<close>, which does not change while a
  request is served. The date of the response is the argument of every handler.
\<close>

section \<open>Answers of a handler\<close>

text \<open>\<open>log.Println\<close>, and the answers whose write error is dropped or logged.\<close>

definition logLine :: "string \<Rightarrow> ResponseWriter \<times> world \<Rightarrow> ResponseWriter \<times> world" where
  "logLine message ws = (fst ws, (snd ws)\<lparr>events := events (snd ws) @ [HandlerLog message]\<rparr>)"

definition logError :: "writeError option \<times> ResponseWriter \<times> world \<Rightarrow> ResponseWriter \<times> world" where
  "logError r = (case fst r of None \<Rightarrow> snd r | Some _ \<Rightarrow> logLine ''Write error:'' (snd r))"

definition reply :: "string \<Rightarrow> StatusCode \<Rightarrow> ResponseWriter \<times> world \<Rightarrow> ResponseWriter \<times> world" where
  "reply date status ws = snd (WriteText date status [] ws)"

text \<open>\<open>requireMethod\<close>: whether the method is the wanted one, after an answer if it is not.\<close>

definition requireMethod :: "string \<Rightarrow> Request \<Rightarrow> string \<Rightarrow> ResponseWriter \<times> world \<Rightarrow> bool \<times> ResponseWriter \<times> world" where
  "requireMethod date req meth ws =
    (if Method req = meth then (True, ws)
     else (False, logError (WriteText date StatusMethodNotAllowed [] ws)))"

definition guarded :: "string \<Rightarrow> handler \<Rightarrow> handler" where
  "guarded meth h date req ws =
    (case requireMethod date req meth ws of (ok, ws') \<Rightarrow> if ok then h date req ws' else ws')"

section \<open>The root directory\<close>

fun searchRoot :: "nat \<Rightarrow> filesystem \<Rightarrow> string \<Rightarrow> string \<Rightarrow> (fsError + string) option" where
  "searchRoot 0 fs rootDir wd = None"
| "searchRoot (Suc n) fs rootDir wd =
    (let candidate = JoinPath wd rootDir in
     if isDirectory fs candidate = Inr True then Some (evalSymlinks fs candidate)
     else (let parent = Dir wd in if parent = wd then None else searchRoot n fs rootDir parent))"

definition resolveStaticRoot :: "filesystem \<Rightarrow> string \<Rightarrow> fsError + string" where
  "resolveStaticRoot fs rootDir =
    (if IsAbs rootDir then evalSymlinks fs rootDir
     else
      (case workingDir fs of
         Inl e \<Rightarrow> Inl e
       | Inr wd \<Rightarrow>
          (case searchRoot 6 fs rootDir wd of
             Some r \<Rightarrow> r
           | None \<Rightarrow> evalSymlinks fs (JoinPath wd rootDir))))"

section \<open>The handlers\<close>

definition TrimPrefix :: "string \<Rightarrow> string \<Rightarrow> string" where
  "TrimPrefix s p = (if HasPrefix s p then drop (length p) s else s)"

text \<open>An error of the file system: 404 if the file does not exist, else 500 and a log line.\<close>

definition fileError :: "string \<Rightarrow> string \<Rightarrow> fsError \<Rightarrow> ResponseWriter \<times> world \<Rightarrow> ResponseWriter \<times> world" where
  "fileError date message e ws =
    (if e = NotExist then reply date StatusNotFound ws
     else reply date StatusInternalServerError (logLine message ws))"

definition serveFile :: "filesystem \<Rightarrow> string \<Rightarrow> string \<Rightarrow> ResponseWriter \<times> world \<Rightarrow> ResponseWriter \<times> world" where
  "serveFile fs resolved date ws =
    (case readFile fs resolved of
       Inl e \<Rightarrow> reply date StatusInternalServerError (logLine ''Static file read error:'' ws)
     | Inr body \<Rightarrow>
        (let contentType = typeByExtension fs (Ext resolved);
             contentType = (if contentType = [] then ''application/octet-stream'' else contentType)
         in logError (WriteBytes date StatusOK contentType body ws)))"

definition serveDirectory :: "filesystem \<Rightarrow> string \<Rightarrow> string \<Rightarrow> string \<Rightarrow> ResponseWriter \<times> world \<Rightarrow> ResponseWriter \<times> world" where
  "serveDirectory fs absRoot dir date ws =
    (case evalSymlinks fs (JoinPath dir ''index.html'') of
       Inl e \<Rightarrow> fileError date ''Static index resolution error:'' e ws
     | Inr resolved \<Rightarrow>
        if \<not> isWithinRoot absRoot resolved then reply date StatusForbidden ws
        else if isDirectory fs resolved = Inr False then serveFile fs resolved date ws
        else reply date StatusNotFound ws)"

definition servePath :: "filesystem \<Rightarrow> string \<Rightarrow> string \<Rightarrow> string \<Rightarrow> ResponseWriter \<times> world \<Rightarrow> ResponseWriter \<times> world" where
  "servePath fs absRoot relative date ws =
    (case evalSymlinks fs (JoinPath absRoot relative) of
       Inl e \<Rightarrow> fileError date ''Static file resolution error:'' e ws
     | Inr resolved \<Rightarrow>
        if \<not> isWithinRoot absRoot resolved then reply date StatusForbidden ws
        else
         (case isDirectory fs resolved of
            Inl e \<Rightarrow> fileError date ''Static file stat error:'' e ws
          | Inr True \<Rightarrow> serveDirectory fs absRoot resolved date ws
          | Inr False \<Rightarrow> serveFile fs resolved date ws))"

text \<open>The root is resolved when the handler is made, in the file system of that time.\<close>

definition secureStaticHandler :: "filesystem \<Rightarrow> string \<Rightarrow> filesystem \<Rightarrow> handler" where
  "secureStaticHandler fs0 rootDir fs =
    (let rooted = resolveStaticRoot fs0 rootDir in
     guarded ''GET'' (\<lambda>date req ws.
       let (pathOnly, _, _) = Cut (Path req) (CHR ''?'');
           raw = TrimPrefix pathOnly ''/static/'';
           raw = (if raw = [] then ''index.html'' else raw)
       in case PathUnescape raw of
            None \<Rightarrow> reply date StatusBadRequest ws
          | Some decoded \<Rightarrow>
             if \<not> isSafeStaticPath decoded then reply date StatusBadRequest ws
             else
              (case rooted of
                 Inl e \<Rightarrow> reply date StatusInternalServerError (logLine ''Static root error:'' ws)
               | Inr absRoot \<Rightarrow> servePath fs absRoot decoded date ws)))"

definition serveIndexPage :: "filesystem \<Rightarrow> string \<Rightarrow> string \<Rightarrow> ResponseWriter \<times> world \<Rightarrow> ResponseWriter \<times> world" where
  "serveIndexPage fs staticDir date ws =
    (case resolveStaticRoot fs staticDir of
       Inl e \<Rightarrow> reply date StatusInternalServerError (logLine ''Static root error:'' ws)
     | Inr rootDir \<Rightarrow>
        (case readFile fs (JoinPath rootDir ''index.html'') of
           Inl e \<Rightarrow> fileError date ''Static index read error:'' e ws
         | Inr body \<Rightarrow> logError (WriteBytes date StatusOK ''text/html; charset=utf-8'' body ws)))"

section \<open>Every handler answers\<close>

lemma ready_logLine [simp]: "ready (logLine message ws) = ready ws"
  by (simp add: logLine_def ready_def)

lemma wrote_logLine [simp]: "wrote (fst (logLine message ws)) = wrote (fst ws)"
  by (simp add: logLine_def)

lemma acts_logLine: "acts ws (logLine message ws)"
  using acts.logs [of ws "fst ws" "snd ws" message] acts.stay [of ws] by (simp add: logLine_def)

lemma responds_logged: "responds (logLine message ws) ws' \<Longrightarrow> responds ws ws'"
  using acts_trans [of "logLine message ws" ws' ws, OF _ acts_logLine] by (simp add: responds_def)

lemma responds_reply: "responds ws (reply date status ws)"
  unfolding reply_def by (rule responds_WriteText)

lemma responds_logError: "responds ws (snd r) \<Longrightarrow> responds ws (logError r)"
  using acts_trans [OF acts_logLine] by (auto simp: logError_def responds_def split: option.split)

named_theorems responds_intros \<open>what the parts of a handler do\<close>

lemmas [responds_intros] = responds_reply responds_logged [OF responds_reply]
  responds_logError [OF responds_WriteBytes] responds_logError [OF responds_WriteText]

lemma responds_fileError [responds_intros]: "responds ws (fileError date message e ws)"
  unfolding fileError_def by (simp add: responds_intros)

lemma responds_serveFile [responds_intros]: "responds ws (serveFile fs resolved date ws)"
  unfolding serveFile_def Let_def by (auto split: sum.split intro: responds_intros)

lemma responds_serveDirectory [responds_intros]: "responds ws (serveDirectory fs absRoot dir date ws)"
  unfolding serveDirectory_def by (auto split: sum.split intro: responds_intros)

lemma responds_servePath [responds_intros]: "responds ws (servePath fs absRoot relative date ws)"
  unfolding servePath_def by (auto split: sum.split bool.split intro: responds_intros)

lemma responds_guarded:
  assumes "\<And>ws. responds ws (h date req ws)"
  shows "responds ws (guarded meth h date req ws)"
  using assms by (auto simp: guarded_def requireMethod_def intro: responds_intros)

lemma responsive_guarded: "(\<And>date req ws. responds ws (h date req ws)) \<Longrightarrow> responsive (guarded meth h)"
  by unfold_locales (rule responds_guarded)

lemma responds_serveIndexPage [responds_intros]: "responds ws (serveIndexPage fs staticDir date ws)"
  unfolding serveIndexPage_def by (auto split: sum.split intro: responds_intros)

interpretation static: responsive "secureStaticHandler fs0 rootDir fs" for fs0 rootDir fs
  unfolding secureStaticHandler_def Let_def
  by (rule responsive_guarded) (auto split: prod.split option.split sum.split intro: responds_intros)

section \<open>Which files are sent\<close>

lemma searchRoot_abs: "searchRoot n fs rootDir wd = Some (Inr r) \<Longrightarrow> IsAbs r"
  by (induction n fs rootDir wd rule: searchRoot.induct) (auto simp: Let_def dest: evalSymlinks_abs split: if_splits)

lemma resolveStaticRoot_abs: "resolveStaticRoot fs rootDir = Inr r \<Longrightarrow> IsAbs r"
  by (auto simp: resolveStaticRoot_def dest: searchRoot_abs evalSymlinks_abs split: if_splits sum.splits option.splits)

text \<open>If the answer is 200, its body is the content of a file with the property.\<close>

definition sendsFileOf :: "(string \<Rightarrow> bool) \<Rightarrow> filesystem \<Rightarrow> string \<Rightarrow> ResponseWriter \<times> world \<Rightarrow> ResponseWriter \<times> world \<Rightarrow> bool" where
  "sendsFileOf P fs date ws ws' \<longleftrightarrow>
     (ready ws \<and> statusCode (fst ws') = 200 \<longrightarrow>
      (\<exists>p body contentType. P p \<and> readFile fs p = Inr body
         \<and> sent (snd ws') = sent (snd ws) @ responseHead (fst ws) date StatusOK contentType (length body) @ body))"

named_theorems sends_intros \<open>which files the parts of a handler send\<close>

lemma status_WriteText: "ready ws \<Longrightarrow> statusCode (fst (snd (WriteText date status body ws))) = Code status"
  by (cases ws) (simp add: WriteText_def writeResponse_reliable ready_def)

lemma sends_reply [sends_intros]: "Code status \<noteq> 200 \<Longrightarrow> sendsFileOf P fs date ws (reply date status ws)"
  by (auto simp: sendsFileOf_def reply_def status_WriteText)

lemma sends_logged [sends_intros]:
  "Code status \<noteq> 200 \<Longrightarrow> sendsFileOf P fs date ws (reply date status (logLine message ws))"
  by (auto simp: sendsFileOf_def reply_def status_WriteText)

lemma sends_notAllowed: "sendsFileOf P fs date ws (logError (WriteText date StatusMethodNotAllowed [] ws))"
proof -
  have "statusCode (fst (logError r)) = statusCode (fst (snd r))" for r by (simp add: logError_def logLine_def split: option.split)
  then show ?thesis by (auto simp: sendsFileOf_def status_WriteText StatusMethodNotAllowed_def)
qed

lemmas status_codes = StatusNotFound_def StatusInternalServerError_def StatusForbidden_def StatusBadRequest_def

lemma sends_fileError [sends_intros]: "sendsFileOf P fs date ws (fileError date message e ws)"
  by (simp add: fileError_def sends_intros status_codes)

lemma sends_serveFile [sends_intros]: "P p \<Longrightarrow> sendsFileOf P fs date ws (serveFile fs p date ws)"
proof (cases "readFile fs p")
  case (Inl e)
  then show ?thesis by (simp add: serveFile_def sends_intros status_codes)
next
  case (Inr body)
  assume "P p"
  moreover obtain contentType where "serveFile fs p date ws = logError (writeResponse date StatusOK contentType body ws)"
    using Inr by (simp add: serveFile_def WriteBytes_def Let_def)
  ultimately show ?thesis using Inr
    by (cases ws) (auto simp: sendsFileOf_def ready_def writeResponse_reliable logError_def)
qed

text \<open>A path below the root that leads over no links.\<close>

definition belowRoot :: "filesystem \<Rightarrow> string \<Rightarrow> string \<Rightarrow> bool" where
  "belowRoot fs absRoot p \<longleftrightarrow> (\<exists>ks. p = pathOf ks \<and> linkFree fs ks \<and> named ks \<and> prefix (components absRoot) ks)"

lemma belowRoot_resolved:
  assumes "evalSymlinks fs p = Inr q" and "IsAbs absRoot" and "isWithinRoot absRoot q"
  shows "belowRoot fs absRoot q"
proof -
  obtain ks where ks: "q = pathOf ks" "linkFree fs ks" "named ks" using assms(1) by (rule evalSymlinks_resolved)
  with assms(2,3) isWithinRoot_components [of absRoot q] show ?thesis by (auto simp: belowRoot_def components_pathOf)
qed

lemma sends_serveDirectory [sends_intros]:
  "IsAbs absRoot \<Longrightarrow> sendsFileOf (belowRoot fs absRoot) fs date ws (serveDirectory fs absRoot dir date ws)"
  by (auto simp: serveDirectory_def status_codes split: sum.split intro: sends_intros belowRoot_resolved)

lemma sends_servePath [sends_intros]:
  "IsAbs absRoot \<Longrightarrow> sendsFileOf (belowRoot fs absRoot) fs date ws (servePath fs absRoot relative date ws)"
  by (auto simp: servePath_def status_codes split: sum.split bool.split intro: sends_intros belowRoot_resolved)

lemma sends_static:
  assumes "resolveStaticRoot fs0 rootDir = Inr absRoot"
  shows "sendsFileOf (belowRoot fs absRoot) fs date ws (secureStaticHandler fs0 rootDir fs date req ws)"
  using assms sends_servePath [OF resolveStaticRoot_abs [OF assms]] sends_notAllowed [of "belowRoot fs absRoot" fs date ws]
  by (auto simp: secureStaticHandler_def guarded_def requireMethod_def Let_def status_codes
      split: prod.split option.split intro: sends_reply)

text \<open>The index page is read without such a check: a link of this name leads out of the root.\<close>

definition linkedIndex :: filesystem where
  "linkedIndex =
    \<lparr>lstat = (\<lambda>ks. if ks = [''srv''] \<or> ks = [''etc''] then Inr Directory
                   else if ks = [''srv'', ''index.html''] then Inr (Symlink (Inr ''../etc/secret''))
                   else if ks = [''etc'', ''secret''] then Inr (RegularFile (Inr ''key'')) else Inl NotExist),
     workingDir = Inr ''/srv'', typeByExtension = (\<lambda>_. [])\<rparr>"

lemma index_page_follows_links:
  "case resolveStaticRoot linkedIndex ''/srv'' of
     Inl e \<Rightarrow> False
   | Inr rootDir \<Rightarrow> readFile linkedIndex (JoinPath rootDir ''index.html'') = Inr ''key'' \<and> evalSymlinks linkedIndex ''/srv/index.html'' = Inr ''/etc/secret''"
  by code_simp

end
