(* ===== verification/Config.thy ===== *)
theory Config
  imports Go_Float
begin

text \<open>
  The configuration of \<^verbatim>\<open>config/config.go\<close>, read from the environment, which is an argument. The messages
  about refused values are in \<open>Server_Start\<close>. Of the standard library the file uses
  \<open>strconv.ParseFloat\<close> and \<open>time.ParseDuration\<close>, defined first; \<open>None\<close> is their error.
\<close>

section \<open>strconv.ParseFloat\<close>

definition dropSign :: "string \<Rightarrow> bool \<times> bool \<times> string" where
  "dropSign s =
    (if s \<noteq> [] \<and> (hd s = CHR ''+'' \<or> hd s = CHR ''-'') then (True, hd s = CHR ''-'', tl s) else (False, False, s))"

text \<open>Underscores may separate digits, and a digit from the prefix of the base.\<close>

datatype seen = AtStart | SawDigit | SawUnderscore | SawOther

fun underscoresFrom :: "bool \<Rightarrow> seen \<Rightarrow> string \<Rightarrow> bool" where
  "underscoresFrom hex saw [] = (saw \<noteq> SawUnderscore)"
| "underscoresFrom hex saw (c # s) =
    (if isDigit c \<or> hex \<and> unhex c \<noteq> None then underscoresFrom hex SawDigit s
     else if c = CHR ''_'' then saw = SawDigit \<and> underscoresFrom hex SawUnderscore s
     else saw \<noteq> SawUnderscore \<and> underscoresFrom hex SawOther s)"

definition underscoreOK :: "string \<Rightarrow> bool" where
  "underscoreOK s0 =
    (let (_, _, s) = dropSign s0 in
     if 2 \<le> length s \<and> hd s = CHR ''0'' \<and> asciiLower (s ! 1) \<in> {CHR ''b'', CHR ''o'', CHR ''x''}
     then underscoresFrom (asciiLower (s ! 1) = CHR ''x'') SawDigit (drop 2 s)
     else underscoresFrom False AtStart s)"

text \<open>The mantissa: its digits as a number, how many of them follow the point, whether there are any, and the rest.\<close>

fun mantissa :: "bool \<Rightarrow> int \<Rightarrow> nat \<Rightarrow> bool \<Rightarrow> bool \<Rightarrow> string \<Rightarrow> int \<times> nat \<times> bool \<times> string" where
  "mantissa hex n places sawdot sawdigits [] = (n, places, sawdigits, [])"
| "mantissa hex n places sawdot sawdigits (c # s) =
    (if c = CHR ''_'' then mantissa hex n places sawdot sawdigits s
     else if c = CHR ''.'' \<and> \<not> sawdot then mantissa hex n places True sawdigits s
     else if isDigit c \<or> hex \<and> unhex c \<noteq> None
     then mantissa hex (n * (if hex then 16 else 10) + int (the (unhex c))) (if sawdot then places + 1 else places) sawdot True s
     else (n, places, sawdigits, c # s))"

fun exponentDigits :: "int \<Rightarrow> string \<Rightarrow> int \<times> string" where
  "exponentDigits e [] = (e, [])"
| "exponentDigits e (c # s) =
    (if c = CHR ''_'' then exponentDigits e s
     else if isDigit c then exponentDigits (if e < 10000 then e * 10 + int (the (unhex c)) else e) s
     else (e, c # s))"

definition exponent :: "bool \<Rightarrow> string \<Rightarrow> (int \<times> string) option" where
  "exponent hex s =
    (if s \<noteq> [] \<and> asciiLower (hd s) = (if hex then CHR ''p'' else CHR ''e'')
     then (let (_, neg, ds) = dropSign (tl s) in
           if ds = [] \<or> \<not> isDigit (hd ds) then None
           else (let (e, rest) = exponentDigits 0 ds in Some (if neg then - e else e, rest)))
     else if hex then None else Some (0, s))"

definition readFloat :: "string \<Rightarrow> bool \<Rightarrow> string \<Rightarrow> float64 option" where
  "readFloat original neg body =
    (let hex = (2 < length body \<and> hd body = CHR ''0'' \<and> asciiLower (body ! 1) = CHR ''x'');
         (n, places, sawdigits, rest) = mantissa hex 0 0 False False (if hex then drop 2 body else body)
     in if \<not> sawdigits then None
        else case exponent hex rest of
               None \<Rightarrow> None
             | Some (e, rest') \<Rightarrow>
                 if rest' \<noteq> [] \<or> CHR ''_'' \<in> set original \<and> \<not> underscoreOK original then None
                 else (case round64 (if hex then of_int n * 2 powi (e - 4 * int places) else of_int n * 10 powi (e - int places)) of
                         Fin x \<Rightarrow> Some (if neg then Fin (- x) else Fin x)
                       | _ \<Rightarrow> None))"

definition ParseFloat :: "string \<Rightarrow> float64 option" where
  "ParseFloat s =
    (let (signed, neg, body) = dropSign s; low = map asciiLower body in
     if low = ''inf'' \<or> low = ''infinity'' then Some (if neg then NegInf else PosInf)
     else if \<not> signed \<and> low = ''nan'' then Some NaN
     else readFloat s neg body)"

section \<open>time.ParseDuration\<close>

text \<open>The units; the micro sign and the Greek letter are two bytes each.\<close>

definition unitMap :: "string \<rightharpoonup> int" where
  "unitMap =
    [''ns'' \<mapsto> 1, ''us'' \<mapsto> 1000, [CHR 0xC2, CHR 0xB5, CHR ''s''] \<mapsto> 1000, [CHR 0xCE, CHR 0xBC, CHR ''s''] \<mapsto> 1000,
     ''ms'' \<mapsto> 1000000, ''s'' \<mapsto> 1000000000, ''m'' \<mapsto> 60000000000, ''h'' \<mapsto> 3600000000000]"

fun leadingInt :: "int \<Rightarrow> string \<Rightarrow> (int \<times> string) option" where
  "leadingInt x [] = Some (x, [])"
| "leadingInt x (c # s) =
    (if \<not> isDigit c then Some (x, c # s)
     else if 2 ^ 63 div 10 < x then None
     else (let y = x * 10 + int (the (unhex c)) in if 2 ^ 63 < y then None else leadingInt y s))"

fun leadingFraction :: "int \<Rightarrow> int \<Rightarrow> bool \<Rightarrow> string \<Rightarrow> int \<times> int \<times> string" where
  "leadingFraction x scale over [] = (x, scale, [])"
| "leadingFraction x scale over (c # s) =
    (if \<not> isDigit c then (x, scale, c # s)
     else if over \<or> (2 ^ 63 - 1) div 10 < x then leadingFraction x scale True s
     else (let y = x * 10 + int (the (unhex c)) in
           if 2 ^ 63 < y then leadingFraction x scale True s else leadingFraction y (scale * 10) False s))"

definition truncateF :: "float64 \<Rightarrow> int" where
  "truncateF f = (case f of Fin x \<Rightarrow> \<lfloor>x\<rfloor> | _ \<Rightarrow> 0)"

text \<open>One number with its unit.\<close>

definition durationPart :: "string \<Rightarrow> (int \<times> string) option" where
  "durationPart s =
    (if s = [] \<or> \<not> (hd s = CHR ''.'' \<or> isDigit (hd s)) then None
     else
      (case leadingInt 0 s of
         None \<Rightarrow> None
       | Some (v, s1) \<Rightarrow>
          (let pre = (length s1 \<noteq> length s);
               (f, scale, s2, post) =
                 (if s1 \<noteq> [] \<and> hd s1 = CHR ''.''
                  then (let (f, scale, s2) = leadingFraction 0 1 False (tl s1) in (f, scale, s2, length s2 \<noteq> length (tl s1)))
                  else (0, 1, s1, False));
               u = takeWhile (\<lambda>c. \<not> (c = CHR ''.'' \<or> isDigit c)) s2
           in if \<not> pre \<and> \<not> post then None
              else if u = [] then None
              else
               (case unitMap u of
                  None \<Rightarrow> None
                | Some unit \<Rightarrow>
                    if 2 ^ 63 div unit < v then None
                    else
                     (let w = v * unit + (if 0 < f then truncateF (mulF (float64OfInt f) (divF (float64OfInt unit) (float64OfInt scale))) else 0)
                      in if 0 < f \<and> 2 ^ 63 < w then None else Some (w, drop (length u) s2))))))"

lemma leadingInt_length: "leadingInt x s = Some (v, r) \<Longrightarrow> length r \<le> length s"
  by (induction x s rule: leadingInt.induct) (auto simp: Let_def split: if_splits)

lemma leadingFraction_length: "leadingFraction x sc ov s = (f, sc', r) \<Longrightarrow> length r \<le> length s"
  by (induction x sc ov s rule: leadingFraction.induct) (auto simp: Let_def split: if_splits)

lemma durationPart_shorter:
  assumes "durationPart s = Some (v, r)"
  shows "length r < length s"
proof -
  obtain x s1 where i: "leadingInt 0 s = Some (x, s1)"
    using assms by (auto simp: durationPart_def split: if_splits option.splits)
  obtain f sc s2 where places: "leadingFraction 0 1 False (tl s1) = (f, sc, s2)" using prod_cases3 by blast
  have "length s2 \<le> length (tl s1)" using places by (rule leadingFraction_length)
  with leadingInt_length [OF i] i places assms show ?thesis
    by (auto simp: durationPart_def Let_def split: if_splits option.splits prod.splits)
qed

text \<open>The sum is a 64-bit number.\<close>

function durationLoop :: "int \<Rightarrow> string \<Rightarrow> int option" where
  "durationLoop d s =
    (if s = [] then Some d
     else
      (case durationPart s of
         None \<Rightarrow> None
       | Some (v, rest) \<Rightarrow>
          (let d' = (d + v) mod 2 ^ 64 in if 2 ^ 63 < d' then None else durationLoop d' rest)))"
  by pat_completeness auto
termination
  by (relation "measure (\<lambda>(d, s). length s)") (auto dest: durationPart_shorter)

definition ParseDuration :: "string \<Rightarrow> int option" where
  "ParseDuration s =
    (let (_, neg, body) = dropSign s in
     if body = ''0'' then Some 0
     else if body = [] then None
     else
      (case durationLoop 0 body of
         None \<Rightarrow> None
       | Some d \<Rightarrow> if neg then Some (- d) else if 2 ^ 63 - 1 < d then None else Some d))"

declare durationLoop.simps [simp del]

section \<open>The configuration\<close>

record Config =
  ServerAddress :: string
  WorkerPoolSize :: int
  JobQueueSize :: int
  cfgReadTimeout :: int
  cfgWriteTimeout :: int
  cfgIdleTimeout :: int
  ShutdownTimeout :: int
  QueueTimeout :: int
  MaxKeepAlive :: int
  StaticDir :: string
  TLSCertFile :: string
  TLSKeyFile :: string
  cfgRateLimitEnabled :: bool
  cfgRateLimitRate :: float64
  cfgRateLimitCapacity :: float64

definition defaultServerAddress :: string where "defaultServerAddress = '':8080''"
definition defaultWorkerPoolSize :: int where "defaultWorkerPoolSize = 10"
definition defaultJobQueueSize :: int where "defaultJobQueueSize = 200"
definition DefaultRateLimitRate :: float64 where "DefaultRateLimitRate = Fin 5"
definition DefaultRateLimitCapacity :: float64 where "DefaultRateLimitCapacity = Fin 10"
definition DefaultReadTimeout :: int where "DefaultReadTimeout = 5 * 1000000000"
definition DefaultWriteTimeout :: int where "DefaultWriteTimeout = 5 * 1000000000"
definition DefaultIdleTimeout :: int where "DefaultIdleTimeout = 30 * 1000000000"
definition DefaultShutdownTimeout :: int where "DefaultShutdownTimeout = 10 * 1000000000"
definition DefaultQueueTimeout :: int where "DefaultQueueTimeout = 250 * 1000000"
definition DefaultMaxKeepAlive :: int where "DefaultMaxKeepAlive = 100"
definition DefaultStaticDir :: string where "DefaultStaticDir = ''public''"

type_synonym getenv = "string \<Rightarrow> string"

definition envString :: "getenv \<Rightarrow> string \<Rightarrow> string \<Rightarrow> string" where
  "envString env name fallback = (let v = TrimSpace (env name) in if v = [] then fallback else v)"

definition envBool :: "(nat \<Rightarrow> nat) \<Rightarrow> getenv \<Rightarrow> string \<Rightarrow> bool" where
  "envBool lower env name =
    (let v = TrimSpace (ToLower lower (env name)) in v \<in> {''1'', ''true'', ''yes'', ''on''})"

definition envFloat :: "getenv \<Rightarrow> string \<Rightarrow> float64 \<Rightarrow> float64" where
  "envFloat env name fallback =
    (let v = TrimSpace (env name) in
     if v = [] then fallback
     else
      (case ParseFloat v of
         None \<Rightarrow> fallback
       | Some parsed \<Rightarrow> if lessF parsed (Fin 0) then fallback else parsed))"

definition envPositiveFloat :: "getenv \<Rightarrow> string \<Rightarrow> float64 \<Rightarrow> float64" where
  "envPositiveFloat env name fallback =
    (let parsed = envFloat env name fallback in if leF parsed (Fin 0) then fallback else parsed)"

definition envInt :: "getenv \<Rightarrow> string \<Rightarrow> int \<Rightarrow> int" where
  "envInt env name fallback =
    (let v = TrimSpace (env name) in
     if v = [] then fallback
     else (case Atoi v of None \<Rightarrow> fallback | Some parsed \<Rightarrow> if parsed \<le> 0 then fallback else parsed))"

definition envDuration :: "getenv \<Rightarrow> string \<Rightarrow> int \<Rightarrow> int" where
  "envDuration env name fallback =
    (let v = TrimSpace (env name) in
     if v = [] then fallback
     else (case ParseDuration v of None \<Rightarrow> fallback | Some parsed \<Rightarrow> if parsed \<le> 0 then fallback else parsed))"

definition RateLimitEnabled :: "(nat \<Rightarrow> nat) \<Rightarrow> getenv \<Rightarrow> bool" where
  "RateLimitEnabled lower env \<longleftrightarrow>
    \<not> envBool lower env ''MTWS_RATE_LIMIT_DISABLED'' \<and> \<not> envBool lower env ''MTWS_BENCHMARK_MODE''"

definition RateLimitRate :: "getenv \<Rightarrow> float64" where
  "RateLimitRate env = envPositiveFloat env ''MTWS_RATE_LIMIT_RATE'' DefaultRateLimitRate"

definition RateLimitCapacity :: "getenv \<Rightarrow> float64" where
  "RateLimitCapacity env = envPositiveFloat env ''MTWS_RATE_LIMIT_CAPACITY'' DefaultRateLimitCapacity"

definition Load :: "(nat \<Rightarrow> nat) \<Rightarrow> getenv \<Rightarrow> Config" where
  "Load lower env =
    \<lparr>ServerAddress = envString env ''MTWS_ADDR'' defaultServerAddress,
     WorkerPoolSize = envInt env ''MTWS_WORKERS'' defaultWorkerPoolSize,
     JobQueueSize = envInt env ''MTWS_JOB_QUEUE_SIZE'' defaultJobQueueSize,
     cfgReadTimeout = envDuration env ''MTWS_READ_TIMEOUT'' DefaultReadTimeout,
     cfgWriteTimeout = envDuration env ''MTWS_WRITE_TIMEOUT'' DefaultWriteTimeout,
     cfgIdleTimeout = envDuration env ''MTWS_IDLE_TIMEOUT'' DefaultIdleTimeout,
     ShutdownTimeout = envDuration env ''MTWS_SHUTDOWN_TIMEOUT'' DefaultShutdownTimeout,
     QueueTimeout = envDuration env ''MTWS_QUEUE_TIMEOUT'' DefaultQueueTimeout,
     MaxKeepAlive = envInt env ''MTWS_MAX_KEEPALIVE_REQUESTS'' DefaultMaxKeepAlive,
     StaticDir = envString env ''MTWS_STATIC_DIR'' DefaultStaticDir,
     TLSCertFile = TrimSpace (env ''MTWS_TLS_CERT_FILE''),
     TLSKeyFile = TrimSpace (env ''MTWS_TLS_KEY_FILE''),
     cfgRateLimitEnabled = RateLimitEnabled lower env,
     cfgRateLimitRate = RateLimitRate env,
     cfgRateLimitCapacity = RateLimitCapacity env\<rparr>"

definition TLSEnabled :: "Config \<Rightarrow> bool" where
  "TLSEnabled c \<longleftrightarrow> TLSCertFile c \<noteq> [] \<and> TLSKeyFile c \<noteq> []"

definition TLSPartiallyConfigured :: "Config \<Rightarrow> bool" where
  "TLSPartiallyConfigured c \<longleftrightarrow> (TLSCertFile c = []) \<noteq> (TLSKeyFile c = [])"

section \<open>Properties\<close>

lemma Atoi_range: "Atoi s = Some n \<Longrightarrow> n < 2 ^ 63"
  unfolding Atoi_def Let_def by (metis (no_types, lifting) not_le option.distinct(1) option.inject)

lemma envInt_positive: "0 < fallback \<Longrightarrow> fallback < 2 ^ 63 \<Longrightarrow> 0 < envInt env name fallback \<and> envInt env name fallback < 2 ^ 63"
  using Atoi_range by (auto simp: envInt_def Let_def split: option.split)

lemma durationLoop_range: "0 \<le> d \<Longrightarrow> d \<le> 2 ^ 63 \<Longrightarrow> durationLoop d s = Some e \<Longrightarrow> 0 \<le> e \<and> e \<le> 2 ^ 63"
proof (induction d s rule: durationLoop.induct)
  case (1 d s)
  show ?case
  proof (cases "s = [] \<or> durationPart s = None")
    case True
    with 1 show ?thesis by (auto simp: durationLoop.simps [of d s] split: if_splits)
  next
    case False
    then obtain v rest where part: "durationPart s = Some (v, rest)" and s: "s \<noteq> []" by auto
    with "1.prems"(3) have "\<not> 2 ^ 63 < (d + v) mod 2 ^ 64" "durationLoop ((d + v) mod 2 ^ 64) rest = Some e"
      by (auto simp: durationLoop.simps [of d s] Let_def split: if_splits)
    with "1.IH" [OF s part refl refl] show ?thesis by simp
  qed
qed

lemma ParseDuration_range: "ParseDuration s = Some d \<Longrightarrow> d < 2 ^ 63"
  using durationLoop_range [of 0] by (fastforce simp: ParseDuration_def Let_def split: if_splits option.splits prod.splits)

lemma envDuration_positive:
  "0 < fallback \<Longrightarrow> fallback < 2 ^ 63 \<Longrightarrow> 0 < envDuration env name fallback \<and> envDuration env name fallback < 2 ^ 63"
  using ParseDuration_range by (auto simp: envDuration_def Let_def split: option.split)

lemma envString_nonempty: "fallback \<noteq> [] \<Longrightarrow> envString env name fallback \<noteq> []"
  by (simp add: envString_def Let_def)

lemma envPositiveFloat_positive:
  "lessF (Fin 0) fallback \<Longrightarrow> lessF (Fin 0) (envPositiveFloat env name fallback) \<or> envPositiveFloat env name fallback = NaN"
  by (cases "envFloat env name fallback") (auto simp: envPositiveFloat_def Let_def leF_def)

text \<open>
  C37. Whatever the environment holds, the loaded configuration is in range: sizes, limits and timeouts
  are positive and fit a 64-bit integer, the address and the directory are not empty, and the rate and
  the capacity of the limiter are positive or not a number.
\<close>

theorem loaded_config_valid:
  "let c = Load lower env in
     ServerAddress c \<noteq> [] \<and> StaticDir c \<noteq> []
     \<and> list_all (\<lambda>n. 0 < n \<and> n < 2 ^ 63)
         [WorkerPoolSize c, JobQueueSize c, MaxKeepAlive c, cfgReadTimeout c, cfgWriteTimeout c, cfgIdleTimeout c,
          ShutdownTimeout c, QueueTimeout c]
     \<and> list_all (\<lambda>x. lessF (Fin 0) x \<or> x = NaN) [cfgRateLimitRate c, cfgRateLimitCapacity c]"
proof -
  define c where "c = Load lower env"
  have "ServerAddress c \<noteq> [] \<and> StaticDir c \<noteq> []"
    using envString_nonempty by (simp add: c_def Load_def defaultServerAddress_def DefaultStaticDir_def)
  moreover have "list_all (\<lambda>n. 0 < n \<and> n < 2 ^ 63) [WorkerPoolSize c, JobQueueSize c, MaxKeepAlive c]"
    using envInt_positive [of defaultWorkerPoolSize] envInt_positive [of defaultJobQueueSize] envInt_positive [of DefaultMaxKeepAlive]
    by (simp add: c_def Load_def defaultWorkerPoolSize_def defaultJobQueueSize_def DefaultMaxKeepAlive_def)
  moreover have "list_all (\<lambda>n. 0 < n \<and> n < 2 ^ 63)
      [cfgReadTimeout c, cfgWriteTimeout c, cfgIdleTimeout c, ShutdownTimeout c, QueueTimeout c]"
    using envDuration_positive [of DefaultReadTimeout] envDuration_positive [of DefaultWriteTimeout]
      envDuration_positive [of DefaultIdleTimeout] envDuration_positive [of DefaultShutdownTimeout] envDuration_positive [of DefaultQueueTimeout]
    by (simp add: c_def Load_def DefaultReadTimeout_def DefaultWriteTimeout_def DefaultIdleTimeout_def
        DefaultShutdownTimeout_def DefaultQueueTimeout_def)
  moreover have "list_all (\<lambda>x. lessF (Fin 0) x \<or> x = NaN) [cfgRateLimitRate c, cfgRateLimitCapacity c]"
    using envPositiveFloat_positive [of DefaultRateLimitRate] envPositiveFloat_positive [of DefaultRateLimitCapacity]
    by (simp add: c_def Load_def RateLimitRate_def RateLimitCapacity_def DefaultRateLimitRate_def DefaultRateLimitCapacity_def)
  ultimately show ?thesis unfolding c_def Let_def by simp
qed

end
