(* ===== verification/Server_Routes.thy ===== *)
theory Server_Routes
  imports Server_Static Core_Logs Core_Prometheus Config
begin

text \<open>
  The routes of \<^verbatim>\<open>cmd/server/main.go\<close>: the handlers of the server and the router they are registered with.
  The metrics a handler reports are those of the world it runs in. The store of recent log lines, the
  state of the job queue, the figures of the Go runtime and the time since the start are
  parts of the record \<open>serverState\<close>, and so is \<open>json.Marshal\<close>, which a handler calls on a value that is built
  here.
\<close>

section \<open>Payloads\<close>

datatype json =
    JString string
  | JInt int
  | JFloat float64
  | JBool bool
  | JList "json list"
  | JNull
  | JObject "(string \<times> json) list"

record runtimeFigures =
  goroutines :: int
  memAlloc :: uint64
  memSys :: uint64
  memHeapIdle :: uint64
  memHeapInuse :: uint64
  memLastGC :: uint64
  memNumGC :: int

record serverState =
  fsAtStart :: filesystem
  fsNow :: filesystem
  config :: Config
  logStore :: LogStore
  jobQueue :: "(nat \<times> nat) option"
  generatedAt :: string
  uptime :: int
  figures :: runtimeFigures
  marshal :: "json \<Rightarrow> string option"

definition queueUtilization :: "int \<Rightarrow> int \<Rightarrow> float64" where
  "queueUtilization depth cap = (if cap \<le> 0 then Fin 0 else divF (float64OfInt depth) (float64OfInt cap))"

definition Milliseconds :: "int \<Rightarrow> int" where
  "Milliseconds d = quot d 1000000"

definition megabytes :: "uint64 \<Rightarrow> float64" where
  "megabytes n = divF (divF (float64OfUint n) (Fin 1024)) (Fin 1024)"

definition snapshotJSON :: "MetricsSnapshot \<Rightarrow> json" where
  "snapshotJSON s = JObject
    [(''accepted_connections'', JInt (uint (AcceptedConnections s))), (''active_connections'', JInt (uint (ActiveConnections s))),
     (''total_requests'', JInt (uint (TotalRequests s))), (''average_request_duration_ms'', JFloat (AverageRequestDurationMS s)),
     (''max_request_duration_ms'', JFloat (MaxRequestDurationMS s)), (''waf_blocks'', JInt (uint (WAFBlocks s))),
     (''parse_rejects'', JInt (uint (ParseRejects s))), (''queue_rejects'', JInt (uint (QueueRejects s))),
     (''rate_limited'', JInt (uint (RateLimited s))), (''responses_2xx'', JInt (uint (Responses2xx s))),
     (''responses_3xx'', JInt (uint (Responses3xx s))), (''responses_4xx'', JInt (uint (Responses4xx s))),
     (''responses_5xx'', JInt (uint (Responses5xx s)))]"

definition buildMonitorPayload :: "serverState \<Rightarrow> Metrics option \<Rightarrow> json" where
  "buildMonitorPayload st m =
    (let cfg = config st;
         (queueDepth, queueCapacity) = (case jobQueue st of None \<Rightarrow> (0, 0) | Some (d, c) \<Rightarrow> (int d, int c));
         rt = figures st
     in JObject
      [(''generated_at'', JString (generatedAt st)),
       (''uptime_seconds'', JFloat (Seconds (uptime st))),
       (''server'', JObject
         [(''address'', JString (ServerAddress cfg)), (''static_dir'', JString (StaticDir cfg)),
          (''tls_enabled'', JBool (TLSEnabled cfg)), (''rate_limit_enabled'', JBool (cfgRateLimitEnabled cfg)),
          (''rate_limit_rate'', JFloat (cfgRateLimitRate cfg)), (''rate_limit_capacity'', JFloat (cfgRateLimitCapacity cfg)),
          (''worker_pool_size'', JInt (WorkerPoolSize cfg)), (''queue_capacity'', JInt queueCapacity),
          (''queue_depth'', JInt queueDepth), (''queue_utilization'', JFloat (queueUtilization queueDepth queueCapacity)),
          (''read_timeout_ms'', JInt (Milliseconds (cfgReadTimeout cfg))), (''write_timeout_ms'', JInt (Milliseconds (cfgWriteTimeout cfg))),
          (''idle_timeout_ms'', JInt (Milliseconds (cfgIdleTimeout cfg))), (''queue_timeout_ms'', JInt (Milliseconds (QueueTimeout cfg))),
          (''shutdown_timeout_ms'', JInt (Milliseconds (ShutdownTimeout cfg)))]),
       (''metrics'', snapshotJSON (metricsSnapshot m)),
       (''runtime'', JObject
         [(''goroutines'', JInt (goroutines rt)), (''heap_alloc_mb'', JFloat (megabytes (memAlloc rt))),
          (''heap_sys_mb'', JFloat (megabytes (memSys rt))), (''heap_idle_mb'', JFloat (megabytes (memHeapIdle rt))),
          (''heap_inuse_mb'', JFloat (megabytes (memHeapInuse rt))),
          (''last_gc_unix_sec'', JInt (uint (memLastGC rt) div 1000000000)), (''num_gc'', JInt (memNumGC rt))])])"

definition logsPayload :: "LogEntry list \<Rightarrow> json" where
  "logsPayload es = JObject
    [(''logs'', JList (map (\<lambda>e. JObject [(''time'', JString (entryTime e)), (''message'', JString (Message e))]) es))]"

section \<open>The query of the log route\<close>

definition QueryUnescape :: "string \<Rightarrow> string option" where
  "QueryUnescape s = PathUnescape (map (\<lambda>c. if c = CHR ''+'' then sp else c) s)"

text \<open>One piece of \<open>url.ParseQuery\<close>: nothing, a pair, or an error, after which the loop goes on.\<close>

definition queryPiece :: "string \<Rightarrow> unit + (string \<times> string) option" where
  "queryPiece piece =
    (if CHR '';'' \<in> set piece then Inl ()
     else if piece = [] then Inr None
     else
      (let (k, v, _) = Cut piece (CHR ''='') in
       case (QueryUnescape k, QueryUnescape v) of
         (Some key, Some value) \<Rightarrow> Inr (Some (key, value))
       | _ \<Rightarrow> Inl ()))"

definition ParseQuery :: "string \<Rightarrow> (string \<times> string) list option" where
  "ParseQuery query =
    (let pieces = map queryPiece (Split query (CHR ''&'')) in
     if list_ex isl pieces then None
     else Some (List.map_filter (\<lambda>p. case p of Inr (Some kv) \<Rightarrow> Some kv | _ \<Rightarrow> None) pieces))"

definition logLimit :: "string \<Rightarrow> int \<Rightarrow> int" where
  "logLimit path fallback =
    (let (_, query, ok) = Cut path (CHR ''?'') in
     if \<not> ok then fallback
     else
      (case ParseQuery query of
         None \<Rightarrow> fallback
       | Some values \<Rightarrow>
          (let raw = TrimSpace (case map_of values ''limit'' of None \<Rightarrow> [] | Some v \<Rightarrow> v) in
           if raw = [] then fallback
           else
            (case Atoi raw of
               None \<Rightarrow> fallback
             | Some limit \<Rightarrow> if limit \<le> 0 then fallback else if 200 < limit then 200 else limit))))"

section \<open>The routes\<close>

definition writeJSON :: "serverState \<Rightarrow> string \<Rightarrow> StatusCode \<Rightarrow> json \<Rightarrow> ResponseWriter \<times> world \<Rightarrow> ResponseWriter \<times> world" where
  "writeJSON st date status payload ws =
    (case marshal st payload of
       None \<Rightarrow> reply date StatusInternalServerError (logLine ''JSON marshal error:'' ws)
     | Some data \<Rightarrow> logError (WriteBytes date status ''application/json; charset=utf-8'' data ws))"

definition defaultMonitorConfig :: Config where
  "defaultMonitorConfig =
    \<lparr>ServerAddress = defaultServerAddress, WorkerPoolSize = defaultWorkerPoolSize, JobQueueSize = defaultJobQueueSize,
     cfgReadTimeout = DefaultReadTimeout, cfgWriteTimeout = DefaultWriteTimeout, cfgIdleTimeout = DefaultIdleTimeout,
     ShutdownTimeout = DefaultShutdownTimeout, QueueTimeout = DefaultQueueTimeout, MaxKeepAlive = DefaultMaxKeepAlive,
     StaticDir = DefaultStaticDir, TLSCertFile = [], TLSKeyFile = [], cfgRateLimitEnabled = True,
     cfgRateLimitRate = DefaultRateLimitRate, cfgRateLimitCapacity = DefaultRateLimitCapacity\<rparr>"

definition indexRoute :: "serverState \<Rightarrow> string \<Rightarrow> handler" where
  "indexRoute st staticDir = guarded ''GET'' (\<lambda>date req ws. serveIndexPage (fsNow st) staticDir date ws)"

definition monitorRoute :: "serverState \<Rightarrow> handler" where
  "monitorRoute st = guarded ''GET'' (\<lambda>date req ws. writeJSON st date StatusOK (buildMonitorPayload st (metrics (snd ws))) ws)"

definition logsRoute :: "serverState \<Rightarrow> handler" where
  "logsRoute st = guarded ''GET'' (\<lambda>date req ws.
    writeJSON st date StatusOK (logsPayload (RecentLogs (logLimit (Path req) 60) (logStore st))) ws)"

definition textRoute :: "string \<Rightarrow> (Request \<Rightarrow> world \<Rightarrow> string) \<Rightarrow> handler" where
  "textRoute meth body = guarded meth (\<lambda>date req ws. logError (WriteText date StatusOK (body req (snd ws)) ws))"

definition healthRoute :: handler where
  "healthRoute = textRoute ''GET'' (\<lambda>req s. ''ok'' @ [lf])"

definition readyRoute :: handler where
  "readyRoute = textRoute ''GET'' (\<lambda>req s. ''ready'' @ [lf])"

definition metricsRoute :: handler where
  "metricsRoute = textRoute ''GET'' (\<lambda>req s. Prometheus (metrics s))"

definition submitRoute :: handler where
  "submitRoute = textRoute ''POST'' (\<lambda>req s. ''MTWS baseline server is running'' @ [lf])"

definition searchRoute :: handler where
  "searchRoute = textRoute ''GET'' (\<lambda>req s. let (_, query, _) = Cut (Path req) (CHR ''?'') in ''query='' @ query @ [lf])"

definition buildRouterWithMetrics :: "serverState \<Rightarrow> string \<Rightarrow> Router option" where
  "buildRouterWithMetrics st staticDir =
    (let r0 = Some NewRouter;
         r1 = Handle ''/'' (Some (indexRoute st staticDir)) r0;
         r2 = Handle ''/api/monitor'' (Some (monitorRoute st)) r1;
         r3 = Handle ''/api/logs'' (Some (logsRoute st)) r2;
         r4 = Handle ''/health'' (Some healthRoute) r3;
         r5 = Handle ''/ready'' (Some readyRoute) r4;
         r6 = Handle ''/metrics'' (Some metricsRoute) r5;
         r7 = Handle ''/submit'' (Some submitRoute) r6;
         r8 = Handle ''/search'' (Some searchRoute) r7
     in HandlePrefix ''/static/'' (Some (secureStaticHandler (fsAtStart st) staticDir (fsNow st))) r8)"

section \<open>The router of the server\<close>

lemma responds_writeJSON: "responds ws (writeJSON st date status payload ws)"
  by (auto simp: writeJSON_def split: option.split intro: responds_intros)

lemma responsive_textRoute: "responsive (textRoute meth body)"
  unfolding textRoute_def by (rule responsive_guarded) (rule responds_intros)

lemma responsive_routes:
  "responsive (indexRoute st staticDir)" "responsive (monitorRoute st)" "responsive (logsRoute st)"
  unfolding indexRoute_def monitorRoute_def logsRoute_def
  by (rule responsive_guarded, rule responds_serveIndexPage responds_writeJSON)+

definition serverRouter :: "serverState \<Rightarrow> string \<Rightarrow> Router" where
  "serverRouter st staticDir =
    \<lparr>routes = [''/'' \<mapsto> indexRoute st staticDir, ''/api/monitor'' \<mapsto> monitorRoute st, ''/api/logs'' \<mapsto> logsRoute st,
       ''/health'' \<mapsto> healthRoute, ''/ready'' \<mapsto> readyRoute, ''/metrics'' \<mapsto> metricsRoute, ''/submit'' \<mapsto> submitRoute,
       ''/search'' \<mapsto> searchRoute],
     prefixRoutes = [\<lparr>prefixOf = ''/static/'', prefixHandler = secureStaticHandler (fsAtStart st) staticDir (fsNow st)\<rparr>]\<rparr>"

lemma buildRouter_eq: "buildRouterWithMetrics st staticDir = Some (serverRouter st staticDir)"
  by (simp add: buildRouterWithMetrics_def serverRouter_def Handle_def HandlePrefix_def NewRouter_def Let_def)

interpretation server: responsive_router "serverRouter st staticDir" for st staticDir
proof
  fix path h
  assume "routes (serverRouter st staticDir) path = Some h"
  then have "h \<in> {indexRoute st staticDir, monitorRoute st, logsRoute st, healthRoute, readyRoute, metricsRoute, submitRoute, searchRoute}"
    by (auto simp: serverRouter_def split: if_splits)
  then show "responds ws (h date req ws)" for ws date req
    using responsive_routes responsive_textRoute responsive.responds
    unfolding healthRoute_def readyRoute_def metricsRoute_def submitRoute_def searchRoute_def by blast
next
  fix route
  assume "route \<in> set (prefixRoutes (serverRouter st staticDir))"
  then show "responds ws (prefixHandler route date req ws)" for ws date req
    using static.responds by (simp add: serverRouter_def)
qed

end
