(* ===== verification/Limiter.thy ===== *)
theory Limiter
  imports Go_Float
begin

text \<open>
  The token bucket limiter of \<^verbatim>\<open>security/ratelimiter/limiter.go\<close>. Times are nanoseconds of the monotonic
  clock; the time of a call is an argument. The mutex makes the calls a sequence, so a run of the limiter is a
  list of calls.
\<close>

section \<open>Definitions\<close>

record bucket =
  tokens :: float64
  lastRefill :: int

record Limiter =
  buckets :: "string \<rightharpoonup> bucket"
  rate :: float64
  capacity :: float64
  bucketTTL :: int
  lastCleanup :: int

definition minutes :: "int \<Rightarrow> int" where
  "minutes n = n * 60000000000"

definition NewWithTTL :: "int \<Rightarrow> float64 \<Rightarrow> float64 \<Rightarrow> int \<Rightarrow> Limiter" where
  "NewWithTTL now r c ttl =
    \<lparr>buckets = Map.empty, rate = r, capacity = c, bucketTTL = (if ttl \<le> 0 then minutes 10 else ttl), lastCleanup = now\<rparr>"

definition NewLimiter :: "int \<Rightarrow> float64 \<Rightarrow> float64 \<Rightarrow> Limiter" where
  "NewLimiter now r c = NewWithTTL now r c (minutes 10)"

text \<open>\<open>Time.Sub\<close> saturates at the bounds of a 64-bit duration.\<close>

definition subTime :: "int \<Rightarrow> int \<Rightarrow> int" where
  "subTime t u = max (- (2 ^ 63)) (min (2 ^ 63 - 1) (t - u))"

definition expired :: "int \<Rightarrow> Limiter \<Rightarrow> bucket \<Rightarrow> bool" where
  "expired now l b \<longleftrightarrow> lastRefill b < now - bucketTTL l"

definition cleanupExpiredBuckets :: "int \<Rightarrow> Limiter \<Rightarrow> Limiter" where
  "cleanupExpiredBuckets now l =
    (if subTime now (lastCleanup l) < bucketTTL l div 2 then l
     else l\<lparr>buckets := (\<lambda>key. case buckets l key of
                              None \<Rightarrow> None
                            | Some b \<Rightarrow> if expired now l b then None else Some b),
            lastCleanup := now\<rparr>)"

definition refill :: "int \<Rightarrow> Limiter \<Rightarrow> bucket \<Rightarrow> float64" where
  "refill now l b =
    (let t = addF (tokens b) (mulF (Seconds (subTime now (lastRefill b))) (rate l))
     in if lessF (capacity l) t then capacity l else t)"

definition Allow :: "int \<Rightarrow> string \<Rightarrow> Limiter \<Rightarrow> bool \<times> Limiter" where
  "Allow now key l0 =
    (let l = cleanupExpiredBuckets now l0 in
     case buckets l key of
       None \<Rightarrow>
         (True, l\<lparr>buckets := (buckets l)(key \<mapsto> \<lparr>tokens = subF (capacity l) (Fin 1), lastRefill = now\<rparr>)\<rparr>)
     | Some b \<Rightarrow>
        (let t = refill now l b in
         if lessF t (Fin 1)
         then (False, l\<lparr>buckets := (buckets l)(key \<mapsto> \<lparr>tokens = t, lastRefill = now\<rparr>)\<rparr>)
         else (True, l\<lparr>buckets := (buckets l)(key \<mapsto> \<lparr>tokens = subF t (Fin 1), lastRefill = now\<rparr>)\<rparr>)))"

text \<open>A sequence of calls, each with its time and key; the answers in order.\<close>

fun allowAll :: "(int \<times> string) list \<Rightarrow> Limiter \<Rightarrow> bool list \<times> Limiter" where
  "allowAll [] l = ([], l)"
| "allowAll ((now, key) # calls) l =
    (let (ok, l1) = Allow now key l; (oks, l2) = allowAll calls l1 in (ok # oks, l2))"

section \<open>Elapsed time\<close>

lemma float64OfInt_exact: "0 \<le> n \<Longrightarrow> n < 2 ^ 53 \<Longrightarrow> float64OfInt n = Fin (of_int n)"
proof -
  assume n: "0 \<le> n" "n < 2 ^ 53"
  have "(of_int n :: rat) \<le> of_int (2 ^ 53)" using n by (simp only: of_int_le_iff)
  also have "\<dots> \<le> maxFloat" by (simp add: maxFloat_def)
  finally show ?thesis using n by (simp add: float64OfInt_def round64_representable representable_int)
qed

lemma Seconds_nonneg:
  assumes "0 \<le> d" and "d < 2 ^ 63"
  obtains q where "Seconds d = Fin q" and "0 \<le> q"
proof -
  let ?s = "d div 1000000000" and ?n = "d mod 1000000000"
  have s: "0 \<le> ?s" "?s < 2 ^ 53" using assms by simp_all
  have n: "0 \<le> ?n" "?n < 1000000000" by simp_all
  have frac: "0 \<le> (of_int ?n / 1000000000 :: rat)" "(of_int ?n / 1000000000 :: rat) \<le> 1" using n by simp_all
  obtain f where f: "round64 (of_int ?n / 1000000000) = Fin f" "0 \<le> f" "f \<le> 1"
    using round64_between [OF frac, of thesis] representable_int [of 1] by (auto simp: maxFloat_def)
  have "representable (of_int (?s + 1))" using s assms by (intro representable_int) simp_all
  moreover have "(of_int (?s + 1) :: rat) \<le> maxFloat"
  proof -
    have "?s + 1 \<le> 2 ^ 53" using s(2) by linarith
    then have "(of_int (?s + 1) :: rat) \<le> of_int (2 ^ 53)" by (simp only: of_int_le_iff)
    also have "\<dots> \<le> maxFloat" by (simp add: maxFloat_def)
    finally show ?thesis .
  qed
  moreover have "0 \<le> of_int ?s + f" "of_int ?s + f \<le> of_int (?s + 1)" using s f by simp_all
  ultimately obtain q where "round64 (of_int ?s + f) = Fin q" "0 \<le> q" using round64_between by metis
  moreover have "Seconds d = round64 (of_int ?s + f)"
    using assms s n f by (simp add: Seconds_def quot_def minus_div_mult_eq_mod float64OfInt_exact)
  ultimately show ?thesis using that by simp
qed

lemma Seconds_zero [simp]: "Seconds 0 = Fin 0"
  by (simp add: Seconds_def quot_def float64OfInt_exact round64_def)

lemma subTime_nonneg: "u \<le> t \<Longrightarrow> 0 \<le> subTime t u \<and> subTime t u < 2 ^ 63"
  by (simp add: subTime_def)

section \<open>Invariant\<close>

text \<open>
  The parameters of the limiter are numbers with a capacity of at least one, and every bucket
  holds between zero and the capacity, refilled at some time in the past.
\<close>

definition paramsOk :: "Limiter \<Rightarrow> bool" where
  "paramsOk l \<longleftrightarrow> (\<exists>c r. capacity l = Fin c \<and> representable c \<and> 1 \<le> c \<and> c \<le> maxFloat \<and> rate l = Fin r \<and> 0 \<le> r)
     \<and> 0 < bucketTTL l"

definition bucketOk :: "int \<Rightarrow> float64 \<Rightarrow> bucket \<Rightarrow> bool" where
  "bucketOk now c b \<longleftrightarrow> lastRefill b \<le> now \<and> (\<exists>t. tokens b = Fin t \<and> representable t \<and> 0 \<le> t \<and> leF (Fin t) c)"

definition limiterInv :: "int \<Rightarrow> Limiter \<Rightarrow> bool" where
  "limiterInv now l \<longleftrightarrow> paramsOk l \<and> (\<forall>key b. buckets l key = Some b \<longrightarrow> bucketOk now (capacity l) b)"

lemma leF_Fin [simp]: "leF (Fin x) (Fin y) \<longleftrightarrow> x \<le> y"
  by (auto simp: leF_def)

lemma cleanup_frame [simp]:
  "capacity (cleanupExpiredBuckets now l) = capacity l" "rate (cleanupExpiredBuckets now l) = rate l"
  "bucketTTL (cleanupExpiredBuckets now l) = bucketTTL l"
  by (simp_all add: cleanupExpiredBuckets_def)

lemma cleanup_bucket: "buckets (cleanupExpiredBuckets now l) key = Some b \<Longrightarrow> buckets l key = Some b"
  by (auto simp: cleanupExpiredBuckets_def split: if_splits option.splits)

lemma cleanup_keeps:
  "buckets l key = Some b \<Longrightarrow> now - bucketTTL l \<le> lastRefill b \<Longrightarrow> buckets (cleanupExpiredBuckets now l) key = Some b"
  by (simp add: cleanupExpiredBuckets_def expired_def)

lemma paramsOk_cleanup [simp]: "paramsOk (cleanupExpiredBuckets now l) = paramsOk l"
  by (simp add: paramsOk_def)

lemma limiterInv_cleanup: "limiterInv now l \<Longrightarrow> limiterInv now (cleanupExpiredBuckets now l)"
  unfolding limiterInv_def by (auto dest: cleanup_bucket)

lemma limiterInv_later: "limiterInv now l \<Longrightarrow> now \<le> later \<Longrightarrow> limiterInv later l"
  unfolding limiterInv_def bucketOk_def by (meson order.trans)

lemma subF_one:
  assumes "representable t" and "1 \<le> t" and "t \<le> maxFloat"
  obtains u where "subF (Fin t) (Fin 1) = Fin u" and "representable u" and "0 \<le> u" and "u \<le> t"
proof -
  obtain u where u: "round64 (t - 1) = Fin u" "0 \<le> u" "u \<le> t"
    using round64_between [of "t - 1" t] assms by auto
  moreover have "representable u" using round64_Fin [OF u(1)] assms(2) by simp
  ultimately show ?thesis using that by (simp add: subF_def)
qed

lemma subF_one_exact: "representable t \<Longrightarrow> 1 \<le> t \<Longrightarrow> t \<le> 2 ^ 53 \<Longrightarrow> subF (Fin t) (Fin 1) = Fin (t - 1)"
proof -
  assume t: "representable t" "1 \<le> t" "t \<le> 2 ^ 53"
  have "(2 :: rat) ^ 53 \<le> maxFloat" by (simp add: maxFloat_def)
  then have "t - 1 \<le> maxFloat" using t(3) by linarith
  with representable_minus_one [OF t] t(2) show ?thesis by (simp add: subF_def round64_representable)
qed

text \<open>Refilling stays within the capacity, also when the product or the sum overflows.\<close>

lemma refill_bounded:
  assumes "paramsOk l" and "bucketOk now (capacity l) b"
  shows "\<exists>t. refill now l b = Fin t \<and> representable t \<and> 0 \<le> t \<and> leF (Fin t) (capacity l)"
proof -
  obtain c r where c: "capacity l = Fin c" "representable c" "1 \<le> c" "c \<le> maxFloat" and r: "rate l = Fin r" "0 \<le> r"
    using assms(1) by (auto simp: paramsOk_def)
  obtain t where t: "tokens b = Fin t" "representable t" "0 \<le> t" "t \<le> c" and last: "lastRefill b \<le> now"
    using assms(2) c(1) by (auto simp: bucketOk_def)
  obtain q where q: "Seconds (subTime now (lastRefill b)) = Fin q" "0 \<le> q"
    using Seconds_nonneg subTime_nonneg [OF last] by metis
  have cap: ?thesis if "lessF (capacity l) (addF (tokens b) (mulF (Fin q) (Fin r)))"
    using that q(1) r(1) c by (simp add: refill_def)
  show ?thesis
  proof (cases "round64 (q * r)")
    case (Fin u)
    have u: "0 \<le> u" using round64_Fin [OF Fin] q(2) r(2) by simp
    show ?thesis
    proof (cases "round64 (t + u)")
      case sum: (Fin v)
      have "representable v" "0 \<le> v" using round64_Fin [OF sum] t(3) u by simp_all
      with cap Fin sum q(1) r(1) c(1) t(1) show ?thesis by (cases "c < v") (simp_all add: refill_def)
    next
      case PosInf
      with cap Fin c(1) t(1) show ?thesis by simp
    qed (use round64_nonneg [of "t + u"] t(3) u in auto)
  next
    case PosInf
    with cap c(1) t(1) show ?thesis by simp
  qed (use round64_nonneg [of "q * r"] q(2) r(2) in auto)
qed

lemma limiterInv_update:
  "limiterInv now l \<Longrightarrow> bucketOk now (capacity l) b \<Longrightarrow> limiterInv now (l\<lparr>buckets := (buckets l)(key \<mapsto> b)\<rparr>)"
  by (simp add: limiterInv_def paramsOk_def)

lemma limiterInv_Allow:
  assumes "limiterInv now l0" and "Allow now key l0 = (ok, l')"
  shows "limiterInv now l'"
proof -
  define l where "l = cleanupExpiredBuckets now l0"
  have inv: "limiterInv now l" using limiterInv_cleanup [OF assms(1)] by (simp add: l_def)
  obtain c where c: "capacity l = Fin c" "representable c" "1 \<le> c" "c \<le> maxFloat" using inv by (auto simp: limiterInv_def paramsOk_def)
  have spend: "bucketOk now (capacity l) \<lparr>tokens = subF (Fin t) (Fin 1), lastRefill = now\<rparr>"
    if t: "representable t" "1 \<le> t" "t \<le> c" for t
    using subF_one [of t] t c by (force simp: bucketOk_def)
  show ?thesis
  proof (cases "buckets l key")
    case None
    with assms(2) c spend [of c] limiterInv_update [OF inv] show ?thesis by (auto simp: Allow_def Let_def l_def)
  next
    case (Some b)
    then have "bucketOk now (capacity l) b" using inv by (simp add: limiterInv_def)
    moreover have "paramsOk l" using inv by (simp add: limiterInv_def)
    ultimately obtain t where t: "refill now l b = Fin t" "representable t" "0 \<le> t" "t \<le> c"
      using refill_bounded [of l now b] c(1) by auto
    then have "bucketOk now (capacity l) \<lparr>tokens = Fin t, lastRefill = now\<rparr>" using c(1) by (simp add: bucketOk_def)
    with Some t assms(2) spend [of t] limiterInv_update [OF inv] show ?thesis
      by (auto simp: Allow_def Let_def l_def [symmetric] split: if_splits)
  qed
qed

section \<open>Calls at one instant\<close>

text \<open>What a client may still spend: its tokens, or the capacity when it has no bucket.\<close>

definition allowance :: "int \<Rightarrow> string \<Rightarrow> Limiter \<Rightarrow> rat \<Rightarrow> bool" where
  "allowance now key l t \<longleftrightarrow> representable t \<and> 0 \<le> t \<and> t \<le> 2 ^ 53
     \<and> (case buckets l key of
          None \<Rightarrow> capacity l = Fin t \<and> 1 \<le> t
        | Some b \<Rightarrow> tokens b = Fin t \<and> leF (Fin t) (capacity l) \<and> lastRefill b = now)"

lemma cleanup_now:
  "0 < bucketTTL l \<Longrightarrow> buckets l key = Some b \<Longrightarrow> lastRefill b = now \<Longrightarrow>
   buckets (cleanupExpiredBuckets now l) key = Some b"
  by (rule cleanup_keeps) simp_all

lemma cleanup_None: "buckets l key = None \<Longrightarrow> buckets (cleanupExpiredBuckets now l) key = None"
  by (simp add: cleanupExpiredBuckets_def)

lemma allowance_cleanup: "0 < bucketTTL l \<Longrightarrow> allowance now key l t \<Longrightarrow> allowance now key (cleanupExpiredBuckets now l) t"
  by (auto simp: allowance_def cleanup_None cleanup_now split: option.splits)

lemma refill_now:
  assumes "paramsOk l" and "tokens b = Fin t" and "representable t" and "0 \<le> t" and "t \<le> 2 ^ 53"
    and "leF (Fin t) (capacity l)" and "lastRefill b = now"
  shows "refill now l b = Fin t"
proof -
  have "(2 :: rat) ^ 53 \<le> maxFloat" by (simp add: maxFloat_def)
  then have "round64 t = Fin t" using assms(3-5) by (intro round64_representable) linarith+
  moreover obtain c r where "capacity l = Fin c" "rate l = Fin r" using assms(1) by (auto simp: paramsOk_def)
  ultimately show ?thesis using assms by (simp add: refill_def Let_def subTime_def round64_def [of 0])
qed

lemma paramsOk_frame: "Allow now key l = (ok, l') \<Longrightarrow> paramsOk l \<Longrightarrow> paramsOk l'"
  by (auto simp: Allow_def Let_def paramsOk_def split: option.splits if_splits)

lemma Allow_own:
  assumes "paramsOk l0" and "allowance now key l0 t" and "Allow now key l0 = (ok, l')"
  shows "ok = (1 \<le> t) \<and> allowance now key l' (if 1 \<le> t then t - 1 else t)"
proof -
  define l where "l = cleanupExpiredBuckets now l0"
  have ok: "paramsOk l" using assms(1) by (simp add: l_def)
  have a: "allowance now key l t" using assms(1,2) by (simp add: l_def allowance_cleanup paramsOk_def)
  have t: "representable t" "0 \<le> t" "t \<le> 2 ^ 53" using a by (simp_all add: allowance_def)
  have spend: "subF (Fin t) (Fin 1) = Fin (t - 1)" "representable (t - 1)" if "1 \<le> t"
    using t that subF_one_exact representable_minus_one by simp_all
  show ?thesis
  proof (cases "buckets l key")
    case None
    with a have "capacity l = Fin t" "1 \<le> t" by (simp_all add: allowance_def)
    with None assms(3) spend t show ?thesis by (auto simp: Allow_def Let_def l_def [symmetric] allowance_def)
  next
    case (Some b)
    with a have b: "tokens b = Fin t" "leF (Fin t) (capacity l)" "lastRefill b = now" by (simp_all add: allowance_def)
    with refill_now [OF ok b(1) t b(2,3)] have "refill now l b = Fin t" by simp
    moreover obtain c where "capacity l = Fin c" using ok by (auto simp: paramsOk_def)
    ultimately show ?thesis using Some assms(3) spend t b
      by (auto simp: Allow_def Let_def l_def [symmetric] allowance_def)
  qed
qed

lemma Allow_other:
  assumes "paramsOk l0" and "allowance now key l0 t" and "other \<noteq> key" and "Allow now other l0 = (ok, l')"
  shows "allowance now key l' t"
proof -
  have "allowance now key (cleanupExpiredBuckets now l0) t"
    using assms(1,2) by (intro allowance_cleanup) (simp_all add: paramsOk_def)
  with assms(3,4) show ?thesis by (auto simp: Allow_def Let_def allowance_def split: option.splits if_splits)
qed

definition answersFor :: "string \<Rightarrow> (int \<times> string) list \<Rightarrow> Limiter \<Rightarrow> bool list" where
  "answersFor key calls l = map snd (filter (\<lambda>((now, k), ok). k = key) (zip calls (fst (allowAll calls l))))"

lemma answersFor_Cons:
  "Allow now k l = (ok, l') \<Longrightarrow>
   answersFor key ((now, k) # calls) l = (if k = key then [ok] else []) @ answersFor key calls l'"
  by (simp add: answersFor_def split: prod.split)

lemma answersFor_burst:
  assumes "paramsOk l" and "allowance now key l t" and "\<forall>call \<in> set calls. fst call = now"
  shows "answersFor key calls l =
    (let n = length (filter (\<lambda>call. snd call = key) calls); k = nat \<lfloor>t\<rfloor>
     in replicate (min n k) True @ replicate (n - k) False)"
  using assms
proof (induction calls arbitrary: l t)
  case (Cons call calls)
  obtain k where call: "call = (now, k)" using Cons.prems(3) by (cases call) auto
  obtain ok l' where run: "Allow now k l = (ok, l')" by fastforce
  note IH = Cons.IH [OF paramsOk_frame [OF run Cons.prems(1)]]
  have step: "answersFor key (call # calls) l = (if k = key then [ok] else []) @ answersFor key calls l'"
    by (simp only: call answersFor_Cons [OF run])
  have rest: "\<forall>call \<in> set calls. fst call = now" using Cons.prems(3) by simp
  show ?case
  proof (cases "k = key")
    case False
    with IH [OF Allow_other [OF Cons.prems(1,2) _ run] rest] show ?thesis unfolding step by (simp add: call)
  next
    case True
    have own: "ok = (1 \<le> t)" "allowance now key l' (if 1 \<le> t then t - 1 else t)"
      using Allow_own [OF Cons.prems(1,2)] run True by auto
    have pos: "0 \<le> t" using Cons.prems(2) by (simp add: allowance_def)
    show ?thesis
    proof (cases "1 \<le> t")
      case True
      then have "nat \<lfloor>t\<rfloor> = Suc (nat \<lfloor>t - 1\<rfloor>)" by (simp add: Suc_nat_eq_nat_zadd1)
      with True IH [OF _ rest, of "t - 1"] own \<open>k = key\<close> show ?thesis unfolding step by (simp add: call Let_def)
    next
      case False
      then have "\<lfloor>t\<rfloor> = 0" using pos by (intro floor_unique) simp_all
      with False IH [OF _ rest, of t] own \<open>k = key\<close> show ?thesis unfolding step by (simp add: call Let_def)
    qed
  qed
qed (simp add: answersFor_def)

section \<open>Properties\<close>

lemma allowAll_Cons: "snd (allowAll ((now, key) # calls) l) = snd (allowAll calls (snd (Allow now key l)))"
  by (simp split: prod.split)

lemma Allow_capacity: "capacity (snd (Allow now key l)) = capacity l"
  by (simp add: Allow_def Let_def split: option.split)

lemma allowAll_capacity: "capacity (snd (allowAll calls l)) = capacity l"
  by (induction calls arbitrary: l) (auto simp: allowAll_Cons Allow_capacity simp del: allowAll.simps(2))

lemma limiterInv_allowAll:
  "limiterInv start l \<Longrightarrow> sorted (start # map fst calls) \<Longrightarrow> limiterInv (last (start # map fst calls)) (snd (allowAll calls l))"
proof (induction calls arbitrary: start l)
  case (Cons call calls)
  obtain now k where call: "call = (now, k)" by fastforce
  obtain ok l' where run: "Allow now k l = (ok, l')" by fastforce
  have "limiterInv now l" using Cons.prems call by (intro limiterInv_later [OF Cons.prems(1)]) simp
  then have "limiterInv now l'" using run by (rule limiterInv_Allow)
  from Cons.IH [OF this] Cons.prems show ?case by (simp add: call run allowAll_Cons del: allowAll.simps)
qed simp

text \<open>
  The tokens of a bucket stay between zero and the capacity, in the rounding
  arithmetic of the machine and also when the refill overflows, over every sequence of calls in the order of time.
\<close>

lemma tokens_within_capacity:
  assumes "representable c" and "1 \<le> c" and "c \<le> maxFloat" and "0 \<le> r" and "sorted (start # map fst calls)"
    and "allowAll calls (NewLimiter start (Fin r) (Fin c)) = (answers, l)"
    and "buckets l key = Some b"
  shows "\<exists>t. tokens b = Fin t \<and> 0 \<le> t \<and> t \<le> c"
proof -
  have "limiterInv start (NewLimiter start (Fin r) (Fin c))"
    using assms(1-4) by (simp add: limiterInv_def paramsOk_def NewLimiter_def NewWithTTL_def minutes_def)
  from limiterInv_allowAll [OF this assms(5)] assms(6) have "limiterInv (last (start # map fst calls)) l" by simp
  with assms(7) have ok: "bucketOk (last (start # map fst calls)) (capacity l) b" by (simp add: limiterInv_def)
  have "capacity l = Fin c"
    using allowAll_capacity [of calls "NewLimiter start (Fin r) (Fin c)"] assms(6)
    by (simp add: NewLimiter_def NewWithTTL_def)
  with ok show ?thesis by (auto simp: bucketOk_def)
qed

lemma max_float_large: "(2 :: rat) ^ 53 \<le> maxFloat"
  by (simp add: maxFloat_def)

text \<open>
  C28. Bursts. For every capacity from one call up to 2 to the 53, of the calls of a new client at one instant exactly the first ones up to the whole part of the capacity are
  allowed and all others refused, whatever other clients call in between.
\<close>

theorem burst_allows_exactly_capacity:
  assumes "representable c" and "1 \<le> c" and "c \<le> 2 ^ 53" and "0 \<le> r" and "\<forall>call \<in> set calls. fst call = now"
  shows "answersFor key calls (NewLimiter start (Fin r) (Fin c)) =
    (let n = length (filter (\<lambda>call. snd call = key) calls); k = nat \<lfloor>c\<rfloor>
     in replicate (min n k) True @ replicate (n - k) False)"
proof (rule answersFor_burst [OF _ _ assms(5)])
  have "c \<le> maxFloat" using assms(3) max_float_large by linarith
  with assms show "paramsOk (NewLimiter start (Fin r) (Fin c))"
    by (simp add: paramsOk_def NewLimiter_def NewWithTTL_def minutes_def)
  show "allowance now key (NewLimiter start (Fin r) (Fin c)) c"
    using assms by (simp add: allowance_def NewLimiter_def NewWithTTL_def)
qed

theorem burst_allows_exactly_capacity_witness:
  "answersFor ''a'' [(7, ''a''), (7, ''b''), (7, ''a''), (7, ''a'')] (NewLimiter 0 (Fin 5) (Fin 2)) = [True, True, False]"
  using burst_allows_exactly_capacity [of 2 5 "[(7, ''a''), (7, ''b''), (7, ''a''), (7, ''a'')]" 7 "''a''" 0] representable_int [of 2]
  by (simp add: Let_def numeral_2_eq_2)

text \<open>With a rate that is not a number every call is allowed.\<close>

lemma refill_NaN: "rate l = NaN \<Longrightarrow> refill now l b = NaN"
  by (cases "Seconds (subTime now (lastRefill b))"; cases "tokens b"; cases "capacity l") (simp_all add: refill_def)

lemma Allow_NaN: "rate l = NaN \<Longrightarrow> Allow now key l = (ok, l') \<Longrightarrow> ok \<and> rate l' = NaN"
  by (auto simp: Allow_def Let_def refill_NaN split: option.splits if_splits)

lemma allowAll_NaN:
  assumes "rate l = NaN"
  shows "fst (allowAll calls l) = replicate (length calls) True"
  using assms
proof (induction calls arbitrary: l)
  case (Cons call calls)
  obtain now key where call: "call = (now, key)" by fastforce
  obtain ok l' where run: "Allow now key l = (ok, l')" by fastforce
  from Allow_NaN [OF Cons.prems run] Cons.IH [of l'] show ?case by (auto simp: call run split: prod.splits)
qed simp

end
