(* ===== verification/Go_Steps.thy ===== *)
theory Go_Steps
  imports Main
begin

text \<open>
  Threads as step relations: what the models of the process and of the benchmark share. A system
  drains when, from some point on, each of its steps makes a rank smaller; then every schedule ends.
\<close>

section \<open>Systems that drain\<close>

locale draining =
  fixes move :: "'s \<Rightarrow> 's \<Rightarrow> bool" and active :: "'s \<Rightarrow> bool" and rank :: "'s \<Rightarrow> nat"
  assumes active_move: "active s \<Longrightarrow> move s t \<Longrightarrow> active t"
    and rank_move: "active s \<Longrightarrow> move s t \<Longrightarrow> rank t < rank s"
begin

lemma run_rank: "(move ^^ n) s t \<Longrightarrow> active s \<Longrightarrow> active t \<and> n + rank t \<le> rank s"
proof (induction n arbitrary: t)
  case (Suc n)
  then obtain m where "(move ^^ n) s m" "move m t" by auto
  with Suc active_move rank_move [of m t] show ?case by fastforce
qed simp

lemma run_bounded: "(move ^^ n) s t \<Longrightarrow> active s \<Longrightarrow> n \<le> rank s"
  using run_rank by fastforce

lemma run_active: "move\<^sup>*\<^sup>* s t \<Longrightarrow> active s \<Longrightarrow> active t"
  by (induction rule: rtranclp_induct) (auto intro: active_move)

lemma run_ends: "active s \<Longrightarrow> \<exists>t. move\<^sup>*\<^sup>* s t \<and> (\<nexists>u. move t u)"
proof (induction "rank s" arbitrary: s rule: less_induct)
  case less
  show ?case
  proof (cases "\<exists>u. move s u")
    case True
    then obtain u where "move s u" ..
    with less(1) [OF rank_move [OF less(2)] active_move [OF less(2)]] show ?thesis
      by (meson converse_rtranclp_into_rtranclp)
  qed blast
qed

end

section \<open>Lists of threads\<close>

lemma sum_list_update: "i < length ws \<Longrightarrow> sum_list (map f (ws[i := w])) + f (ws ! i) = sum_list (map f ws) + (f w :: nat)"
proof (induction ws arbitrary: i)
  case (Cons v ws)
  then show ?case by (cases i) auto
qed simp

lemma set_list_updateD: "x \<in> set (xs[i := y]) \<Longrightarrow> x = y \<or> x \<in> set xs"
  using set_update_subset_insert by fastforce

end
