(* ===== verification/Server_Pool.thy ===== *)
theory Server_Pool
  imports Core_Connection Limiter Config Go_Steps "HOL-Library.Multiset"
begin

text \<open>
  The accept loop of \<^verbatim>\<open>cmd/server/main.go\<close> with the worker pool of \<^verbatim>\<open>pool/pool.go\<close>. First the decision about one accepted
  connection as a function; then the threads of the process, the accept loop, the workers, the
  goroutine that closes the listener and the one that stops the pool, as a step relation on the
  state they share. Serving a connection is one step of its worker: \<open>Core_Connection\<close> says what it does.
\<close>

section \<open>One accepted connection\<close>

text \<open>How the select statement of \<open>enqueueJob\<close> ends.\<close>

datatype enqueueResult = Sent | TimerFired | ContextDone

datatype fate = Queued ConnectionOptions | Dropped | Saturated | Limited

definition jobOptions :: "Config \<Rightarrow> ConnectionOptions" where
  "jobOptions cfg = \<lparr>ReadTimeout = cfgReadTimeout cfg, WriteTimeout = cfgWriteTimeout cfg, IdleTimeout = cfgIdleTimeout cfg,
     MaxRequestsPerConnection = MaxKeepAlive cfg, DisableKeepAlive = False\<rparr>"

text \<open>\<open>remoteIP\<close>: the host of the address, or the whole address if it cannot be split.\<close>

definition remoteIP :: "(string \<Rightarrow> (string \<times> string) option) \<Rightarrow> string \<Rightarrow> string" where
  "remoteIP splitHostPort addr = (case splitHostPort addr of None \<Rightarrow> addr | Some (host, port) \<Rightarrow> host)"

definition refuseConnection ::
    "string \<Rightarrow> Config \<Rightarrow> StatusCode \<Rightarrow> string \<Rightarrow> (Metrics option \<Rightarrow> Metrics option) \<Rightarrow> world \<Rightarrow> world" where
  "refuseConnection date cfg status message tally s =
    (let s1 = s\<lparr>metrics := tally (metrics s), events := events s @ [HandlerLog message]\<rparr>;
         (e, w, s2) = WriteText date status []
           (NewResponseWriterWithOptions True ''HTTP/1.1'' (noOptions\<lparr>optWriteTimeout := cfgWriteTimeout cfg, optMetrics := True\<rparr>), s1);
         s3 = (if e = None then s2 else s2\<lparr>events := events s2 @ [HandlerLog ''Write error:'']\<rparr>)
     in s3\<lparr>closed := True\<rparr>)"

text \<open>\<open>writeResponseAndClose\<close>, which no other function calls: a bare response without deadline or metrics.\<close>

definition httpStatusText :: "int \<Rightarrow> string" where
  "httpStatusText code = (if code = 429 then ''Too Many Requests'' else if code = 503 then ''Service Unavailable'' else ''OK'')"

definition writeResponseAndClose :: "int \<Rightarrow> string \<Rightarrow> world \<Rightarrow> writeError option \<times> world" where
  "writeResponseAndClose code body s =
    (let response = ''HTTP/1.1 '' @ Itoa code @ [sp] @ httpStatusText code @ [cr, lf] @ ''Content-Type: text/plain'' @ [cr, lf]
           @ ''Content-Length: '' @ Itoa (int (length body)) @ [cr, lf] @ [cr, lf] @ body;
         (a, plan) = nextAttempt (attempts s); s1 = s\<lparr>attempts := plan, closed := True\<rparr>
     in case writeFails a of
          Some n \<Rightarrow> (Some WriteError, s1\<lparr>sent := sent s @ take n response\<rparr>)
        | None \<Rightarrow> (None, s1\<lparr>sent := sent s @ response\<rparr>))"

definition admit :: "Config \<Rightarrow> int \<Rightarrow> string \<Rightarrow> Limiter \<Rightarrow> bool \<times> Limiter" where
  "admit cfg now ip l = (if cfgRateLimitEnabled cfg then Allow now ip l else (True, l))"

definition enqueueJob :: "enqueueResult \<Rightarrow> world \<Rightarrow> bool \<times> world" where
  "enqueueJob result s =
    (case result of Sent \<Rightarrow> (True, s) | TimerFired \<Rightarrow> (False, s) | ContextDone \<Rightarrow> (True, s\<lparr>closed := True\<rparr>))"

definition handleConnection ::
    "string \<Rightarrow> Config \<Rightarrow> int \<Rightarrow> string \<Rightarrow> enqueueResult \<Rightarrow> Limiter \<Rightarrow> world \<Rightarrow> fate \<times> Limiter \<times> world" where
  "handleConnection date cfg now ip result l s =
    (case admit cfg now ip l of
       (True, l') \<Rightarrow>
         (case enqueueJob result s of
            (True, s') \<Rightarrow> (if result = Sent then Queued (jobOptions cfg) else Dropped, l', s')
          | (False, s') \<Rightarrow>
              (Saturated, l', refuseConnection date cfg StatusServiceUnavailable ''Status 503: worker queue saturated'' IncQueueReject s'))
     | (False, l') \<Rightarrow>
         (Limited, l', refuseConnection date cfg StatusTooManyRequests ''Status 429: request blocked by token bucket policy'' IncRateLimited s))"

section \<open>The threads of the process\<close>

text \<open>
  Connections are numbered in the order in which they are accepted. The accept loop is waiting for
  a connection, deciding about one, or blocked in the select of \<open>enqueueJob\<close> with an admitted one; after
  the listener is closed it has returned; then the pool is being stopped, and \<open>run\<close> has returned when all workers ended or the timeout passed.
\<close>

datatype acceptor = Accepting | Deciding nat | Enqueuing nat | ServeReturned | Stopping | Stopped | TimedOut

datatype worker = Idle | Busy nat | Exited

datatype outcome = Served | Closed | Rejected503 | Rejected429

record process =
  accepted :: nat
  acceptor :: acceptor
  jobs :: "nat list"
  jobsClosed :: bool
  workers :: "worker list"
  contextDone :: bool
  listenerClosed :: bool
  limiter :: Limiter
  outcomes :: "(nat \<times> outcome) list"

definition startProcess :: "Config \<Rightarrow> int \<Rightarrow> process" where
  "startProcess cfg now =
    \<lparr>accepted = 0, acceptor = Accepting, jobs = [], jobsClosed = False, workers = replicate (nat (WorkerPoolSize cfg)) Idle,
     contextDone = False, listenerClosed = False, limiter = NewLimiter now (cfgRateLimitRate cfg) (cfgRateLimitCapacity cfg),
     outcomes = []\<rparr>"

definition settle :: "nat \<Rightarrow> outcome \<Rightarrow> process \<Rightarrow> process" where
  "settle c r p = p\<lparr>outcomes := outcomes p @ [(c, r)]\<rparr>"

text \<open>\<open>Stop\<close> closes the channel and waits for the workers.\<close>

definition stopPool :: "process \<Rightarrow> process" where
  "stopPool p = p\<lparr>acceptor := Stopping, jobsClosed := True\<rparr>"

inductive step :: "Config \<Rightarrow> process \<Rightarrow> process \<Rightarrow> bool" for cfg where
  accept: "acceptor p = Accepting \<Longrightarrow> \<not> listenerClosed p \<Longrightarrow>
    step cfg p (p\<lparr>accepted := Suc (accepted p), acceptor := Deciding (accepted p)\<rparr>)"
| acceptError: "acceptor p = Accepting \<Longrightarrow> \<not> listenerClosed p \<Longrightarrow> \<not> contextDone p \<Longrightarrow> step cfg p p"
| acceptReturns: "acceptor p = Accepting \<Longrightarrow> listenerClosed p \<or> contextDone p \<Longrightarrow>
    step cfg p (p\<lparr>acceptor := ServeReturned\<rparr>)"
| admitted: "acceptor p = Deciding c \<Longrightarrow> admit cfg now ip (limiter p) = (True, l) \<Longrightarrow>
    step cfg p (p\<lparr>acceptor := Enqueuing c, limiter := l\<rparr>)"
| limited: "acceptor p = Deciding c \<Longrightarrow> admit cfg now ip (limiter p) = (False, l) \<Longrightarrow>
    step cfg p (settle c Rejected429 (p\<lparr>acceptor := Accepting, limiter := l\<rparr>))"
| send: "acceptor p = Enqueuing c \<Longrightarrow> int (length (jobs p)) < JobQueueSize cfg \<Longrightarrow>
    step cfg p (p\<lparr>acceptor := Accepting, jobs := jobs p @ [c]\<rparr>)"
| handOver: "acceptor p = Enqueuing c \<Longrightarrow> jobs p = [] \<Longrightarrow> i < length (workers p) \<Longrightarrow> workers p ! i = Idle \<Longrightarrow>
    step cfg p (p\<lparr>acceptor := Accepting, workers := (workers p)[i := Busy c]\<rparr>)"
| saturated: "acceptor p = Enqueuing c \<Longrightarrow>
    step cfg p (settle c Rejected503 (p\<lparr>acceptor := Accepting\<rparr>))"
| cancelled: "acceptor p = Enqueuing c \<Longrightarrow> contextDone p \<Longrightarrow>
    step cfg p (settle c Closed (p\<lparr>acceptor := Accepting\<rparr>))"
| signal: "\<not> contextDone p \<Longrightarrow> step cfg p (p\<lparr>contextDone := True\<rparr>)"
| closeListener: "contextDone p \<Longrightarrow> \<not> listenerClosed p \<Longrightarrow> step cfg p (p\<lparr>listenerClosed := True\<rparr>)"
| take_job: "jobs p = c # rest \<Longrightarrow> i < length (workers p) \<Longrightarrow> workers p ! i = Idle \<Longrightarrow>
    step cfg p (p\<lparr>jobs := rest, workers := (workers p)[i := Busy c]\<rparr>)"
| finish_job: "i < length (workers p) \<Longrightarrow> workers p ! i = Busy c \<Longrightarrow>
    step cfg p (settle c Served (p\<lparr>workers := (workers p)[i := Idle]\<rparr>))"
| stop: "acceptor p = ServeReturned \<Longrightarrow> step cfg p (stopPool p)"
| worker_exit: "jobsClosed p \<Longrightarrow> jobs p = [] \<Longrightarrow> i < length (workers p) \<Longrightarrow> workers p ! i = Idle \<Longrightarrow>
    step cfg p (p\<lparr>workers := (workers p)[i := Exited]\<rparr>)"
| all_stopped: "acceptor p = Stopping \<Longrightarrow> list_all (\<lambda>w. w = Exited) (workers p) \<Longrightarrow> step cfg p (p\<lparr>acceptor := Stopped\<rparr>)"
| stop_timeout: "acceptor p = Stopping \<Longrightarrow> step cfg p (p\<lparr>acceptor := TimedOut\<rparr>)"

inductive_cases stepE: "step cfg p p'"

definition reachable :: "Config \<Rightarrow> int \<Rightarrow> process \<Rightarrow> bool" where
  "reachable cfg now p \<longleftrightarrow> (step cfg)\<^sup>*\<^sup>* (startProcess cfg now) p"

section \<open>Where the connections are\<close>

fun held :: "acceptor \<Rightarrow> nat list" where
  "held (Deciding c) = [c]"
| "held (Enqueuing c) = [c]"
| "held _ = []"

fun serving :: "worker \<Rightarrow> nat list" where
  "serving (Busy c) = [c]"
| "serving _ = []"

definition inFlight :: "process \<Rightarrow> nat list" where
  "inFlight p = held (acceptor p) @ jobs p @ concat (map serving (workers p))"

definition everywhere :: "process \<Rightarrow> nat multiset" where
  "everywhere p = mset (inFlight p) + mset (map fst (outcomes p))"

fun beforeStop :: "acceptor \<Rightarrow> bool" where
  "beforeStop Stopping = False"
| "beforeStop Stopped = False"
| "beforeStop TimedOut = False"
| "beforeStop _ = True"

definition processInv :: "Config \<Rightarrow> process \<Rightarrow> bool" where
  "processInv cfg p \<longleftrightarrow>
     everywhere p = mset [0..<accepted p]
     \<and> int (length (jobs p)) \<le> max 0 (JobQueueSize cfg)
     \<and> length (workers p) = nat (WorkerPoolSize cfg)
     \<and> (jobsClosed p \<longleftrightarrow> \<not> beforeStop (acceptor p))
     \<and> (Exited \<in> set (workers p) \<longrightarrow> jobsClosed p \<and> jobs p = [])
     \<and> (acceptor p = Stopped \<longrightarrow> list_all (\<lambda>w. w = Exited) (workers p))"

lemma mset_serving_update:
  "i < length ws \<Longrightarrow>
   mset (concat (map serving (ws[i := w]))) + mset (serving (ws ! i)) = mset (concat (map serving ws)) + mset (serving w)"
proof (induction ws arbitrary: i)
  case (Cons v ws)
  then show ?case by (cases i) (auto simp: union_assoc union_commute union_lcomm)
qed simp

lemma serving_start: "i < length ws \<Longrightarrow> ws ! i = Idle \<Longrightarrow>
  mset (concat (map serving (ws[i := Busy c]))) = add_mset c (mset (concat (map serving ws)))"
  using mset_serving_update [of i ws "Busy c"] by simp

lemma serving_end: "i < length ws \<Longrightarrow> ws ! i = Busy c \<Longrightarrow>
  add_mset c (mset (concat (map serving (ws[i := Idle])))) = mset (concat (map serving ws))"
  using mset_serving_update [of i ws Idle] by simp

lemma serving_exit: "i < length ws \<Longrightarrow> ws ! i = Idle \<Longrightarrow>
  mset (concat (map serving (ws[i := Exited]))) = mset (concat (map serving ws))"
  using mset_serving_update [of i ws Exited] by simp

lemma everywhere_eq:
  "everywhere p = mset (held (acceptor p)) + mset (jobs p) + mset (concat (map serving (workers p))) + mset (map fst (outcomes p))"
  by (simp add: everywhere_def inFlight_def)

lemma everywhere_step:
  "step cfg p p' \<Longrightarrow> everywhere p' + mset [0..<accepted p] = everywhere p + mset [0..<accepted p']"
proof (induction rule: step.induct)
  case (finish_job i p c)
  then show ?case using serving_end [of i "workers p" c] by (simp add: everywhere_eq settle_def)
qed (simp_all add: everywhere_eq settle_def stopPool_def serving_start serving_exit)

lemma processInv_step: "step cfg p p' \<Longrightarrow> processInv cfg p \<Longrightarrow> processInv cfg p'"
proof -
  assume st: "step cfg p p'" and inv: "processInv cfg p"
  have "everywhere p' = mset [0..<accepted p']"
    using everywhere_step [OF st] inv by (simp add: processInv_def union_commute)
  with st inv show ?thesis
    unfolding processInv_def
    by (cases rule: step.cases) (auto simp: settle_def stopPool_def list_all_length dest!: set_list_updateD)
qed

lemma processInv_start: "processInv cfg (startProcess cfg now)"
  by (auto simp: processInv_def startProcess_def everywhere_eq)

lemma reachable_inv: "reachable cfg now p \<Longrightarrow> processInv cfg p"
  unfolding reachable_def by (induction rule: rtranclp_induct) (auto intro: processInv_start processInv_step)

section \<open>Shutting down\<close>

fun acceptorRank :: "acceptor \<Rightarrow> nat" where
  "acceptorRank (Deciding c) = 9"
| "acceptorRank (Enqueuing c) = 8"
| "acceptorRank Accepting = 3"
| "acceptorRank ServeReturned = 2"
| "acceptorRank Stopping = 1"
| "acceptorRank Stopped = 0"
| "acceptorRank TimedOut = 0"

fun workerRank :: "worker \<Rightarrow> nat" where
  "workerRank Idle = 1"
| "workerRank (Busy c) = 2"
| "workerRank Exited = 0"

definition remaining :: "process \<Rightarrow> nat" where
  "remaining p = acceptorRank (acceptor p) + 3 * length (jobs p) + sum_list (map workerRank (workers p))"

definition closing :: "process \<Rightarrow> bool" where
  "closing p \<longleftrightarrow> listenerClosed p \<and> contextDone p"

lemma closing_step: "step cfg p p' \<Longrightarrow> closing p \<Longrightarrow> closing p' \<and> remaining p' < remaining p"
proof (induction rule: step.induct)
  case (handOver p c i)
  then show ?case using sum_list_update [of i "workers p" workerRank "Busy c"] by (simp add: closing_def remaining_def)
next
  case (take_job p c rest i)
  then show ?case using sum_list_update [of i "workers p" workerRank "Busy c"] by (simp add: closing_def remaining_def)
next
  case (finish_job i p c)
  then show ?case using sum_list_update [of i "workers p" workerRank Idle] by (simp add: closing_def remaining_def settle_def stopPool_def)
next
  case (worker_exit p i)
  then show ?case using sum_list_update [of i "workers p" workerRank Exited] by (simp add: closing_def remaining_def)
qed (auto simp: closing_def remaining_def settle_def stopPool_def)

interpretation shutdown: draining "step cfg" closing remaining for cfg
  by unfold_locales (auto dest: closing_step)

lemma listener_context: "reachable cfg now p \<Longrightarrow> listenerClosed p \<Longrightarrow> contextDone p"
  unfolding reachable_def
proof (induction rule: rtranclp_induct)
  case (step p q)
  from step(2,3,4) show ?case by (cases rule: step.cases) (auto simp: settle_def stopPool_def)
qed (simp add: startProcess_def)

text \<open>A process that cannot step has returned and, with a worker at all, nothing is left.\<close>

lemma stuck_returned:
  assumes "closing p" and "\<And>q. \<not> step cfg p q"
  shows "acceptor p = Stopped \<or> acceptor p = TimedOut"
proof (cases "acceptor p")
  case (Deciding c)
  obtain ok l where "admit cfg 0 [] (limiter p) = (ok, l)" by fastforce
  with Deciding assms(2) step.admitted [of p c cfg 0 "[]" l] step.limited [of p c cfg 0 "[]" l] show ?thesis by (cases ok) auto
next
  case (Enqueuing c)
  with assms(2) step.saturated show ?thesis by blast
qed (use assms step.acceptReturns [of p cfg] step.stop [of p cfg] step.stop_timeout [of p cfg] in \<open>auto simp: closing_def\<close>)

lemma stuck_drained:
  assumes "processInv cfg p" and "closing p" and "\<And>q. \<not> step cfg p q" and "0 < WorkerPoolSize cfg"
  shows "inFlight p = []"
proof -
  have end': "acceptor p = Stopped \<or> acceptor p = TimedOut" using stuck_returned assms(2,3) by blast
  then have closed: "jobsClosed p" using assms(1) by (auto simp: processInv_def)
  have len: "0 < length (workers p)" using assms(1,4) by (simp add: processInv_def)
  have busy: "workers p ! i \<noteq> Busy c" if "i < length (workers p)" for i c using assms(3) step.finish_job that by blast
  have jobs: "jobs p = []"
  proof (rule ccontr)
    assume "jobs p \<noteq> []"
    then obtain c rest where "jobs p = c # rest" by (cases "jobs p") auto
    then have "workers p ! 0 \<noteq> Idle" using assms(3) step.take_job len by blast
    with busy [OF len] have "workers p ! 0 = Exited" by (cases "workers p ! 0") auto
    with len have "Exited \<in> set (workers p)" by (metis nth_mem)
    with assms(1) \<open>jobs p \<noteq> []\<close> show False by (simp add: processInv_def)
  qed
  have "serving w = []" if "w \<in> set (workers p)" for w
  proof -
    obtain i where "i < length (workers p)" "workers p ! i = w" using \<open>w \<in> set (workers p)\<close> by (auto simp: in_set_conv_nth)
    with busy show ?thesis by (cases w) auto
  qed
  with end' jobs show ?thesis by (auto simp: inFlight_def)
qed

text \<open>When \<open>run\<close> returns without the timeout, all accepted connections are settled.\<close>

lemma stopped_settled:
  assumes inv: "processInv cfg p" and st: "acceptor p = Stopped" and workers: "0 < WorkerPoolSize cfg"
  shows "mset (map fst (outcomes p)) = mset [0..<accepted p]"
proof -
  have exited: "list_all (\<lambda>w. w = Exited) (workers p)" "length (workers p) = nat (WorkerPoolSize cfg)"
    using inv st by (simp_all add: processInv_def)
  then have "Exited \<in> set (workers p)" using workers by (cases "workers p") auto
  then have "jobs p = []" using inv by (simp add: processInv_def)
  moreover have "concat (map serving (workers p)) = []" using exited(1) by (auto simp: list_all_iff)
  ultimately have "inFlight p = []" using st by (simp add: inFlight_def)
  with inv show ?thesis by (simp add: processInv_def everywhere_def)
qed

lemma Load_workers: "0 < WorkerPoolSize (Load lower env)"
  using envInt_positive [of defaultWorkerPoolSize env] by (simp add: Load_def defaultWorkerPoolSize_def)

section \<open>Properties\<close>

text \<open>
  C9. No connection is lost or handled twice. In every state that the threads of the process can reach, in
  whatever order they run, each accepted connection is at exactly one place: with the accept loop, in
  the queue, with one worker, or settled with one outcome; the queue holds at most the configured number, and the number of workers does not change.
\<close>

theorem connections_accounted_for:
  assumes "reachable cfg now p"
  shows "distinct (inFlight p @ map fst (outcomes p)) \<and> set (inFlight p @ map fst (outcomes p)) = {0..<accepted p}
    \<and> int (length (jobs p)) \<le> max 0 (JobQueueSize cfg) \<and> length (workers p) = nat (WorkerPoolSize cfg)"
proof -
  have inv: "processInv cfg p" using assms by (rule reachable_inv)
  then have "mset (inFlight p @ map fst (outcomes p)) = mset [0..<accepted p]" by (simp add: processInv_def everywhere_def)
  then have "distinct (inFlight p @ map fst (outcomes p))" "set (inFlight p @ map fst (outcomes p)) = {0..<accepted p}"
    by (metis distinct_upt mset_eq_imp_distinct_iff, metis atLeastLessThan_upt mset_eq_setD)
  with inv show ?thesis by (simp add: processInv_def)
qed

theorem connections_accounted_for_witness:
  "distinct (inFlight ((startProcess (Load id (\<lambda>_. [])) 0)\<lparr>accepted := 1, acceptor := Deciding 0\<rparr>) @
     map fst (outcomes ((startProcess (Load id (\<lambda>_. [])) 0)\<lparr>accepted := 1, acceptor := Deciding 0\<rparr>)))"
proof -
  have "step (Load id (\<lambda>_. [])) (startProcess (Load id (\<lambda>_. [])) 0)
      ((startProcess (Load id (\<lambda>_. [])) 0)\<lparr>accepted := 1, acceptor := Deciding 0\<rparr>)"
    using step.accept [of "startProcess (Load id (\<lambda>_. [])) 0" "Load id (\<lambda>_. [])"] by (simp add: startProcess_def)
  then have "reachable (Load id (\<lambda>_. [])) 0 ((startProcess (Load id (\<lambda>_. [])) 0)\<lparr>accepted := 1, acceptor := Deciding 0\<rparr>)"
    by (simp add: reachable_def)
  from connections_accounted_for [OF this] show ?thesis by blast
qed

text \<open>
  C14. Shutdown. From the moment the listener is closed every run of the threads ends after a
  bounded number of steps, under every schedule. When no step is left, \<open>run\<close> has returned, and
  nothing is in flight: each accepted connection was served, closed or refused, exactly once. A run
  that returned without the timeout has settled all connections when it returns.
\<close>

theorem shutdown_drains:
  assumes "reachable (Load lower env) now p" and "listenerClosed p"
    and "(step (Load lower env))\<^sup>*\<^sup>* p q"
  shows "(\<forall>n q'. (step (Load lower env) ^^ n) p q' \<longrightarrow> n \<le> remaining p)
    \<and> ((\<nexists>q'. step (Load lower env) q q') \<longrightarrow> (acceptor q = Stopped \<or> acceptor q = TimedOut) \<and> inFlight q = [])
    \<and> (acceptor q = Stopped \<longrightarrow> mset (map fst (outcomes q)) = mset [0..<accepted q])"
proof -
  let ?cfg = "Load lower env"
  note workers = Load_workers [of lower env]
  have start: "closing p" using listener_context [OF assms(1,2)] assms(2) by (simp add: closing_def)
  note bound = shutdown.run_bounded [OF _ start] and q = shutdown.run_active [OF assms(3) start]
  have "reachable ?cfg now q" using assms(1,3) unfolding reachable_def by (rule rtranclp_trans)
  then have inv: "processInv ?cfg q" by (rule reachable_inv)
  note settled = stopped_settled [OF inv _ workers]
  from bound stuck_returned [OF q] stuck_drained [OF inv q _ workers] settled show ?thesis by auto
qed

definition cancelledProcess :: process where
  "cancelledProcess = (startProcess (Load id (\<lambda>_. [])) 0)\<lparr>contextDone := True, listenerClosed := True\<rparr>"

lemma cancelledProcess_reachable: "reachable (Load id (\<lambda>_. [])) 0 cancelledProcess"
proof -
  let ?p = "startProcess (Load id (\<lambda>_. [])) 0"
  have "step (Load id (\<lambda>_. [])) ?p (?p\<lparr>contextDone := True\<rparr>)" by (rule step.signal) (simp add: startProcess_def)
  moreover have "step (Load id (\<lambda>_. [])) (?p\<lparr>contextDone := True\<rparr>) (?p\<lparr>contextDone := True, listenerClosed := True\<rparr>)"
    using step.closeListener [of "?p\<lparr>contextDone := True\<rparr>"] by (simp add: startProcess_def)
  ultimately show ?thesis unfolding reachable_def cancelledProcess_def by (meson rtranclp.rtrancl_into_rtrancl rtranclp.rtrancl_refl)
qed

theorem shutdown_drains_witness:
  "\<nexists>q. (step (Load id (\<lambda>_. [])) ^^ Suc (remaining cancelledProcess)) cancelledProcess q"
  using shutdown_drains [OF cancelledProcess_reachable _ rtranclp.rtrancl_refl] by (fastforce simp: cancelledProcess_def)

end
