(* ===== verification/Server_Properties.thy ===== *)
theory Server_Properties
  imports Server_Routes Server_Pool Core_Properties
begin

text \<open>
  What the routes of the server promise: which files leave the machine, what the path checks mean, and that every
  request of a kept connection is answered.
\<close>

section \<open>Static files\<close>

text \<open>
  C27. The path checks are exact. For absolute paths \<open>isWithinRoot\<close> holds exactly if the components of
  the root are the first components of the target, so a sibling with a longer name is outside;
  and a path that \<open>isSafeStaticPath\<close> accepts stays below the root when it is joined to it.
\<close>

theorem path_checks_exact:
  assumes "IsAbs rootDir" and "IsAbs dest"
  shows "(isWithinRoot rootDir dest \<longleftrightarrow> prefix (components rootDir) (components dest))
    \<and> (isSafeStaticPath p \<longrightarrow> isWithinRoot rootDir (JoinPath rootDir p))"
proof -
  have "isWithinRoot rootDir (JoinPath rootDir p)" if "isSafeStaticPath p"
    using isSafe_no_climb [OF that] components_JoinPath [OF assms(1)]
    by (simp add: isWithinRoot_components [OF assms(1) JoinPath_abs [OF assms(1)]])
  with isWithinRoot_components [OF assms] show ?thesis by blast
qed

theorem path_checks_exact_witness:
  "\<not> isWithinRoot ''/srv/pub'' ''/srv/public/a'' \<and> isWithinRoot ''/srv/pub'' (JoinPath ''/srv/pub'' ''a/../b//c'')"
proof -
  have "IsAbs ''/srv/pub''" "IsAbs ''/srv/public/a''" "isSafeStaticPath ''a/../b//c''"
    "\<not> prefix (components ''/srv/pub'') (components ''/srv/public/a'')" by code_simp+
  with path_checks_exact show ?thesis by blast
qed

text \<open>
  C8. Only files below the root are sent. If the handler answers 200, the body is the content of one regular file, and this file lies physically
  below the resolved root: its location begins with the location of the root, and everything on the way to it is a directory and no
  link. So whatever the request says and whatever links there are below the root, no dot segments, escapes or links lead out. The
  file system is the same while the request is served; the root was resolved in the one of the start.
\<close>

theorem static_serves_only_below_root:
  assumes "resolveStaticRoot fs0 rootDir = Inr absRoot"
    and "ready (w, s)" and "secureStaticHandler fs0 rootDir fs date req (w, s) = (w', s')" and "statusCode w' = 200"
  shows "\<exists>location body contentType. prefix (components absRoot) location
    \<and> (\<forall>parent. strict_prefix parent location \<and> parent \<noteq> [] \<longrightarrow> lstat fs parent = Inr Directory)
    \<and> lstat fs location = Inr (RegularFile (Inr body))
    \<and> sent s' = sent s @ responseHead w date StatusOK contentType (length body) @ body"
proof -
  obtain ks body contentType where ks: "linkFree fs ks" "named ks" "prefix (components absRoot) ks" "readFile fs (pathOf ks) = Inr body"
      and out: "sent s' = sent s @ responseHead w date StatusOK contentType (length body) @ body"
    using sends_static [OF assms(1), of fs date "(w, s)" req] assms(2-4) by (auto simp: sendsFileOf_def belowRoot_def)
  have at: "ks \<noteq> []" "lstat fs ks = Inr (RegularFile (Inr body))" using readFile_pathOf [OF ks(1,2,4)] by auto
  have "lstat fs js = Inr Directory" if "strict_prefix js ks" "js \<noteq> []" for js
  proof -
    have "prefix js (butlast ks)" using that(1) at(1) by (cases ks rule: rev_cases) (auto simp: strict_prefix_def)
    with ks(1) that(2) show ?thesis by (auto simp: linkFree_def directories_def)
  qed
  with ks(3) at(2) out show ?thesis by blast
qed

text \<open>A directory with a file and two links, one to the file and one out of the directory.\<close>

definition exampleFs :: filesystem where
  "exampleFs =
    \<lparr>lstat = (\<lambda>ks. if ks = [''srv''] \<or> ks = [''srv'', ''public''] then Inr Directory
                   else if ks = [''srv'', ''public'', ''a.txt''] then Inr (RegularFile (Inr ''hello''))
                   else if ks = [''srv'', ''public'', ''latest''] then Inr (Symlink (Inr ''/srv//public/a.txt''))
                   else if ks = [''srv'', ''public'', ''out''] then Inr (Symlink (Inr ''../secret''))
                   else if ks = [''srv'', ''secret''] then Inr (RegularFile (Inr ''key''))
                   else Inl NotExist),
     workingDir = Inr ''/srv'', typeByExtension = (\<lambda>e. if e = ''.txt'' then ''text/plain'' else [])\<rparr>"

definition staticRequest :: "string \<Rightarrow> Request" where
  "staticRequest path = exampleRequest\<lparr>rMethod := ''GET'', rPath := ''/static/'' @ path\<rparr>"

theorem static_serves_only_below_root_witness:
  "(\<exists>location body contentType. prefix [''srv'', ''public''] location \<and> lstat exampleFs location = Inr (RegularFile (Inr body))
     \<and> sent (snd (secureStaticHandler exampleFs ''public'' exampleFs ''now'' (staticRequest ''x/%2e%2e/latest'') (NewResponseWriter True [], freshWorld)))
      = responseHead (NewResponseWriter True []) ''now'' StatusOK contentType (length body) @ body)
   \<and> statusCode (fst (secureStaticHandler exampleFs ''public'' exampleFs ''now'' (staticRequest ''out'') (NewResponseWriter True [], freshWorld))) = 403"
proof -
  let ?ws = "(NewResponseWriter True [], freshWorld)"
  have "resolveStaticRoot exampleFs ''public'' = Inr ''/srv/public''" by code_simp
  moreover have "ready ?ws" by code_simp
  moreover have "statusCode (fst (secureStaticHandler exampleFs ''public'' exampleFs ''now'' (staticRequest ''x/%2e%2e/latest'') ?ws)) = 200" by code_simp
  moreover have "sent freshWorld = []" "components ''/srv/public'' = [''srv'', ''public'']" by code_simp+
  moreover have "statusCode (fst (secureStaticHandler exampleFs ''public'' exampleFs ''now'' (staticRequest ''out'') ?ws)) = 403" by code_simp
  ultimately show ?thesis using static_serves_only_below_root [OF _ _ surjective_pairing] by fastforce
qed

section \<open>Every request is answered\<close>

text \<open>The bytes a router sends for a request: one complete response.\<close>

definition responseOf :: "environment \<Rightarrow> ConnectionOptions \<Rightarrow> Router \<Rightarrow> nat \<Rightarrow> Request \<Rightarrow> string \<Rightarrow> bool" where
  "responseOf env options router served req out \<longleftrightarrow>
     (\<exists>alive s1 w2 s2 date status contentType body.
        ServeHTTP router (dateAt env served) req (requestWriter options served req alive, s1) = (w2, s2)
        \<and> sent s2 = sent s1 @ out \<and> statusCode w2 = Code status
        \<and> out = responseHead (requestWriter options served req alive) date status contentType (length body) @ body)"

fun oneEach :: "environment \<Rightarrow> ConnectionOptions \<Rightarrow> Router \<Rightarrow> nat \<Rightarrow> Request list \<Rightarrow> string list \<Rightarrow> bool" where
  "oneEach env options router served [] outs \<longleftrightarrow> outs = []"
| "oneEach env options router served (req # reqs) outs \<longleftrightarrow>
     (\<exists>out rest. outs = out # rest \<and> responseOf env options router served req out \<and> oneEach env options router (Suc served) reqs rest)"

lemma sendsOnly_attempts: "acts ws ws' \<Longrightarrow> attempts (snd ws) = [] \<Longrightarrow> attempts (snd ws') = []"
  using sendsOnly_acts by (auto simp: sendsOnly_def)

lemma serveRequest_answers:
  assumes "responsive_router router" and "attempts s = []"
    and "serveRequest env options router served req s = (go_on, s')"
  shows "go_on = shouldKeepAlive (lowerTable env) req options (MaxRequestsPerConnection options - int served - 1)
    \<and> attempts s' = [] \<and> (\<exists>out. sent s' = sent s @ out \<and> responseOf env options router served req out)"
proof -
  define alive where "alive = shouldKeepAlive (lowerTable env) req options (MaxRequestsPerConnection options - int served - 1)"
  define s1 where "s1 = s\<lparr>events := events s @ [RequestEvent (Method req) (Path req) (Version req) alive]\<rparr>"
  let ?w = "requestWriter options served req alive"
  obtain w2 s2 where run: "ServeHTTP router (dateAt env served) req (?w, s1) = (w2, s2)" by fastforce
  have resp: "responds (?w, s1) (w2, s2)" using responsive_router.ServeHTTP_responds [OF assms(1)] run by metis
  have ready: "ready (?w, s1)" using assms(2) by (simp add: ready_def s1_def)
  with resp have w: "wrote w2" by (simp add: responds_def)
  have acts: "acts (?w, s1) (w2, s2)" using resp by (rule responds_acts)
  then obtain date status contentType body where "delivered (?w, s1) (w2, s2) date status contentType body"
    using acts_once [OF acts] ready w by (auto simp: ready_def silent_def)
  then have "statusCode w2 = Code status" and out: "sent s2 = sent s1 @ responseHead ?w date status contentType (length body) @ body"
    by (simp_all add: delivered_def)
  then have "responseOf env options router served req (responseHead ?w date status contentType (length body) @ body)"
    using run unfolding responseOf_def by blast
  moreover have "sent s2 = sent s @ responseHead ?w date status contentType (length body) @ body" using out by (simp add: s1_def)
  moreover have "attempts s2 = []" using sendsOnly_attempts [OF acts] assms(2) by (simp add: s1_def)
  moreover have "go_on = alive \<and> sent s' = sent s2 \<and> attempts s' = attempts s2"
    using assms(3) run w by (auto simp: serveRequest_def Let_def alive_def [symmetric] s1_def [symmetric] Wrote_def logAccessEvent_def)
  ultimately show ?thesis by (auto simp: alive_def)
qed

lemma serveAll_answers:
  assumes "responsive_router router" and "\<And>i. deadlineOk env i"
  shows "attempts s = [] \<Longrightarrow> int (served + length reqs) \<le> MaxRequestsPerConnection options \<Longrightarrow>
    list_all (\<lambda>req. shouldKeepAlive (lowerTable env) req options 1) reqs \<Longrightarrow> 0 < served \<or> reqs \<noteq> [] \<Longrightarrow>
    \<exists>outs. sent (serveAll env options router served reqs s) = sent s @ concat outs \<and> oneEach env options router served reqs outs"
proof (induction reqs arbitrary: served s)
  case Nil
  then show ?case using assms(2) by (simp add: rejectRequest_def isEOF_def)
next
  case (Cons req reqs)
  let ?s1 = "s\<lparr>metrics := IncRequest (metrics s)\<rparr>"
  obtain go_on s2 where run: "serveRequest env options router served req ?s1 = (go_on, s2)" by fastforce
  obtain out where go: "go_on = shouldKeepAlive (lowerTable env) req options (MaxRequestsPerConnection options - int served - 1)"
    and s2: "attempts s2 = []" "sent s2 = sent s @ out" "responseOf env options router served req out"
    using serveRequest_answers [OF assms(1) _ run] Cons.prems(1) by auto
  have step: "serveAll env options router served (req # reqs) s = (if go_on then serveAll env options router (Suc served) reqs s2 else s2)"
    using assms(2) run by simp
  show ?case
  proof (cases go_on)
    case True
    with Cons.IH [of s2 "Suc served"] Cons.prems s2(1) obtain outs where
      "sent (serveAll env options router (Suc served) reqs s2) = sent s2 @ concat outs" "oneEach env options router (Suc served) reqs outs"
      by auto
    with True step s2 show ?thesis by (intro exI [of _ "out # outs"]) simp
  next
    case False
    then have "reqs = []" using go Cons.prems(2,3) by (cases reqs) (auto simp: shouldKeepAlive_def)
    with False step s2 show ?thesis by (intro exI [of _ "[out]"]) simp
  qed
qed

text \<open>
  C7. Every pipelined request is answered. On a connection whose writes succeed, a client that sends requests the parser accepts
  without asking to close, at most as many as a connection may serve, and then ends its side gets
  from the routes of the server exactly one complete response for each of them, in the order of the requests and nothing else; then
  the connection is closed.
\<close>

theorem server_answers_every_request:
  assumes "list_all (acceptable (defaultWAF env)) ms" and "ms \<noteq> []"
    and "int (length ms) \<le> MaxRequestsPerConnection (effectiveOptions options)"
    and "list_all (\<lambda>m. shouldKeepAlive (lowerTable env) (messageRequest m) (effectiveOptions options) 1) ms"
    and "\<And>i. deadlineOk env i" and "attempts s = []"
    and "clean r" and "final r = EOF" and "pending r = concat (map messageText ms)"
    and "buildRouterWithMetrics st staticDir = Some router"
    and "HandleConnectionWithOptions env options (Some router) r s = (r', s')"
  shows "world.closed s' \<and> (\<exists>outs. sent s' = sent s @ concat outs
    \<and> oneEach env (effectiveOptions options) router 0 (map messageRequest ms) outs)"
proof -
  have "router = serverRouter st staticDir" using assms(10) by (simp add: buildRouter_eq)
  then have resp: "responsive_router router" using server.responsive_router_axioms by simp
  have s': "s' = hungUp (serveAll env (effectiveOptions options) router 0 (map messageRequest ms) (opened s))"
    using HandleConnection_loop [of env options "Some router" r s] assms(11)
      connLoop_serveAll [OF list_all2_messages [OF assms(1)] assms(7-9)] by simp
  have "list_all (\<lambda>req. shouldKeepAlive (lowerTable env) req (effectiveOptions options) 1) (map messageRequest ms)"
    using assms(4) by (simp add: list.pred_map o_def)
  from serveAll_answers [OF resp assms(5) _ _ this, of "opened s" 0] assms(2,3,6) show ?thesis unfolding s' by simp
qed

definition exampleState :: serverState where
  "exampleState = \<lparr>fsAtStart = exampleFs, fsNow = exampleFs, config = Load id (\<lambda>_. []), logStore = defaultLogStore,
     jobQueue = None, generatedAt = [], uptime = 0,
     figures = \<lparr>goroutines = 1, memAlloc = 0, memSys = 0, memHeapIdle = 0, memHeapInuse = 0, memLastGC = 0, memNumGC = 0\<rparr>,
     marshal = (\<lambda>_. None)\<rparr>"

theorem server_answers_every_request_witness:
  "\<exists>outs. sent (snd (HandleConnectionWithOptions exampleEnv defaultOptions (Some (serverRouter exampleState ''public''))
       (connection [exampleText, take 5 exampleText, drop 5 exampleText]) freshWorld)) = concat outs
     \<and> oneEach exampleEnv (effectiveOptions defaultOptions) (serverRouter exampleState ''public'') 0
         [messageRequest exampleMessage, messageRequest exampleMessage] outs"
proof -
  let ?r = "connection [exampleText, take 5 exampleText, drop 5 exampleText]"
  have "messageText exampleMessage = exampleText" by (simp add: messageText_def exampleMessage_def exampleText_def)
  then have p: "pending ?r = concat (map messageText [exampleMessage, exampleMessage])" by simp
  have alive: "shouldKeepAlive (lowerTable exampleEnv) (messageRequest exampleMessage) (effectiveOptions defaultOptions) 1" by code_simp
  have most: "int (length [exampleMessage, exampleMessage]) \<le> MaxRequestsPerConnection (effectiveOptions defaultOptions)" by code_simp
  have "deadlineOk exampleEnv i" for i by (simp add: exampleEnv_def)
  moreover have "attempts freshWorld = []" "sent freshWorld = []" by (simp_all add: freshWorld_def)
  ultimately show ?thesis
    using server_answers_every_request [OF _ _ most _ _ _ _ _ p buildRouter_eq surjective_pairing] exampleMessage_acceptable alive
    by fastforce
qed

section \<open>Refused connections\<close>

definition refusalWriter :: "Config \<Rightarrow> ResponseWriter" where
  "refusalWriter cfg = NewResponseWriterWithOptions True ''HTTP/1.1'' (noOptions\<lparr>optWriteTimeout := cfgWriteTimeout cfg, optMetrics := True\<rparr>)"

lemma refuseConnection_answers:
  assumes "attempts s = []" and "StatusBody status \<noteq> []"
  shows "refuseConnection date cfg status message tally s =
    s\<lparr>sent := sent s @ plainResponse (refusalWriter cfg) date status, metrics := RecordResponse (Code status) (tally (metrics s)),
      events := events s @ [HandlerLog message], closed := True\<rparr>"
  using assms
  by (simp add: refuseConnection_def Let_def WriteText_def plainResponse_def refusalWriter_def writeResponse_reliable
      NewResponseWriterWithOptions_def)

text \<open>
  C26. Overload. An accepted connection is either queued or dropped unanswered because the server is
  shutting down, or it is refused: by the limiter with one response 429, by a full queue with one response 503, each complete, announcing
  the close, followed by it, and counted exactly once under its cause and its class.
\<close>

theorem refused_connection_answered:
  assumes "attempts s = []" and "metrics s = Some m"
    and "handleConnection date cfg now ip result l s = (f, l', s')"
  shows "case f of
      Queued options \<Rightarrow> options = jobOptions cfg \<and> s' = s
    | Dropped \<Rightarrow> s' = s\<lparr>closed := True\<rparr>
    | Limited \<Rightarrow> world.closed s' \<and> sent s' = sent s @ plainResponse (refusalWriter cfg) date StatusTooManyRequests
        \<and> metrics s' = Some (m\<lparr>rateLimited := rateLimited m + 1, responses4xx := responses4xx m + 1\<rparr>)
    | Saturated \<Rightarrow> world.closed s' \<and> sent s' = sent s @ plainResponse (refusalWriter cfg) date StatusServiceUnavailable
        \<and> metrics s' = Some (m\<lparr>queueRejects := queueRejects m + 1, responses5xx := responses5xx m + 1\<rparr>)"
  using assms(2,3)
  by (auto simp: handleConnection_def enqueueJob_def refuseConnection_answers [OF assms(1)] StatusTooManyRequests_def
      StatusServiceUnavailable_def IncRateLimited_def IncQueueReject_def RecordResponse_def
      split: prod.splits bool.splits enqueueResult.splits)

theorem refused_connection_answered_witness:
  "sent (snd (snd (handleConnection ''now'' (Load id (\<lambda>_. [])) 0 ''1.2.3.4'' TimerFired
      (NewLimiter 0 (Fin 5) (Fin 10)) freshWorld)))
   = plainResponse (refusalWriter (Load id (\<lambda>_. []))) ''now'' StatusServiceUnavailable"
proof -
  let ?r = "handleConnection ''now'' (Load id (\<lambda>_. [])) 0 ''1.2.3.4'' TimerFired (NewLimiter 0 (Fin 5) (Fin 10)) freshWorld"
  have "fst ?r = Saturated"
    by (simp add: handleConnection_def admit_def enqueueJob_def Allow_def Let_def cleanupExpiredBuckets_def NewLimiter_def
        NewWithTTL_def minutes_def subTime_def)
  moreover have "attempts freshWorld = []" "metrics freshWorld = Some NewMetrics" "sent freshWorld = []"
    by (simp_all add: freshWorld_def)
  moreover have "?r = (fst ?r, fst (snd ?r), snd (snd ?r))" by simp
  ultimately show ?thesis using refused_connection_answered [of freshWorld NewMetrics] by fastforce
qed

end
