(* ===== verification/Lab_Duration.thy ===== *)
theory Lab_Duration
  imports Config Go_Round
begin

text \<open>
  \<^verbatim>\<open>Duration.String\<close>, with which \<^verbatim>\<open>cmd/lab/main.go\<close> writes durations into its reports, and the proof that \<open>ParseDuration\<close>, with
  which they are read again, is its inverse. Lengths of time are natural numbers of nanoseconds here.
\<close>

section \<open>Duration.String\<close>

text \<open>The digits of a fraction of \<open>prec\<close> places, without trailing zeros, in front of \<open>acc\<close>; the second result is the whole part.\<close>

fun fmtFracLoop :: "nat \<Rightarrow> bool \<Rightarrow> string \<Rightarrow> nat \<Rightarrow> bool \<times> string \<times> nat" where
  "fmtFracLoop 0 shown acc v = (shown, acc, v)"
| "fmtFracLoop (Suc prec) shown acc v =
    (let digit = v mod 10; shown' = (shown \<or> digit \<noteq> 0)
     in fmtFracLoop prec shown' (if shown' then char_of (48 + digit) # acc else acc) (v div 10))"

definition fmtFrac :: "nat \<Rightarrow> nat \<Rightarrow> string \<Rightarrow> string \<times> nat" where
  "fmtFrac prec v acc = (let (shown, s, u) = fmtFracLoop prec False acc v in (if shown then CHR ''.'' # s else s, u))"

definition fmtInt :: "nat \<Rightarrow> string \<Rightarrow> string" where
  "fmtInt v acc = digits v @ acc"

definition fmtSubsecond :: "nat \<Rightarrow> string" where
  "fmtSubsecond u =
    (let (prec, name) =
       (if u < 1000 then (0, ''ns'') else if u < 1000000 then (3, [CHR 0xC2, CHR 0xB5, CHR ''s'']) else (6, ''ms''));
         (s, v) = fmtFrac prec u name
     in fmtInt v s)"

definition fmtSeconds :: "nat \<Rightarrow> string" where
  "fmtSeconds u =
    (let (s, v) = fmtFrac 9 u ''s'';
         s = fmtInt (v mod 60) s; v = v div 60
     in if v = 0 then s
        else
         (let s = fmtInt (v mod 60) (CHR ''m'' # s); v = v div 60
          in if v = 0 then s else fmtInt v (CHR ''h'' # s)))"

definition DurationString :: "int \<Rightarrow> string" where
  "DurationString d =
    (let u = nat \<bar>d\<bar>;
         s = (if u = 0 then ''0s'' else if u < 1000000000 then fmtSubsecond u else fmtSeconds u)
     in if d < 0 then CHR ''-'' # s else s)"

section \<open>Reading it back\<close>

lemma isDigit_char: "(d :: nat) < 10 \<Longrightarrow> isDigit (char_of (48 + d))"
  using digit_char by blast

lemma digit_value: "isDigit c \<Longrightarrow> int (the (unhex c)) = int (byteval c) - 48 \<and> 48 \<le> byteval c"
  by (auto simp: unhex_def isDigit_def less_eq_char_def)

text \<open>What the loop puts in front: digits that, filled up with zeros, are the fraction.\<close>

definition fraction :: "nat \<Rightarrow> nat \<Rightarrow> string \<Rightarrow> bool" where
  "fraction prec f ds \<longleftrightarrow> list_all isDigit ds \<and> length ds \<le> prec \<and> decval ds * 10 ^ (prec - length ds) = int f"

lemma fmtFracLoop_shown:
  "\<exists>ds. fmtFracLoop prec True acc v = (True, ds @ acc, v div 10 ^ prec) \<and> list_all isDigit ds \<and> length ds = prec
     \<and> decval ds = int (v mod 10 ^ prec)"
proof (induction prec arbitrary: acc v)
  case (Suc prec)
  let ?c = "char_of (48 + v mod 10) :: char"
  obtain ds where ds: "fmtFracLoop prec True (?c # acc) (v div 10) = (True, ds @ ?c # acc, v div 10 div 10 ^ prec)"
      "list_all isDigit ds" "length ds = prec" "decval ds = int (v div 10 mod 10 ^ prec)" using Suc.IH by blast
  have "decval (ds @ [?c]) = int (v mod 10 ^ Suc prec)"
    using ds(4) digit_char [of "v mod 10"] by (simp add: decval_snoc mod_mult2_eq)
  with ds isDigit_char [of "v mod 10"] show ?case by (intro exI [of _ "ds @ [?c]"]) (simp add: Let_def div_mult2_eq)
qed (simp add: decval_def)

lemma fraction_shift: "fraction prec f ds \<Longrightarrow> fraction (Suc prec) (10 * f) ds"
  by (auto simp: fraction_def Suc_diff_le)

lemma mod_power_Suc: "(v :: nat) mod 10 ^ Suc prec = 10 * (v div 10 mod 10 ^ prec) + v mod 10"
  by (simp add: mod_mult2_eq)

lemma fmtFracLoop_hidden:
  "\<exists>ds. fmtFracLoop prec False acc v = (v mod 10 ^ prec \<noteq> 0, ds @ acc, v div 10 ^ prec) \<and> fraction prec (v mod 10 ^ prec) ds
     \<and> (ds = [] \<longleftrightarrow> v mod 10 ^ prec = 0)"
proof (induction prec arbitrary: acc v)
  case (Suc prec)
  show ?case
  proof (cases "v mod 10 = 0")
    case True
    obtain ds where ds: "fmtFracLoop prec False acc (v div 10) = (v div 10 mod 10 ^ prec \<noteq> 0, ds @ acc, v div 10 div 10 ^ prec)"
      "fraction prec (v div 10 mod 10 ^ prec) ds" "ds = [] \<longleftrightarrow> v div 10 mod 10 ^ prec = 0" using Suc.IH [of acc "v div 10"] by (elim exE conjE)
    have m: "v mod 10 ^ Suc prec = 10 * (v div 10 mod 10 ^ prec)" using True mod_power_Suc [of v prec] by simp
    have "fmtFracLoop (Suc prec) False acc v = (v mod 10 ^ Suc prec \<noteq> 0, ds @ acc, v div 10 ^ Suc prec)"
      unfolding m using ds(1) True by (simp add: div_mult2_eq)
    moreover have "fraction (Suc prec) (v mod 10 ^ Suc prec) ds" unfolding m using ds(2) by (rule fraction_shift)
    moreover have "ds = [] \<longleftrightarrow> v mod 10 ^ Suc prec = 0" unfolding m using ds(3) by simp
    ultimately show ?thesis by (intro exI [of _ ds] conjI)
  next
    case False
    let ?c = "char_of (48 + v mod 10) :: char"
    obtain ds where ds: "fmtFracLoop prec True (?c # acc) (v div 10) = (True, ds @ ?c # acc, v div 10 div 10 ^ prec)"
      "list_all isDigit ds" "length ds = prec" "decval ds = int (v div 10 mod 10 ^ prec)" using fmtFracLoop_shown by blast
    have "decval (ds @ [?c]) = int (v mod 10 ^ Suc prec)"
      using ds(4) digit_char [of "v mod 10"] mod_power_Suc [of v prec] by (simp add: decval_snoc)
    then have "fraction (Suc prec) (v mod 10 ^ Suc prec) (ds @ [?c])"
      using ds(2,3) isDigit_char [of "v mod 10"] by (simp add: fraction_def)
    moreover have "v mod 10 ^ Suc prec \<noteq> 0" using False mod_power_Suc [of v prec] by linarith
    moreover have "fmtFracLoop (Suc prec) False acc v = (True, (ds @ [?c]) @ acc, v div 10 ^ Suc prec)"
      using ds(1) False by (simp add: div_mult2_eq)
    ultimately show ?thesis by (intro exI [of _ "ds @ [?c]"]) simp
  qed
qed (simp add: fraction_def decval_def)

lemma fmtFrac_spec:
  obtains ds where "fmtFrac prec v acc = ((if ds = [] then acc else CHR ''.'' # ds @ acc), v div 10 ^ prec)"
    and "fraction prec (v mod 10 ^ prec) ds" and "ds = [] \<longleftrightarrow> v mod 10 ^ prec = 0"
  using fmtFracLoop_hidden [of prec acc v] by (auto simp: fmtFrac_def)

text \<open>The readers of numbers.\<close>

definition noDigit :: "string \<Rightarrow> bool" where
  "noDigit s \<longleftrightarrow> s = [] \<or> \<not> isDigit (hd s)"

lemma number_step:
  assumes "list_all isDigit (c # ds)" and "0 \<le> x" and "x * 10 ^ length (c # ds) + decval (c # ds) \<le> b"
  defines "y \<equiv> x * 10 + int (the (unhex c))"
  shows "x * 10 ^ length (c # ds) + decval (c # ds) = y * 10 ^ length ds + decval ds" and "0 \<le> y" and "y \<le> b" and "x * 10 \<le> b"
proof -
  have c: "int (the (unhex c)) = int (byteval c) - 48" "0 \<le> int (byteval c) - 48"
    using assms(1) digit_value [of c] by auto
  show eq: "x * 10 ^ length (c # ds) + decval (c # ds) = y * 10 ^ length ds + decval ds"
    by (simp add: decval_Cons c(1) [symmetric] y_def algebra_simps)
  show y: "0 \<le> y" using assms(2) by (simp add: y_def)
  have "0 \<le> decval ds" using assms(1) by (simp add: decval_nonneg)
  moreover have "y * 1 \<le> y * 10 ^ length ds" using y by (intro mult_left_mono) auto
  ultimately show b: "y \<le> b" using assms(3) unfolding eq mult_1_right by (meson add_increasing2 order_trans)
  show "x * 10 \<le> b" using b by (simp add: y_def)
qed

lemma leadingInt_digits:
  assumes "list_all isDigit ds" and "0 \<le> x" and "x * 10 ^ length ds + decval ds \<le> 2 ^ 63" and "noDigit rest"
  shows "leadingInt x (ds @ rest) = Some (x * 10 ^ length ds + decval ds, rest)"
  using assms
proof (induction ds arbitrary: x)
  case Nil
  then show ?case by (cases rest) (simp_all add: decval_def noDigit_def)
next
  case (Cons c ds)
  with number_step [OF Cons.prems(1-3)] Cons.IH [of "x * 10 + int (the (unhex c))"] show ?case by (simp add: Let_def)
qed

lemma leadingFraction_digits:
  assumes "list_all isDigit ds" and "0 \<le> x" and "x * 10 ^ length ds + decval ds \<le> 10 ^ 9" and "noDigit rest"
  shows "leadingFraction x sc False (ds @ rest) = (x * 10 ^ length ds + decval ds, sc * 10 ^ length ds, rest)"
  using assms
proof (induction ds arbitrary: x sc)
  case Nil
  then show ?case by (cases rest) (simp_all add: decval_def noDigit_def)
next
  case (Cons c ds)
  let ?y = "x * 10 + int (the (unhex c))"
  note step = number_step [OF Cons.prems(1-3)]
  with Cons.IH [of ?y "sc * 10"] Cons.prems show ?case by (simp add: Let_def)
qed

text \<open>The fraction is scaled in floating point numbers, exactly, as all numbers are small.\<close>

lemma fraction_small:
  assumes "fraction prec f ds" and "f < 10 ^ prec" and "prec \<le> 9"
  shows "0 \<le> decval ds" and "decval ds \<le> 10 ^ 9" and "int f \<le> 10 ^ 9" and "0 < decval ds \<longleftrightarrow> 0 < f"
proof -
  let ?k = "prec - length ds"
  have f: "decval ds * 10 ^ ?k = int f" using assms(1) by (simp add: fraction_def)
  show d: "0 \<le> decval ds" using assms(1) by (simp add: fraction_def decval_nonneg)
  have "f \<le> 10 ^ 9" using assms(2) power_increasing [OF assms(3), of "10 :: nat"] by simp
  then show f9: "int f \<le> 10 ^ 9" by simp
  have "decval ds * 1 \<le> decval ds * 10 ^ ?k" using d by (intro mult_left_mono) auto
  with f f9 show "decval ds \<le> 10 ^ 9" by simp
  show "0 < decval ds \<longleftrightarrow> 0 < f" using f d by (metis of_nat_0_less_iff order_less_le zero_less_mult_iff zero_less_numeral zero_less_power)
qed

lemma scaled_fraction:
  assumes "fraction prec f ds" and "f < 10 ^ prec" and "prec \<le> 9"
  shows "truncateF (mulF (float64OfInt (decval ds)) (divF (float64OfInt (10 ^ prec)) (float64OfInt (10 ^ length ds)))) = int f"
proof -
  let ?k = "prec - length ds"
  have len: "length ds \<le> prec" and f: "decval ds * 10 ^ ?k = int f" using assms(1) by (auto simp: fraction_def)
  note small = fraction_small [OF assms]
  have p: "round64 (of_int (10 ^ j)) = Fin (of_int (10 ^ j))" if "j \<le> 9" for j
    using round64_int [of "10 ^ j"] power_increasing [OF that, of "10 :: int"] by simp
  have "(10 :: rat) ^ prec / 10 ^ length ds = of_int (10 ^ ?k)" using power_diff [OF _ len, of "10 :: rat"] by simp
  then have "divF (float64OfInt (10 ^ prec)) (float64OfInt (10 ^ length ds)) = Fin (of_int (10 ^ ?k))"
    using p [of prec] p [of "length ds"] p [of ?k] assms(3) len by (simp add: float64OfInt_def)
  moreover have "mulF (float64OfInt (decval ds)) (Fin (of_int (10 ^ ?k))) = round64 (of_int (int f))"
    using round64_int [of "decval ds"] small(1,2) f [symmetric] by (simp add: float64OfInt_def)
  ultimately show ?thesis using round64_int [of "int f"] small(3) by (simp add: truncateF_def)
qed

definition unitName :: "string \<Rightarrow> bool" where
  "unitName u \<longleftrightarrow> u \<noteq> [] \<and> list_all (\<lambda>c. c \<noteq> CHR ''.'' \<and> \<not> isDigit c) u"

definition nextPart :: "string \<Rightarrow> bool" where
  "nextPart s \<longleftrightarrow> s = [] \<or> isDigit (hd s)"

lemma takeWhile_unit: "unitName u \<Longrightarrow> nextPart rest \<Longrightarrow> takeWhile (\<lambda>c. \<not> (c = CHR ''.'' \<or> isDigit c)) (u @ rest) = u"
  by (cases rest) (auto simp: unitName_def nextPart_def list_all_iff takeWhile_append)

lemma durationPart_spec:
  assumes u: "unitName u" "unitMap u = Some unit" "0 < unit" and rest: "nextPart rest"
    and ds: "fraction prec f ds" "ds = [] \<longleftrightarrow> f = 0" "f < 10 ^ prec" "prec \<le> 9" "ds = [] \<or> unit = 10 ^ prec"
    and range: "int v * unit + int f \<le> 2 ^ 63"
  shows "durationPart (digits v @ (if ds = [] then u @ rest else CHR ''.'' # ds @ u @ rest)) = Some (int v * unit + int f, rest)"
proof -
  let ?t = "if ds = [] then u @ rest else CHR ''.'' # ds @ u @ rest"
  note v = digits_spec [of v]
  have unit: "noDigit (u @ rest)" "hd (u @ rest) \<noteq> CHR ''.''" "u @ rest \<noteq> []" and u0: "u \<noteq> []"
    using u(1) by (cases u; auto simp: unitName_def noDigit_def)+
  have small: "decval ds \<le> 10 ^ 9" "0 < decval ds \<longleftrightarrow> ds \<noteq> []" using fraction_small [OF ds(1,3,4)] ds(2) by auto
  have v63: "int v \<le> 2 ^ 63"
  proof -
    have "int v * 1 \<le> int v * unit" using u(3) by (intro mult_left_mono) auto
    with range show ?thesis by linarith
  qed
  have whole: "leadingInt 0 (digits v @ ?t) = Some (int v, ?t)"
    using leadingInt_digits [of "digits v" 0 ?t] v v63 unit by (auto simp: noDigit_def isDigit_def less_eq_char_def)
  have first: "isDigit (hd (digits v @ ?t))" using v by (cases "digits v"; simp)
  have v_le: "\<not> 2 ^ 63 div unit < int v"
    using zdiv_mono1 [of "int v * unit" "2 ^ 63" unit] range u(3) by simp
  note tw = takeWhile_unit [OF u(1) rest]
  show ?thesis
  proof (cases "ds = []")
    case True
    then have "?t = u @ rest" "f = 0" using ds(2) by auto
    with whole first v_le tw v unit u(2) u0 show ?thesis by (simp add: durationPart_def Let_def)
  next
    case False
    have "leadingFraction 0 1 False (ds @ u @ rest) = (decval ds, 10 ^ length ds, u @ rest)"
      using leadingFraction_digits [of ds 0 "u @ rest" 1] small unit ds(1) by (simp add: fraction_def)
    moreover have "0 < decval ds" "unit = 10 ^ prec" "?t = CHR ''.'' # ds @ u @ rest" using False small(2) ds(5) by auto
    ultimately show ?thesis
      using whole first v_le tw v unit u(2) u0 scaled_fraction [OF ds(1,3,4)] range by (simp add: durationPart_def Let_def)
  qed
qed

lemma durationLoop_part:
  assumes "unitName u" "unitMap u = Some unit" "0 < unit" "nextPart rest"
    and "fraction prec f ds" "ds = [] \<longleftrightarrow> f = 0" "f < 10 ^ prec" "prec \<le> 9" "ds = [] \<or> unit = 10 ^ prec"
    and "0 \<le> d" "d + int v * unit + int f \<le> 2 ^ 63"
  shows "durationLoop d (digits v @ (if ds = [] then u @ rest else CHR ''.'' # ds @ u @ rest))
    = durationLoop (d + int v * unit + int f) rest"
proof -
  have "int v * unit + int f \<le> 2 ^ 63" "0 \<le> int v * unit" using assms(3,10,11) by auto
  then show ?thesis
    using durationPart_spec [OF assms(1-9)] assms(10,11) digits_spec [of v]
    by (subst durationLoop.simps) (simp add: Let_def add.assoc)
qed

lemma no_fraction: "fraction 0 0 []"
  by (simp add: fraction_def decval_def)

lemma durationLoop_whole:
  assumes "unitName u" "unitMap u = Some unit" "0 < unit" "nextPart rest" "0 \<le> d" "d + int v * unit \<le> 2 ^ 63"
  shows "durationLoop d (digits v @ u @ rest) = durationLoop (d + int v * unit) rest"
  using durationLoop_part [OF assms(1-4) no_fraction, of d v] assms(5,6) by simp

lemma durationLoop_end [simp]: "durationLoop d [] = Some d"
  by (simp add: durationLoop.simps)

lemmas unit_names = unitName_def unitMap_def isDigit_def less_eq_char_def

lemma durationLoop_fraction:
  assumes "unitName u" "unitMap u = Some (10 ^ prec)" "prec \<le> 9" and "0 \<le> d" "d + int w * 10 ^ prec + int (v mod 10 ^ prec) \<le> 2 ^ 63"
  shows "durationLoop d (digits w @ fst (fmtFrac prec v u)) = Some (d + int w * 10 ^ prec + int (v mod 10 ^ prec))"
proof -
  obtain ds where ds: "fmtFrac prec v u = ((if ds = [] then u else CHR ''.'' # ds @ u), v div 10 ^ prec)"
      "fraction prec (v mod 10 ^ prec) ds" "ds = [] \<longleftrightarrow> v mod 10 ^ prec = 0" by (rule fmtFrac_spec)
  show ?thesis
    using durationLoop_part [OF assms(1,2) _ _ ds(2,3) _ assms(3) _ assms(4,5), of "[]"]
    by (simp add: ds(1) nextPart_def split: if_splits)
qed

lemma snd_fmtFrac [simp]: "snd (fmtFrac prec v acc) = v div 10 ^ prec"
  by (rule fmtFrac_spec [of prec v acc]) simp

lemma nextPart_digits: "nextPart (digits v @ s)"
  using digits_spec [of v] by (cases "digits v") (auto simp: nextPart_def)

lemma int_div_mod: "int (u div b) * int b + int (u mod b) = int u"
  by (metis div_mult_mod_eq of_nat_add of_nat_mult)

lemma read_subsecond:
  assumes "u < 1000000000"
  shows "durationLoop 0 (fmtSubsecond u) = Some (int u)"
proof -
  have "durationLoop 0 (digits (u div 10 ^ prec) @ fst (fmtFrac prec u name)) = Some (int u)"
    if "unitName name" "unitMap name = Some (10 ^ prec)" "prec \<le> 9" for prec name
  proof -
    have "int (u div 10 ^ prec) * 10 ^ prec + int (u mod 10 ^ prec) = int u"
      using int_div_mod [of u "10 ^ prec"] by (simp del: of_nat_div of_nat_mod)
    with durationLoop_fraction [OF that, of 0 "u div 10 ^ prec" u] assms show ?thesis by simp
  qed
  from this [of "''ns''" 0] this [of "[CHR 0xC2, CHR 0xB5, CHR ''s'']" 3] this [of "''ms''" 6] show ?thesis
    by (auto simp: fmtSubsecond_def Let_def fmtInt_def case_prod_beta unit_names)
qed

lemma read_seconds:
  assumes "u \<le> 2 ^ 63"
  shows "durationLoop 0 (fmtSeconds u) = Some (int u)"
proof -
  define v where "v = u div 10 ^ 9"
  define w where "w = v div 60"
  define f where "f = u mod 10 ^ 9"
  define sc where "sc = v mod 60"
  define mi where "mi = w mod 60"
  define h where "h = w div 60"
  define s where "s = digits sc @ fst (fmtFrac 9 u ''s'')"
  define m where "m = digits mi @ ''m'' @ s"
  have u: "int u = int h * 3600000000000 + int mi * 60000000000 + int sc * 10 ^ 9 + int f" and u63: "int u \<le> 2 ^ 63"
    and w: "int w = int h * 60 + int mi"
    using int_div_mod [of u "10 ^ 9"] int_div_mod [of v 60] int_div_mod [of w 60] assms
    unfolding v_def [symmetric] w_def [symmetric] f_def [symmetric] sc_def [symmetric] mi_def [symmetric] h_def [symmetric] by simp_all
  have sec: "durationLoop d s = Some (d + int sc * 10 ^ 9 + int f)" if "0 \<le> d" "d + int sc * 10 ^ 9 + int f \<le> 2 ^ 63" for d
    unfolding s_def f_def using that by (intro durationLoop_fraction) (auto simp: unit_names f_def)
  have start: "nextPart s" "nextPart m" by (simp_all add: s_def m_def nextPart_digits)
  have min: "durationLoop d m = Some (d + int mi * 60000000000 + int sc * 10 ^ 9 + int f)"
    if "0 \<le> d" "d + int mi * 60000000000 + int sc * 10 ^ 9 + int f \<le> 2 ^ 63" for d
    using that start(1) durationLoop_whole [of "''m''" 60000000000 s d mi] sec [of "d + int mi * 60000000000"]
    by (simp add: m_def unit_names)
  have "durationLoop 0 (digits h @ ''h'' @ m) = Some (int u)"
    using durationLoop_whole [of "''h''" 3600000000000 m 0 h] min [of "int h * 3600000000000"] u u63 start(2)
    by (simp add: unit_names)
  moreover have "fmtSeconds u = (if w = 0 then s else if h = 0 then m else digits h @ ''h'' @ m)"
    by (simp add: fmtSeconds_def Let_def fmtInt_def case_prod_beta v_def w_def s_def m_def h_def mi_def sc_def)
  moreover have "durationLoop 0 s = Some (int u)" if "w = 0" using sec [of 0] u u63 w that by simp
  moreover have "durationLoop 0 m = Some (int u)" if "h = 0" using min [of 0] u u63 that by simp
  ultimately show ?thesis by simp
qed

text \<open>Every text starts with a number and goes on with a unit, so it has no sign and is not the single zero.\<close>

definition numberFirst :: "string \<Rightarrow> bool" where
  "numberFirst s \<longleftrightarrow> (\<exists>v t. s = digits v @ t \<and> t \<noteq> [])"

lemma numberFirst_fmtInt: "s \<noteq> [] \<Longrightarrow> numberFirst (fmtInt v s)"
  by (auto simp: numberFirst_def fmtInt_def)

lemma fmtFrac_nonempty: "acc \<noteq> [] \<Longrightarrow> fst (fmtFrac prec u acc) \<noteq> []"
  by (rule fmtFrac_spec [of prec u acc]) auto

lemma numberFirst_fmt: "numberFirst (fmtSubsecond u)" "numberFirst (fmtSeconds u)"
  by (auto simp: fmtSubsecond_def fmtSeconds_def Let_def case_prod_beta intro!: numberFirst_fmtInt fmtFrac_nonempty)

lemma numberFirst_body:
  assumes "numberFirst s"
  shows "dropSign s = (False, False, s)" and "dropSign (CHR ''-'' # s) = (True, True, s)" and "s \<noteq> ''0''" and "s \<noteq> []"
proof -
  obtain v t where t: "s = digits v @ t" "t \<noteq> []" using assms by (auto simp: numberFirst_def)
  obtain c ds where "digits v = c # ds" "isDigit c" using digits_spec [of v] by (cases "digits v") auto
  with t have s: "s = c # ds @ t" "isDigit c" "t \<noteq> []" by auto
  then show "dropSign s = (False, False, s)" "dropSign (CHR ''-'' # s) = (True, True, s)" "s \<noteq> ''0''" "s \<noteq> []"
    by (auto simp: dropSign_def isDigit_def less_eq_char_def)
qed

lemma ParseDuration_String:
  assumes "- (2 ^ 63) \<le> d" and "d < 2 ^ 63"
  shows "ParseDuration (DurationString d) = Some d"
proof -
  define u where "u = nat \<bar>d\<bar>"
  define s where "s = (if u < 1000000000 then fmtSubsecond u else fmtSeconds u)"
  have u: "int u = \<bar>d\<bar>" "u \<le> 2 ^ 63" using assms by (auto simp: u_def)
  have "durationLoop 0 s = Some \<bar>d\<bar>" "numberFirst s"
    using read_subsecond [of u] read_seconds [OF u(2)] numberFirst_fmt u(1) by (simp_all add: s_def)
  moreover have "ParseDuration ''0s'' = Some 0" by code_simp
  moreover have "DurationString d = (if d = 0 then ''0s'' else if d < 0 then CHR ''-'' # s else s)"
    by (auto simp: DurationString_def Let_def u_def s_def)
  ultimately show ?thesis using numberFirst_body [of s] assms by (auto simp: ParseDuration_def)
qed

end
