(* ===== verification/Server_Start.thy ===== *)
theory Server_Start
  imports Server_Pool Server_Routes Lab_Duration Go_Format
begin

text \<open>
  The process around the server, \<^verbatim>\<open>main\<close> and \<^verbatim>\<open>run\<close> of \<^verbatim>\<open>cmd/server/main.go\<close>: the standard logger and its two outputs, the
  messages about the configuration, opening the listener, and a step relation from the start of the process to its exit
  status, in which the threads of \<open>Server_Pool\<close> run. What the operating system answers and the quoting of the verb \<^verbatim>\<open>%q\<close> are arguments.
\<close>

section \<open>The logger\<close>

record moment =
  logYear :: nat
  logMonth :: nat
  logDay :: nat
  logHour :: nat
  logMinute :: nat
  logSecond :: nat
  logMicros :: nat

text \<open>The header of a line for the flags that are set: date, and time with microseconds.\<close>

definition logHeader :: "moment \<Rightarrow> string" where
  "logHeader t =
    zeroPadded 4 (logYear t) @ ''/'' @ zeroPadded 2 (logMonth t) @ ''/'' @ zeroPadded 2 (logDay t) @ '' ''
    @ zeroPadded 2 (logHour t) @ '':'' @ zeroPadded 2 (logMinute t) @ '':'' @ zeroPadded 2 (logSecond t) @ ''.''
    @ zeroPadded 6 (logMicros t) @ '' ''"

definition logText :: "moment \<Rightarrow> string \<Rightarrow> string" where
  "logText t message = logHeader t @ message @ (if message = [] \<or> last message \<noteq> lf then [lf] else [])"

text \<open>
  The outputs of the logger: the standard output, which may take only so many more bytes, and the store
  of recent lines. \<^verbatim>\<open>io.MultiWriter\<close> stops at the first output that fails.
\<close>

record logOutputs =
  stdout :: string
  stdoutRoom :: "nat option"
  recent :: "LogStore option"

definition NewLogWriter :: "LogStore option" where
  "NewLogWriter = Some defaultLogStore"

definition installLogging :: "nat option \<Rightarrow> logOutputs" where
  "installLogging room = \<lparr>stdout = [], stdoutRoom = room, recent = NewLogWriter\<rparr>"

definition stdoutWrite :: "string \<Rightarrow> logOutputs \<Rightarrow> bool \<times> logOutputs" where
  "stdoutWrite p out =
    (case stdoutRoom out of
       None \<Rightarrow> (True, out\<lparr>stdout := stdout out @ p\<rparr>)
     | Some n \<Rightarrow> (length p \<le> n, out\<lparr>stdout := stdout out @ take n p, stdoutRoom := Some (n - length p)\<rparr>))"

definition multiWrite :: "string \<Rightarrow> string \<Rightarrow> logOutputs \<Rightarrow> logOutputs" where
  "multiWrite time p out =
    (case stdoutWrite p out of
       (True, out1) \<Rightarrow> out1\<lparr>recent := snd (LogWrite time p (recent out1))\<rparr>
     | (False, out1) \<Rightarrow> out1)"

definition logPrint :: "moment \<times> string \<Rightarrow> string \<Rightarrow> logOutputs \<Rightarrow> logOutputs" where
  "logPrint now message = multiWrite (snd now) (logText (fst now) message)"

section \<open>Messages\<close>

text \<open>What the functions of \<^verbatim>\<open>config/config.go\<close> print about the values they refuse.\<close>

definition refusedValue :: "(string \<Rightarrow> string) \<Rightarrow> getenv \<Rightarrow> string \<Rightarrow> bool \<Rightarrow> string \<Rightarrow> string list" where
  "refusedValue quote env name ok fallback =
    (let v = TrimSpace (env name)
     in if v = [] \<or> ok then [] else [''Invalid '' @ name @ ''='' @ quote v @ ''; using '' @ fallback])"

definition envIntLog :: "(string \<Rightarrow> string) \<Rightarrow> getenv \<Rightarrow> string \<Rightarrow> int \<Rightarrow> string list" where
  "envIntLog quote env name fallback =
    refusedValue quote env name (case Atoi (TrimSpace (env name)) of None \<Rightarrow> False | Some n \<Rightarrow> \<not> n \<le> 0) (Itoa fallback)"

definition envDurationLog :: "(string \<Rightarrow> string) \<Rightarrow> getenv \<Rightarrow> string \<Rightarrow> int \<Rightarrow> string list" where
  "envDurationLog quote env name fallback =
    refusedValue quote env name (case ParseDuration (TrimSpace (env name)) of None \<Rightarrow> False | Some d \<Rightarrow> \<not> d \<le> 0) (DurationString fallback)"

definition envFloatLog :: "(string \<Rightarrow> string) \<Rightarrow> getenv \<Rightarrow> string \<Rightarrow> float64 \<Rightarrow> string list" where
  "envFloatLog quote env name fallback =
    refusedValue quote env name (case ParseFloat (TrimSpace (env name)) of None \<Rightarrow> False | Some f \<Rightarrow> \<not> lessF f (Fin 0))
      (formatFixed 2 fallback)"

definition envPositiveFloatLog :: "(string \<Rightarrow> string) \<Rightarrow> getenv \<Rightarrow> string \<Rightarrow> float64 \<Rightarrow> string list" where
  "envPositiveFloatLog quote env name fallback =
    envFloatLog quote env name fallback
    @ (if leF (envFloat env name fallback) (Fin 0)
       then [''Invalid '' @ name @ ''; using '' @ formatFixed 2 fallback @ '' because the value must be positive''] else [])"

definition LoadLog :: "(string \<Rightarrow> string) \<Rightarrow> getenv \<Rightarrow> string list" where
  "LoadLog quote env =
    envIntLog quote env ''MTWS_WORKERS'' defaultWorkerPoolSize
    @ envIntLog quote env ''MTWS_JOB_QUEUE_SIZE'' defaultJobQueueSize
    @ envDurationLog quote env ''MTWS_READ_TIMEOUT'' DefaultReadTimeout
    @ envDurationLog quote env ''MTWS_WRITE_TIMEOUT'' DefaultWriteTimeout
    @ envDurationLog quote env ''MTWS_IDLE_TIMEOUT'' DefaultIdleTimeout
    @ envDurationLog quote env ''MTWS_SHUTDOWN_TIMEOUT'' DefaultShutdownTimeout
    @ envDurationLog quote env ''MTWS_QUEUE_TIMEOUT'' DefaultQueueTimeout
    @ envIntLog quote env ''MTWS_MAX_KEEPALIVE_REQUESTS'' DefaultMaxKeepAlive
    @ envPositiveFloatLog quote env ''MTWS_RATE_LIMIT_RATE'' DefaultRateLimitRate
    @ envPositiveFloatLog quote env ''MTWS_RATE_LIMIT_CAPACITY'' DefaultRateLimitCapacity"

definition logStartup :: "Config \<Rightarrow> string list" where
  "logStartup cfg =
    [''MTWS listening on '' @ ServerAddress cfg,
     ''Workers='' @ Itoa (WorkerPoolSize cfg) @ '' queue='' @ Itoa (JobQueueSize cfg)
       @ '' read_timeout='' @ DurationString (cfgReadTimeout cfg) @ '' write_timeout='' @ DurationString (cfgWriteTimeout cfg)
       @ '' idle_timeout='' @ DurationString (cfgIdleTimeout cfg) @ '' max_keepalive='' @ Itoa (MaxKeepAlive cfg)
       @ '' queue_timeout='' @ DurationString (QueueTimeout cfg) @ '' shutdown_timeout='' @ DurationString (ShutdownTimeout cfg),
     (if TLSEnabled cfg then ''TLS enabled'' else ''TLS disabled; serving plaintext HTTP''),
     (if cfgRateLimitEnabled cfg
      then ''Rate limiter enabled: rate='' @ formatFixed 2 (cfgRateLimitRate cfg) @ '' capacity='' @ formatFixed 2 (cfgRateLimitCapacity cfg)
      else ''Rate limiter disabled by environment'')]"

text \<open>The router that the tests build, without a queue.\<close>

definition buildRouter :: "serverState \<Rightarrow> Router option" where
  "buildRouter st = buildRouterWithMetrics (st\<lparr>config := defaultMonitorConfig, jobQueue := None\<rparr>) DefaultStaticDir"

section \<open>The listener\<close>

text \<open>
  What the operating system and the TLS library answer: the error of opening a TCP address, the certificate of a pair of files or an
  error, and the largest capacity for which a channel can be made.
\<close>

record 'c host =
  netListen :: "string \<Rightarrow> string option"
  LoadX509KeyPair :: "string \<Rightarrow> string \<Rightarrow> string + 'c"
  chanLimit :: int

record 'c tlsConfig =
  MinVersion :: nat
  Certificates :: "'c list"

datatype 'c listener = TCPListener string | TLSListener string "'c tlsConfig"

definition VersionTLS12 :: nat where
  "VersionTLS12 = 0x0303"

definition listen :: "'c host \<Rightarrow> Config \<Rightarrow> string + 'c listener" where
  "listen host cfg =
    (if \<not> TLSEnabled cfg then
       (case netListen host (ServerAddress cfg) of Some e \<Rightarrow> Inl e | None \<Rightarrow> Inr (TCPListener (ServerAddress cfg)))
     else
       (case LoadX509KeyPair host (TLSCertFile cfg) (TLSKeyFile cfg) of
          Inl e \<Rightarrow> Inl (''load TLS certificate: '' @ e)
        | Inr cert \<Rightarrow>
           (case netListen host (ServerAddress cfg) of
              Some e \<Rightarrow> Inl e
            | None \<Rightarrow> Inr (TLSListener (ServerAddress cfg) \<lparr>MinVersion = VersionTLS12, Certificates = [cert]\<rparr>))))"

section \<open>From start to exit\<close>

datatype 'c launchError = Refused string | MakePanic "'c listener"

text \<open>\<open>run\<close> up to the accept loop. A channel of a capacity that is out of range makes the program panic, with the listener open.\<close>

definition launch :: "'c host \<Rightarrow> Config \<Rightarrow> int \<Rightarrow> 'c launchError + ('c listener \<times> process)" where
  "launch host cfg now =
    (if TLSPartiallyConfigured cfg then Inl (Refused ''TLS requires both MTWS_TLS_CERT_FILE and MTWS_TLS_KEY_FILE'')
     else
      (case listen host cfg of
         Inl e \<Rightarrow> Inl (Refused e)
       | Inr l \<Rightarrow> if JobQueueSize cfg < 0 \<or> chanLimit host < JobQueueSize cfg then Inl (MakePanic l) else Inr (l, startProcess cfg now)))"

text \<open>What \<open>run\<close> returns: nothing yet, no error, or an error.\<close>

definition runResult :: "Config \<Rightarrow> acceptor \<Rightarrow> string option option" where
  "runResult cfg a =
    (case a of
       Stopped \<Rightarrow> Some None
     | TimedOut \<Rightarrow> Some (Some (''shutdown timed out after '' @ DurationString (ShutdownTimeout cfg)))
     | _ \<Rightarrow> None)"

text \<open>The process: its listener and its threads when they exist, what \<open>main\<close> has logged, and the exit status.\<close>

record 'c server =
  listener :: "'c listener option"
  threads :: "process option"
  said :: "string list"
  status :: "int option"

definition unstarted :: "'c server" where
  "unstarted = \<lparr>listener = None, threads = None, said = [], status = None\<rparr>"

inductive serverStep :: "'c host \<Rightarrow> (string \<Rightarrow> string) \<Rightarrow> (nat \<Rightarrow> nat) \<Rightarrow> getenv \<Rightarrow> int \<Rightarrow> 'c server \<Rightarrow> 'c server \<Rightarrow> bool"
  for host quote lower env now where
  starts: "status s = None \<Longrightarrow> threads s = None \<Longrightarrow> launch host (Load lower env) now = Inr (l, p) \<Longrightarrow>
    serverStep host quote lower env now s
      (s\<lparr>listener := Some l, threads := Some p, said := said s @ LoadLog quote env @ logStartup (Load lower env)\<rparr>)"
| refuses: "status s = None \<Longrightarrow> threads s = None \<Longrightarrow> launch host (Load lower env) now = Inl (Refused e) \<Longrightarrow>
    serverStep host quote lower env now s (s\<lparr>said := said s @ LoadLog quote env @ [e], status := Some 1\<rparr>)"
| panics: "status s = None \<Longrightarrow> threads s = None \<Longrightarrow> launch host (Load lower env) now = Inl (MakePanic l) \<Longrightarrow>
    serverStep host quote lower env now s (s\<lparr>listener := Some l, said := said s @ LoadLog quote env, status := Some 2\<rparr>)"
| runs: "status s = None \<Longrightarrow> threads s = Some p \<Longrightarrow> step (Load lower env) p q \<Longrightarrow>
    serverStep host quote lower env now s (s\<lparr>threads := Some q\<rparr>)"
| returns: "status s = None \<Longrightarrow> threads s = Some p \<Longrightarrow> runResult (Load lower env) (acceptor p) = Some None \<Longrightarrow>
    serverStep host quote lower env now s (s\<lparr>status := Some 0\<rparr>)"
| fails: "status s = None \<Longrightarrow> threads s = Some p \<Longrightarrow> runResult (Load lower env) (acceptor p) = Some (Some e) \<Longrightarrow>
    serverStep host quote lower env now s (s\<lparr>said := said s @ [e], status := Some 1\<rparr>)"

inductive_cases serverStepE: "serverStep host quote lower env now s s'"

definition mayBe :: "'c host \<Rightarrow> (string \<Rightarrow> string) \<Rightarrow> (nat \<Rightarrow> nat) \<Rightarrow> getenv \<Rightarrow> int \<Rightarrow> 'c server \<Rightarrow> bool" where
  "mayBe host quote lower env now s \<longleftrightarrow> (serverStep host quote lower env now)\<^sup>*\<^sup>* unstarted s"

section \<open>The lines of the log\<close>

fun logAll :: "(moment \<times> string) list \<Rightarrow> string list \<Rightarrow> logOutputs \<Rightarrow> logOutputs" where
  "logAll (now # moments) (message # messages) out = logAll moments messages (logPrint now message out)"
| "logAll _ _ out = out"

lemma multiWrite_free:
  "stdoutRoom out = None \<Longrightarrow>
   multiWrite time p out = out\<lparr>stdout := stdout out @ p, recent := snd (LogWrite time p (recent out))\<rparr>"
  by (simp add: multiWrite_def stdoutWrite_def)

text \<open>
  While the standard output takes what it gets, the lines that \<open>main\<close> logs are all on it and the last of them in the store. When it
  fails, the store gets nothing more either: the logger stops at its first output.
\<close>

lemma logAll_outputs:
  "stdoutRoom out = None \<Longrightarrow> holds (recent out) m hist \<Longrightarrow> length moments = length messages \<Longrightarrow>
   stdout (logAll moments messages out) = stdout out @ concat (map2 (\<lambda>t msg. logText (fst t) msg) moments messages)
   \<and> holds (recent (logAll moments messages out)) m (hist @ concat (map2 (\<lambda>t msg. written (snd t, logText (fst t) msg)) moments messages))"
proof (induction moments messages out arbitrary: hist rule: logAll.induct)
  case (1 now moments message messages out)
  let ?out = "logPrint now message out"
  have out: "?out = out\<lparr>stdout := stdout out @ logText (fst now) message, recent := snd (LogWrite (snd now) (logText (fst now) message) (recent out))\<rparr>"
    using 1(2) by (simp add: logPrint_def multiWrite_free)
  have "holds (recent ?out) m (hist @ written (snd now, logText (fst now) message))"
    unfolding out using holds_LogWrite [OF 1(3), of "(snd now, logText (fst now) message)"] by simp
  with "1.IH" [of "hist @ written (snd now, logText (fst now) message)"] 1(2,4) show ?case by (simp add: out)
qed auto

lemma broken_stdout_hides_logs:
  "stdoutRoom out = Some 0 \<Longrightarrow> recent (logPrint now message out) = recent out \<and> stdoutRoom (logPrint now message out) = Some 0"
  by (auto simp: logPrint_def multiWrite_def stdoutWrite_def logText_def logHeader_def)

section \<open>The states of the process\<close>

definition ended :: "acceptor \<Rightarrow> bool" where
  "ended a \<longleftrightarrow> a \<in> {ServeReturned, Stopping, Stopped, TimedOut}"

lemma ended_simps [simp]:
  "ended ServeReturned" "ended Stopping" "ended Stopped" "ended TimedOut" "\<not> ended Accepting" "\<not> ended (Deciding c)" "\<not> ended (Enqueuing c)"
  by (simp_all add: ended_def)

text \<open>The accept loop returns only after a signal.\<close>

lemma ended_context: "reachable cfg now p \<Longrightarrow> ended (acceptor p) \<Longrightarrow> contextDone p"
  unfolding reachable_def
proof (induction rule: rtranclp_induct)
  case (step p q)
  have "listenerClosed p \<Longrightarrow> contextDone p" using listener_context step(1) by (simp add: reachable_def)
  with step(2,3,4) show ?case by (cases rule: step.cases) (auto simp: settle_def stopPool_def)
qed (simp add: startProcess_def)

lemma launch_Inr:
  "launch host cfg now = Inr (l, p) \<longleftrightarrow>
   \<not> TLSPartiallyConfigured cfg \<and> listen host cfg = Inr l \<and> 0 \<le> JobQueueSize cfg \<and> JobQueueSize cfg \<le> chanLimit host \<and> p = startProcess cfg now"
  by (auto simp: launch_def split: sum.split)

lemma launch_listens:
  "launch host cfg now = Inr (l, p) \<or> launch host cfg now = Inl (MakePanic l) \<Longrightarrow> \<not> TLSPartiallyConfigured cfg \<and> listen host cfg = Inr l"
  by (auto simp: launch_def split: sum.splits if_splits)

definition exitReason :: "'c host \<Rightarrow> Config \<Rightarrow> int \<Rightarrow> 'c server \<Rightarrow> int \<Rightarrow> bool" where
  "exitReason host cfg now s code \<longleftrightarrow>
     (case threads s of
        Some p \<Rightarrow>
          acceptor p = Stopped \<and> code = 0
          \<or> acceptor p = TimedOut \<and> code = 1 \<and> last (said s) = ''shutdown timed out after '' @ DurationString (ShutdownTimeout cfg)
      | None \<Rightarrow> code = 1 \<and> launch host cfg now = Inl (Refused (last (said s))) \<or> code = 2 \<and> (\<exists>l. listener s = Some l \<and> launch host cfg now = Inl (MakePanic l)))"

definition serverInv :: "'c host \<Rightarrow> Config \<Rightarrow> int \<Rightarrow> 'c server \<Rightarrow> bool" where
  "serverInv host cfg now s \<longleftrightarrow>
     (case threads s of
        None \<Rightarrow> (\<forall>l. listener s = Some l \<longrightarrow> launch host cfg now = Inl (MakePanic l))
      | Some p \<Rightarrow> reachable cfg now p \<and> (\<exists>l. listener s = Some l \<and> launch host cfg now = Inr (l, startProcess cfg now)))
     \<and> (\<forall>code. status s = Some code \<longrightarrow> exitReason host cfg now s code)"

lemma serverInv_step:
  "serverStep host quote lower env now s s' \<Longrightarrow> serverInv host (Load lower env) now s \<Longrightarrow> serverInv host (Load lower env) now s'"
proof (induction rule: serverStep.induct)
  case (starts s l p)
  then show ?case by (auto simp: serverInv_def reachable_def launch_Inr)
next
  case (runs s p q)
  then show ?case by (auto simp: serverInv_def reachable_def intro: rtranclp.rtrancl_into_rtrancl)
qed (auto simp: serverInv_def exitReason_def runResult_def split: acceptor.splits)

lemma mayBe_inv: "mayBe host quote lower env now s \<Longrightarrow> serverInv host (Load lower env) now s"
  unfolding mayBe_def by (induction rule: rtranclp_induct) (auto simp: serverInv_step, simp add: serverInv_def unstarted_def)

section \<open>The end of the process\<close>

definition serverClosing :: "'c server \<Rightarrow> bool" where
  "serverClosing s \<longleftrightarrow> status s \<noteq> None \<or> (\<exists>p. threads s = Some p \<and> closing p)"

definition serverRank :: "'c server \<Rightarrow> nat" where
  "serverRank s = (if status s \<noteq> None then 0 else case threads s of None \<Rightarrow> 0 | Some p \<Rightarrow> Suc (remaining p))"

lemma serverClosing_step:
  "serverStep host quote lower env now s s' \<Longrightarrow> serverClosing s \<Longrightarrow> serverClosing s' \<and> serverRank s' < serverRank s"
  by (induction rule: serverStep.induct) (auto simp: serverClosing_def serverRank_def dest: closing_step)

interpretation exiting: draining "serverStep host quote lower env now" serverClosing serverRank for host quote lower env now
  by unfold_locales (auto dest: serverClosing_step)

text \<open>A process without an exit status can always do a step.\<close>

lemma threads_progress:
  assumes "runResult cfg (acceptor p) = None"
  shows "\<exists>q. step cfg p q"
proof (cases "acceptor p")
  case Accepting
  then show ?thesis using step.accept step.acceptReturns by blast
next
  case (Deciding c)
  obtain ok l where "admit cfg 0 [] (limiter p) = (ok, l)" by fastforce
  with step.admitted [OF Deciding, of cfg 0 "[]" l] step.limited [OF Deciding, of cfg 0 "[]" l] show ?thesis by (cases ok) auto
qed (use assms in \<open>auto simp: runResult_def intro: step.saturated step.stop step.stop_timeout\<close>)

lemma server_progress:
  assumes "status s = None"
  shows "\<exists>s'. serverStep host quote lower env now s s'"
proof (cases "threads s")
  case None
  show ?thesis
  proof (cases "launch host (Load lower env) now")
    case (Inl e)
    with None assms show ?thesis by (cases e) (blast intro: serverStep.refuses serverStep.panics)+
  next
    case (Inr lp)
    with None assms show ?thesis by (cases lp) (blast intro: serverStep.starts)
  qed
next
  case (Some p)
  show ?thesis
  proof (cases "runResult (Load lower env) (acceptor p)")
    case None
    then show ?thesis using threads_progress serverStep.runs assms Some by blast
  next
    case (Some r)
    with \<open>threads s = Some p\<close> assms show ?thesis by (cases r) (blast intro: serverStep.returns serverStep.fails)+
  qed
qed

section \<open>Properties\<close>

text \<open>
  C16. TLS is never left out by accident. Whatever the environment holds and whatever the system answers, a process that listens
  without TLS has been given neither a certificate nor a key file; one that was given a file either listens with TLS from version 1.2 on
  and the certificate that was loaded from both files, or it does not listen at all and exits with an error in its log.
\<close>

theorem tls_never_downgraded:
  assumes "mayBe host quote lower env now s"
  shows "(\<forall>addr. listener s = Some (TCPListener addr) \<longrightarrow>
            TrimSpace (env ''MTWS_TLS_CERT_FILE'') = [] \<and> TrimSpace (env ''MTWS_TLS_KEY_FILE'') = [])
    \<and> (\<forall>addr tls. listener s = Some (TLSListener addr tls) \<longrightarrow>
            MinVersion tls = VersionTLS12
            \<and> map Inr (Certificates tls) = [LoadX509KeyPair host (TrimSpace (env ''MTWS_TLS_CERT_FILE'')) (TrimSpace (env ''MTWS_TLS_KEY_FILE''))])
    \<and> (listener s = None \<and> status s \<noteq> None \<longrightarrow> status s \<noteq> Some 0)"
proof -
  have inv: "serverInv host (Load lower env) now s" using assms by (rule mayBe_inv)
  have files: "TLSCertFile (Load lower env) = TrimSpace (env ''MTWS_TLS_CERT_FILE'')" "TLSKeyFile (Load lower env) = TrimSpace (env ''MTWS_TLS_KEY_FILE'')"
    by (simp_all add: Load_def)
  have lis: "listen host (Load lower env) = Inr l \<and> \<not> TLSPartiallyConfigured (Load lower env)" if "listener s = Some l" for l
    using inv that by (auto simp: serverInv_def dest!: launch_listens [OF disjI1] launch_listens [OF disjI2] split: option.splits)
  have "TrimSpace (env ''MTWS_TLS_CERT_FILE'') = [] \<and> TrimSpace (env ''MTWS_TLS_KEY_FILE'') = []" if "listener s = Some (TCPListener addr)" for addr
    using lis [OF that] by (auto simp: listen_def TLSEnabled_def TLSPartiallyConfigured_def files split: if_splits option.splits sum.splits)
  moreover have "MinVersion tls = VersionTLS12
      \<and> map Inr (Certificates tls) = [LoadX509KeyPair host (TrimSpace (env ''MTWS_TLS_CERT_FILE'')) (TrimSpace (env ''MTWS_TLS_KEY_FILE''))]"
    if "listener s = Some (TLSListener addr tls)" for addr tls
    using lis [OF that] by (auto simp: listen_def files split: if_splits option.splits sum.splits)
  moreover have "status s \<noteq> Some 0" if "listener s = None"
    using inv that by (auto simp: serverInv_def exitReason_def split: option.splits)
  ultimately show ?thesis by blast
qed

definition plainHost :: "string host" where
  "plainHost = \<lparr>netListen = (\<lambda>addr. if addr = '':80'' then Some ''permission denied'' else None),
     LoadX509KeyPair = (\<lambda>cert key. if cert = ''a.crt'' then Inr key else Inl ''no such file''), chanLimit = 2 ^ 40\<rparr>"

definition tlsEnv :: getenv where
  "tlsEnv name = (if name = ''MTWS_TLS_CERT_FILE'' then '' a.crt'' else if name = ''MTWS_TLS_KEY_FILE'' then ''a.key'' else [])"

lemma tls_launch:
  "launch plainHost (Load id tlsEnv) 0 = Inr (TLSListener '':8080'' \<lparr>MinVersion = 0x0303, Certificates = [''a.key'']\<rparr>, startProcess (Load id tlsEnv) 0)"
proof -
  have "TrimSpace '' a.crt'' = ''a.crt''" "TrimSpace ''a.key'' = ''a.key''" by code_simp+
  then show ?thesis
    by (simp add: launch_Inr listen_def TLSPartiallyConfigured_def TLSEnabled_def Load_def tlsEnv_def plainHost_def envString_def envInt_def
        defaultServerAddress_def defaultJobQueueSize_def VersionTLS12_def)
qed

theorem tls_never_downgraded_witness:
  "\<exists>s tls. mayBe plainHost id id tlsEnv 0 s \<and> listener s = Some (TLSListener '':8080'' tls) \<and> MinVersion tls = VersionTLS12"
proof -
  let ?s = "unstarted\<lparr>listener := Some (TLSListener '':8080'' \<lparr>MinVersion = 0x0303, Certificates = [''a.key'']\<rparr>),
    threads := Some (startProcess (Load id tlsEnv) 0), said := LoadLog id tlsEnv @ logStartup (Load id tlsEnv)\<rparr>"
  have "serverStep plainHost id id tlsEnv 0 unstarted ?s"
    using serverStep.starts [OF _ _ tls_launch, of unstarted id] by (simp add: unstarted_def)
  then have may: "mayBe plainHost id id tlsEnv 0 ?s" by (simp add: mayBe_def)
  from tls_never_downgraded [OF may] may show ?thesis
    by (intro exI [of _ ?s] exI [of _ "\<lparr>MinVersion = 0x0303, Certificates = [''a.key'']\<rparr>"]) simp
qed

end
