(* ===== verification/Limiter_Rate.thy ===== *)
theory Limiter_Rate
  imports Limiter
begin

text \<open>
  The long-run bound of the token bucket, in the arithmetic of the machine: an amortised argument
  with the tokens a client could have at a time as potential, and the errors of rounding carried
  along.
\<close>

section \<open>One refill\<close>

lemma round64_normal_upper:
  assumes "x = 0 \<or> 2 powi (- 1022) \<le> x" and "round64 x = Fin y"
  shows "y \<le> x * (1 + eps)"
proof (cases "x = 0")
  case False
  with assms(1) have x: "2 powi (- 1022) \<le> x" by simp
  then have "0 < x" using two_powi_pos [of "- 1022"] by (rule order.strict_trans2 [rotated])
  with roundPos_upper_normal [OF _ x] assms(2) show ?thesis by (auto simp: round64_def Let_def split: if_splits)
qed (use assms in \<open>simp add: round64_def\<close>)

lemma representable_powi: "- 1074 \<le> e \<Longrightarrow> representable (2 powi e)"
  by (rule representableI [where m = 1]) simp_all

lemma powi_small: "n \<le> 0 \<Longrightarrow> (2 :: rat) powi n \<le> 1"
  using two_powi_mono [of n 0] by simp

lemma Seconds_upper:
  assumes "0 \<le> d" and "d < 2 ^ 63" and "Seconds d = Fin q"
  shows "q \<le> of_int d / 1000000000 * (1 + eps) ^ 2"
proof -
  let ?s = "d div 1000000000" and ?n = "d mod 1000000000"
  have s: "0 \<le> ?s" "?s < 2 ^ 53" using assms by simp_all
  have n: "0 \<le> ?n" "?n < 1000000000" by simp_all
  have frac: "0 \<le> (of_int ?n / 1000000000 :: rat)" "(of_int ?n / 1000000000 :: rat) \<le> 1" using n by simp_all
  obtain f where f: "round64 (of_int ?n / 1000000000) = Fin f" "0 \<le> f"
    using round64_between [OF frac, of thesis] representable_int [of 1] by (auto simp: maxFloat_def)
  have small: "(2 :: rat) powi (- 1022) \<le> 2 powi (- 30)" by (rule two_powi_mono) simp
  have big: "(2 :: rat) powi (- 30) \<le> of_int ?n / 1000000000" if "?n \<noteq> 0"
  proof -
    have "(2 :: rat) powi (- 30) \<le> 1 / 1000000000" by (simp add: power_int_def power_one_over)
    also have "\<dots> \<le> of_int ?n / 1000000000" using that n by (intro divide_right_mono) simp_all
    finally show ?thesis .
  qed
  have f1: "f \<le> of_int ?n / 1000000000 * (1 + eps)"
    using f(1) small big by (intro round64_normal_upper) (auto intro: order.trans)
  have f2: "2 powi (- 30) \<le> f" if "?n \<noteq> 0"
  proof -
    have x: "0 < (of_int ?n / 1000000000 :: rat)" using that n by simp
    have "2 powi (- 30) \<le> roundPos (of_int ?n / 1000000000)"
      using roundPos_mono [OF two_powi_pos big [OF that]] roundPos_representable [OF two_powi_pos [of "- 30"] representable_powi]
      by simp
    with f(1) x show ?thesis by (auto simp: round64_def Let_def split: if_splits)
  qed
  have sum: "of_int ?s + f = 0 \<or> 2 powi (- 1022) \<le> of_int ?s + f"
  proof (cases "?s = 0 \<and> ?n = 0")
    case True
    with f(1) show ?thesis by (simp add: round64_def)
  next
    case False
    show ?thesis
    proof (cases "?n = 0")
      case True
      with False s have "1 \<le> ?s" by linarith
      then have "(1 :: rat) \<le> of_int ?s" by simp
      with f(2) powi_small [of "- 1022"] show ?thesis by linarith
    next
      case False
      have "(0 :: rat) \<le> of_int ?s" using s by simp
      with f2 [OF False] small show ?thesis by linarith
    qed
  qed
  have "Seconds d = round64 (of_int ?s + f)"
    using assms s n f by (simp add: Seconds_def quot_def minus_div_mult_eq_mod float64OfInt_exact)
  then have "q \<le> (of_int ?s + f) * (1 + eps)" using round64_normal_upper [OF sum] assms(3) by simp
  also have "\<dots> \<le> (of_int d / 1000000000 * (1 + eps)) * (1 + eps)"
  proof (rule mult_right_mono)
    have "d = ?s * 1000000000 + ?n" by simp
    then have "(of_int d :: rat) = of_int ?s * 1000000000 + of_int ?n" by (metis of_int_add of_int_mult of_int_numeral)
    then have "(of_int d / 1000000000 :: rat) = of_int ?s + of_int ?n / 1000000000" by (simp add: add_divide_distrib)
    moreover have "(of_int ?s :: rat) \<le> of_int ?s * (1 + eps)" using s by (simp add: distrib_left)
    ultimately show "of_int ?s + f \<le> of_int d / 1000000000 * (1 + eps)" using f1 by (simp add: distrib_right)
  qed (simp add: add_nonneg_nonneg)
  finally show ?thesis by (simp add: power2_eq_square mult.assoc)
qed

text \<open>The rate per nanosecond and the error per call.\<close>

definition perNano :: "rat \<Rightarrow> rat" where
  "perNano r = r * (1 + eps) ^ 3 / 1000000000"

definition slack :: "rat \<Rightarrow> rat" where
  "slack c = c * eps + 2 * tiny"

lemma perNano_nonneg [simp]: "0 \<le> r \<Longrightarrow> 0 \<le> perNano r"
  by (simp add: perNano_def)

lemma slack_nonneg [simp]: "0 \<le> c \<Longrightarrow> 0 \<le> slack c"
  by (simp add: slack_def)

lemma round64_upper: "0 \<le> x \<Longrightarrow> round64 x = Fin y \<Longrightarrow> y \<le> x * (1 + eps) + tiny"
  using roundPos_upper_any [of x] by (auto simp: round64_def Let_def split: if_splits)

lemma round64_overflow: "0 \<le> x \<Longrightarrow> round64 x = PosInf \<Longrightarrow> maxFloat \<le> x * (1 + eps) + tiny"
  using roundPos_upper_any [of x] by (auto simp: round64_def Let_def split: if_splits)

lemma capped_sum:
  assumes "0 \<le> s" and "0 \<le> c" and "c \<le> maxFloat"
    and "v = (if lessF (Fin c) (round64 s) then Fin c else round64 s)" and "v = Fin w"
  shows "w \<le> s + c * eps + tiny"
proof (cases "s \<le> c")
  case True
  have "s * (1 + eps) \<le> s + c * eps" using True by (simp add: distrib_left mult_right_mono)
  moreover have "w \<le> s * (1 + eps) + tiny"
  proof (cases "round64 s")
    case (Fin y)
    with round64_upper [OF assms(1) Fin] assms(4,5) show ?thesis by (auto split: if_splits)
  next
    case PosInf
    with round64_overflow [OF assms(1) PosInf] assms(3-5) show ?thesis by simp
  qed (use round64_nonneg [OF assms(1)] in auto)
  ultimately show ?thesis by linarith
next
  case False
  have "w \<le> c" using assms(4,5) by (cases "round64 s") (auto split: if_splits)
  moreover have "0 \<le> c * eps + tiny" using assms(2) by simp
  ultimately show ?thesis using False by linarith
qed

lemma refill_upper:
  assumes "capacity l = Fin c" and "0 \<le> c" and "c \<le> maxFloat" and "rate l = Fin r" and "0 \<le> r"
    and "tokens b = Fin t" and "0 \<le> t" and "lastRefill b \<le> now" and "refill now l b = Fin v"
  shows "v \<le> t + perNano r * of_int (now - lastRefill b) + slack c"
proof -
  let ?d = "subTime now (lastRefill b)"
  have d: "0 \<le> ?d" "?d < 2 ^ 63" "?d \<le> now - lastRefill b" using subTime_nonneg [OF assms(8)] by (auto simp: subTime_def)
  obtain q where q: "Seconds ?d = Fin q" "0 \<le> q" using Seconds_nonneg [OF d(1,2)] by metis
  have "q * r * (1 + eps) \<le> (of_int ?d / 1000000000 * (1 + eps) ^ 2) * r * (1 + eps)"
    using Seconds_upper [OF d(1,2) q(1)] assms(5) by (intro mult_right_mono) simp_all
  also have "\<dots> = perNano r * of_int ?d" by (simp add: perNano_def power3_eq_cube power2_eq_square)
  also have "\<dots> \<le> perNano r * of_int (now - lastRefill b)"
  proof (rule mult_left_mono)
    show "(of_int ?d :: rat) \<le> of_int (now - lastRefill b)" using d(3) by (simp only: of_int_le_iff)
  qed (use assms(5) in simp)
  finally have main: "q * r * (1 + eps) \<le> perNano r * of_int (now - lastRefill b)" .
  have x: "0 \<le> q * r" using q(2) assms(5) by simp
  show ?thesis
  proof (cases "round64 (q * r)")
    case (Fin u)
    have u: "0 \<le> u" "u \<le> q * r * (1 + eps) + tiny" using round64_Fin [OF Fin x] round64_upper [OF x Fin] by simp_all
    have "v \<le> t + u + c * eps + tiny"
      using assms(9) q(1) assms(1,4,6) Fin u(1) by (intro capped_sum [OF _ assms(2,3) refl]) (auto simp: refill_def Let_def assms(7) split: if_splits)
    with u(2) main show ?thesis by (simp add: slack_def)
  next
    case PosInf
    then have "v = c" using assms(1,4,6,9) q(1) by (simp add: refill_def)
    with round64_overflow [OF x PosInf] main assms(2,3,7) tiny_pos(2) mult_nonneg_nonneg [OF assms(2) eps_pos(2)] show ?thesis
      unfolding slack_def by linarith
  qed (use round64_nonneg [OF x] in auto)
qed

section \<open>The potential of a client\<close>

definition potential :: "rat \<Rightarrow> rat \<Rightarrow> int \<Rightarrow> string \<Rightarrow> Limiter \<Rightarrow> rat" where
  "potential c r now key l =
    (case buckets l key of
       None \<Rightarrow> c
     | Some b \<Rightarrow> (case tokens b of Fin t \<Rightarrow> min c (t + perNano r * of_int (now - lastRefill b)) | _ \<Rightarrow> c))"

definition limits :: "rat \<Rightarrow> rat \<Rightarrow> Limiter \<Rightarrow> bool" where
  "limits c r l \<longleftrightarrow> capacity l = Fin c \<and> rate l = Fin r \<and> 1 \<le> c \<and> c \<le> 2 ^ 53 \<and> representable c \<and> 0 \<le> r
     \<and> 0 < bucketTTL l \<and> c \<le> r * of_int (bucketTTL l) / 1000000000"

lemma potential_le: "potential c r now key l \<le> c"
  by (auto simp: potential_def split: option.split float64.split)

lemma potential_time:
  assumes "0 \<le> r" and "now \<le> later"
  shows "potential c r later key l \<le> potential c r now key l + perNano r * of_int (later - now)"
proof -
  have pos: "0 \<le> perNano r * of_int (later - now)" using assms by simp
  have split: "t + perNano r * of_int (later - b) = t + perNano r * of_int (now - b) + perNano r * of_int (later - now)" for b t
    by (simp add: distrib_left [symmetric])
  show ?thesis
  proof (cases "buckets l key")
    case (Some b)
    show ?thesis
    proof (cases "tokens b")
      case (Fin t)
      have "min c (x + y) \<le> min c x + y" if "0 \<le> y" for x y :: rat using that by (auto simp: min_def)
      from this [OF pos, of "t + perNano r * of_int (now - lastRefill b)"] Some Fin show ?thesis
        unfolding split [of t "lastRefill b", symmetric] by (simp add: potential_def)
    qed (use Some pos in \<open>simp_all add: potential_def\<close>)
  qed (use pos in \<open>simp add: potential_def\<close>)
qed

lemma perNano_ge: "0 \<le> r \<Longrightarrow> r / 1000000000 \<le> perNano r"
proof -
  assume r: "0 \<le> r"
  have "1 \<le> (1 + eps) ^ 3" by (rule one_le_power) simp
  with r have "r * 1 \<le> r * (1 + eps) ^ 3" by (intro mult_left_mono) simp_all
  then show ?thesis by (simp add: perNano_def divide_right_mono)
qed

lemma potential_cleanup:
  assumes "limits c r l" and "limiterInv now l"
  shows "potential c r now key (cleanupExpiredBuckets now l) \<le> potential c r now key l"
proof (cases "buckets (cleanupExpiredBuckets now l) key = buckets l key")
  case False
  then obtain b where b: "buckets l key = Some b" and old: "lastRefill b < now - bucketTTL l"
    by (auto simp: cleanupExpiredBuckets_def expired_def split: if_splits option.splits)
  obtain t where t: "tokens b = Fin t" "0 \<le> t" using assms(2) b by (auto simp: limiterInv_def bucketOk_def)
  have "c \<le> r / 1000000000 * of_int (bucketTTL l)" using assms(1) by (simp add: limits_def)
  also have "\<dots> \<le> perNano r * of_int (now - lastRefill b)"
    using assms(1) old perNano_ge [of r] by (intro mult_mono) (simp_all add: limits_def)
  finally have "potential c r now key l = c" using b t by (simp add: potential_def)
  with potential_le show ?thesis by simp
qed (simp add: potential_def)

lemma Allow_frames:
  "Allow now key l = (ok, l') \<Longrightarrow> capacity l' = capacity l \<and> rate l' = rate l \<and> bucketTTL l' = bucketTTL l"
  by (auto simp: Allow_def Let_def split: option.splits if_splits)

lemma limits_Allow: "limits c r l \<Longrightarrow> Allow now key l = (ok, l') \<Longrightarrow> limits c r l'"
  using Allow_frames by (simp add: limits_def)

text \<open>A call spends from the potential of its client what it allows, up to the error.\<close>

lemma potential_own:
  assumes "limits c r l0" and "limiterInv now l0" and "Allow now key l0 = (ok, l')"
  shows "(if ok then 1 else 0) + potential c r now key l' \<le> potential c r now key l0 + slack c"
proof -
  define l where "l = cleanupExpiredBuckets now l0"
  have lim: "capacity l = Fin c" "rate l = Fin r" "1 \<le> c" "c \<le> 2 ^ 53" "representable c" "0 \<le> r"
    using assms(1) by (simp_all add: l_def limits_def)
  have inv: "limiterInv now l" using limiterInv_cleanup [OF assms(2)] by (simp add: l_def)
  have less: "potential c r now key l \<le> potential c r now key l0" using potential_cleanup [OF assms(1,2)] by (simp add: l_def)
  have slack: "0 \<le> slack c" using lim(3) by simp
  have "(if ok then 1 else 0) + potential c r now key l' \<le> potential c r now key l + slack c"
  proof (cases "buckets l key")
    case None
    then have "ok" "buckets l' key = Some \<lparr>tokens = Fin (c - 1), lastRefill = now\<rparr>"
      using assms(3) lim subF_one_exact [of c] by (auto simp: Allow_def Let_def l_def [symmetric])
    with None lim slack show ?thesis by (simp add: potential_def)
  next
    case (Some b)
    then have ok: "bucketOk now (capacity l) b" using inv by (simp add: limiterInv_def)
    then obtain t where t: "tokens b = Fin t" "0 \<le> t" "lastRefill b \<le> now" by (auto simp: bucketOk_def)
    obtain v where v: "refill now l b = Fin v" "representable v" "0 \<le> v" "v \<le> c"
      using refill_bounded [OF _ ok] inv lim(1) by (auto simp: limiterInv_def)
    have "c \<le> maxFloat" using lim(4) max_float_large by linarith
    then have "v \<le> t + perNano r * of_int (now - lastRefill b) + slack c"
      using lim t v(1) by (intro refill_upper) simp_all
    then have "v \<le> potential c r now key l + slack c" using Some t(1) v(4) slack by (simp add: potential_def min_def)
    moreover have "(if ok then 1 else 0) + potential c r now key l' = v"
      using Some v lim(4) assms(3) subF_one_exact [of v]
      by (cases "v < 1") (auto simp: Allow_def Let_def l_def [symmetric] potential_def)
    ultimately show ?thesis by simp
  qed
  with less show ?thesis by linarith
qed

lemma potential_other:
  assumes "limits c r l0" and "limiterInv now l0" and "Allow now other l0 = (ok, l')" and "other \<noteq> key"
  shows "potential c r now key l' \<le> potential c r now key l0"
proof -
  have "buckets l' key = buckets (cleanupExpiredBuckets now l0) key"
    using assms(3,4) by (auto simp: Allow_def Let_def split: option.splits if_splits)
  then have "potential c r now key l' = potential c r now key (cleanupExpiredBuckets now l0)" by (simp add: potential_def)
  with potential_cleanup [OF assms(1,2)] show ?thesis by simp
qed

section \<open>A window of time\<close>

definition allowed :: "string \<Rightarrow> (int \<times> string) list \<Rightarrow> Limiter \<Rightarrow> nat" where
  "allowed key calls l = length (filter (\<lambda>ok. ok) (answersFor key calls l))"

definition callsOf :: "string \<Rightarrow> (int \<times> string) list \<Rightarrow> nat" where
  "callsOf key calls = length (filter (\<lambda>call. snd call = key) calls)"

lemma allowed_potential:
  "limits c r l \<Longrightarrow> limiterInv start l \<Longrightarrow> sorted (start # map fst calls) \<Longrightarrow>
   of_nat (allowed key calls l) \<le> potential c r start key l
     + perNano r * of_int (last (start # map fst calls) - start) + of_nat (callsOf key calls) * slack c"
proof (induction calls arbitrary: start l)
  case Nil
  have "0 \<le> potential c r start key l"
  proof (cases "buckets l key")
    case (Some b)
    then obtain t where "tokens b = Fin t" "0 \<le> t" "lastRefill b \<le> start"
      using Nil.prems(2) by (auto simp: limiterInv_def bucketOk_def)
    moreover from this have "0 \<le> perNano r * of_int (start - lastRefill b)" using Nil.prems(1) by (simp add: limits_def)
    ultimately show ?thesis using Some Nil.prems(1) by (simp add: potential_def limits_def del: of_int_diff)
  qed (use Nil in \<open>simp add: potential_def limits_def\<close>)
  then show ?case by (simp add: allowed_def answersFor_def callsOf_def)
next
  case (Cons call calls)
  obtain now k where call: "call = (now, k)" by fastforce
  obtain ok l' where run: "Allow now k l = (ok, l')" by fastforce
  have time: "start \<le> now" and sorted: "sorted (now # map fst calls)" using Cons.prems(3) by (simp_all add: call)
  have inv: "limiterInv now l" using limiterInv_later [OF Cons.prems(2) time] .
  have r: "0 \<le> r" using Cons.prems(1) by (simp add: limits_def)
  let ?last = "last (now # map fst calls)"
  have IH: "of_nat (allowed key calls l') \<le> potential c r now key l' + perNano r * of_int (?last - now) + of_nat (callsOf key calls) * slack c"
    using Cons.IH [OF limits_Allow [OF Cons.prems(1) run] limiterInv_Allow [OF inv run] sorted] .
  have step: "(if ok \<and> k = key then 1 else 0) + potential c r now key l'
      \<le> potential c r now key l + (if k = key then slack c else 0)"
    using potential_own [OF Cons.prems(1) inv] potential_other [OF Cons.prems(1) inv run] run by (cases "k = key") auto
  have split: "perNano r * of_int (?last - start) = perNano r * of_int (now - start) + perNano r * of_int (?last - now)"
    by (simp add: distrib_left [symmetric])
  have "allowed key (call # calls) l = (if ok \<and> k = key then 1 else 0) + allowed key calls l'"
    unfolding allowed_def call answersFor_Cons [OF run] by simp
  then have "of_nat (allowed key (call # calls) l) = (if ok \<and> k = key then 1 else 0) + (of_nat (allowed key calls l') :: rat)" by simp
  moreover have "of_nat (callsOf key (call # calls)) * slack c = (if k = key then slack c else 0) + of_nat (callsOf key calls) * slack c"
    by (simp add: callsOf_def call distrib_right)
  moreover have "last (start # map fst (call # calls)) = ?last" by (simp add: call)
  ultimately show ?case using IH step potential_time [OF r time, of c key l] split by simp
qed

section \<open>Property\<close>

lemma limits_allowAll: "limits c r l \<Longrightarrow> limits c r (snd (allowAll calls l))"
proof (induction calls arbitrary: l)
  case (Cons call calls)
  obtain now k where call: "call = (now, k)" by fastforce
  obtain ok l' where run: "Allow now k l = (ok, l')" by fastforce
  from Cons.IH [OF limits_Allow [OF Cons.prems run]] show ?case by (simp add: call run allowAll_Cons del: allowAll.simps)
qed simp

text \<open>
  C13. The rate limit holds in the arithmetic of the machine. Whatever was called before, in every later window of time
  a client gets at most the capacity and the rate times the length of the window, up to a
  relative error of the rate below 2 to the -51 and an error of the capacity times 2 to the -53
  per call of this client. The capacity is at least one call and at most 2 to the 53, and the time
  after which an idle bucket is dropped must be long enough to fill it.
\<close>

theorem window_allows_at_most_rate:
  assumes "representable c" and "1 \<le> c" and "c \<le> 2 ^ 53" and "0 \<le> r" and "c \<le> r * 600"
    and "sorted (start # map fst (before @ calls))"
    and "l = snd (allowAll before (NewLimiter start (Fin r) (Fin c)))"
    and "from = last (start # map fst before)" and "until = last (from # map fst calls)"
  shows "of_nat (allowed key calls l) \<le> c + r * (1 + eps) ^ 3 * (of_int (until - from) / 1000000000)
    + of_nat (callsOf key calls) * (c * eps + 2 * tiny)"
proof -
  have "c \<le> maxFloat" using assms(3) max_float_large by linarith
  then have inv0: "limiterInv start (NewLimiter start (Fin r) (Fin c))"
    using assms(1-4) by (simp add: limiterInv_def paramsOk_def NewLimiter_def NewWithTTL_def minutes_def)
  have lim0: "limits c r (NewLimiter start (Fin r) (Fin c))"
    using assms(1-5) by (simp add: limits_def NewLimiter_def NewWithTTL_def minutes_def)
  have pre: "sorted (start # map fst before)" using assms(6) by (simp add: sorted_append)
  have "sorted (from # map fst calls)" using assms(6,8) by (auto simp: sorted_append last_map)
  with limiterInv_allowAll [OF inv0 pre] limits_allowAll [OF lim0] assms(7-9)
  have "of_nat (allowed key calls l) \<le> potential c r from key l + perNano r * of_int (until - from) + of_nat (callsOf key calls) * slack c"
    by (metis allowed_potential)
  with potential_le [of c r "from" key l] show ?thesis by (simp add: perNano_def slack_def)
qed

theorem window_allows_at_most_rate_witness:
  "of_nat (allowed ''a'' [(1000000000, ''a''), (3000000000, ''a'')] (snd (allowAll [(0, ''a'')] (NewLimiter 0 (Fin 5) (Fin 10)))))
   \<le> 10 + 5 * (1 + eps) ^ 3 * 3 + of_nat (callsOf ''a'' [(1000000000, ''a''), (3000000000, ''a'')]) * (10 * eps + 2 * tiny)"
  using window_allows_at_most_rate [of 10 5 0 "[(0, ''a'')]" "[(1000000000, ''a''), (3000000000, ''a'')]"
      "snd (allowAll [(0, ''a'')] (NewLimiter 0 (Fin 5) (Fin 10)))" 0 3000000000 "''a''"] representable_int [of 10]
  by simp

end
