(* ===== verification/Lab_Statistics.thy ===== *)
theory Lab_Statistics
  imports Lab_Duration "HOL-Library.Multiset"
begin

text \<open>
  The statistics of \<^verbatim>\<open>cmd/lab/main.go\<close>: the summary of the latencies of a benchmark, its percentiles, and the medians over
  several reports. Durations are 64-bit numbers of nanoseconds and sums wrap around; the rank of a
  percentile is computed in rounding floating point numbers.
\<close>

section \<open>The order of floating point numbers\<close>

text \<open>The order of \<open>sort.Float64s\<close>: values that are not a number come first.\<close>

instantiation float64 :: linorder
begin

fun less_eq_float64 :: "float64 \<Rightarrow> float64 \<Rightarrow> bool" where
  "less_eq_float64 NaN b = True"
| "less_eq_float64 a NaN = (a = NaN)"
| "less_eq_float64 NegInf b = True"
| "less_eq_float64 a NegInf = False"
| "less_eq_float64 a PosInf = True"
| "less_eq_float64 PosInf b = False"
| "less_eq_float64 (Fin x) (Fin y) = (x \<le> y)"

definition less_float64 :: "float64 \<Rightarrow> float64 \<Rightarrow> bool" where
  "less_float64 a b \<longleftrightarrow> a \<le> b \<and> \<not> b \<le> a"

instance
proof
  fix a b c :: float64
  show "a < b \<longleftrightarrow> a \<le> b \<and> \<not> b \<le> a" by (rule less_float64_def)
  show "a \<le> a" by (cases a) simp_all
  show "a \<le> c" if "a \<le> b" "b \<le> c" using that by (cases a; cases b; cases c) simp_all
  show "a = b" if "a \<le> b" "b \<le> a" using that by (cases a; cases b) simp_all
  show "a \<le> b \<or> b \<le> a" by (cases a; cases b) auto
qed

end

section \<open>Latencies\<close>

definition wrap64 :: "int \<Rightarrow> int" where
  "wrap64 n = (n + 2 ^ 63) mod 2 ^ 64 - 2 ^ 63"

record latencySummary =
  Average :: int
  MinLatency :: int
  P50 :: int
  P95 :: int
  P99 :: int
  MaxLatency :: int

text \<open>\<open>int(math.Ceil(x))\<close> of a finite number.\<close>

definition ceilInt :: "float64 \<Rightarrow> int" where
  "ceilInt f = (case f of Fin x \<Rightarrow> \<lceil>x\<rceil> | _ \<Rightarrow> 0)"

definition percentileIndex :: "nat \<Rightarrow> float64 \<Rightarrow> nat" where
  "percentileIndex n p =
    (let index = ceilInt (mulF (float64OfInt (int n)) p) - 1;
         index = (if index < 0 then 0 else index)
     in nat (if int n \<le> index then int n - 1 else index))"

definition percentile :: "int list \<Rightarrow> float64 \<Rightarrow> int" where
  "percentile xs p =
    (if xs = [] then 0
     else if leF p (Fin 0) then xs ! 0
     else if leF (Fin 1) p then xs ! (length xs - 1)
     else xs ! percentileIndex (length xs) p)"

definition summarizeLatencies :: "int list \<Rightarrow> latencySummary" where
  "summarizeLatencies samples =
    (if samples = [] then \<lparr>Average = 0, MinLatency = 0, P50 = 0, P95 = 0, P99 = 0, MaxLatency = 0\<rparr>
     else
      (let xs = sort samples; total = fold (\<lambda>sample total. wrap64 (total + sample)) xs 0
       in \<lparr>Average = quot total (int (length xs)), MinLatency = xs ! 0,
           P50 = percentile xs (round64 (50 / 100)), P95 = percentile xs (round64 (95 / 100)),
           P99 = percentile xs (round64 (99 / 100)), MaxLatency = xs ! (length xs - 1)\<rparr>))"

section \<open>Medians\<close>

text \<open>An index out of range, which panics, is \<open>None\<close>.\<close>

definition medianFloat64 :: "float64 list \<Rightarrow> float64 option" where
  "medianFloat64 values =
    (let xs = sort values; mid = length xs div 2 in
     if length xs mod 2 = 1 then Some (xs ! mid)
     else if mid = 0 then None
     else Some (divF (addF (xs ! (mid - 1)) (xs ! mid)) (Fin 2)))"

definition medianDuration :: "int list \<Rightarrow> int option" where
  "medianDuration values =
    (let xs = sort values; mid = length xs div 2 in
     if length xs mod 2 = 1 then Some (xs ! mid)
     else if mid = 0 then None
     else Some (quot (wrap64 (xs ! (mid - 1) + xs ! mid)) 2))"

section \<open>Ranks\<close>

text \<open>The computed rank: off by less than one part in a hundred.\<close>

lemma relative_twice:
  fixes x y r :: rat
  assumes "x * (1 - eps) \<le> y" "y \<le> x * (1 + eps)" and "y * (1 - eps) \<le> r" "r \<le> y * (1 + eps)" and "0 \<le> x" "x \<le> 2 ^ 40"
  shows "x - 1 / 1000 < r" and "r < x + 1 / 1000"
  using assms by (simp_all add: eps_eq)

lemma rank_product:
  assumes p: "1 / 2 \<le> p" "p \<le> 99 / 100" and n: "0 < n" "n < 2 ^ 40"
  obtains q r where "round64 p = Fin q" and "0 < q" and "q < 1" and "mulF (float64OfInt (int n)) (Fin q) = Fin r"
    and "of_nat n * p - 1 / 1000 < r" and "r < of_nat n * p + 1 / 1000"
proof -
  obtain q where q: "round64 p = Fin q" "p * (1 - eps) \<le> q" "q \<le> p * (1 + eps)"
    using round64_relative [of p] p by auto
  have "1 / 2 * (1 - eps) \<le> p * (1 - eps)" "p * (1 + eps) \<le> 99 / 100 * (1 + eps)"
    using p by (intro mult_right_mono; simp add: eps_eq)+
  then have q1: "1 / 4 \<le> q" "q < 1" using q(2,3) by (simp_all add: eps_eq)
  have n': "1 \<le> (of_nat n :: rat)" "(of_nat n :: rat) \<le> 2 ^ 40"
    using n by (simp_all add: Suc_leI)
  have "1 * (1 / 4) \<le> of_nat n * q" "of_nat n * q \<le> 2 ^ 40 * 1" using n' q1 by (intro mult_mono; simp)+
  then obtain r where r: "round64 (of_nat n * q) = Fin r" "of_nat n * q * (1 - eps) \<le> r" "r \<le> of_nat n * q * (1 + eps)"
    using round64_relative [of "of_nat n * q"] by auto
  have "of_nat n * p * (1 - eps) \<le> of_nat n * q" "of_nat n * q \<le> of_nat n * p * (1 + eps)"
    unfolding mult.assoc using q n' by (intro mult_left_mono; simp)+
  moreover have "0 \<le> of_nat n * p" "of_nat n * p \<le> 2 ^ 40 * 1" using n' p by simp (use n' p in \<open>intro mult_mono; simp\<close>)
  ultimately have "of_nat n * p - 1 / 1000 < r" "r < of_nat n * p + 1 / 1000"
    using relative_twice [OF _ _ r(2,3)] by simp_all
  moreover have "mulF (float64OfInt (int n)) (Fin q) = Fin r"
    using round64_int [of "int n"] n(2) r(1) by (simp add: float64OfInt_def)
  ultimately show ?thesis using that [OF q(1)] q1 by simp
qed

text \<open>
  For a percentile of whole hundredths the rank is that of the definition of a quantile: at least this share of the
  samples is at most the value, and at most this share is smaller.
\<close>

lemma hundredths: "50 \<le> h \<Longrightarrow> h \<le> 99 \<Longrightarrow> 1 / 2 \<le> (of_nat h / 100 :: rat) \<and> of_nat h / 100 \<le> (99 / 100 :: rat)"
  by (simp add: divide_simps)

lemma hundredths_rank:
  assumes "50 \<le> h" "h \<le> 99" and "0 < n" "n < 2 ^ 40" and "round64 (of_nat h / 100) = Fin q"
  obtains r where "0 < q" and "q < 1" and "mulF (float64OfInt (int n)) (Fin q) = Fin r"
    and "of_nat n * (of_nat h / 100) - 1 / 1000 < r" and "r < of_nat n * (of_nat h / 100) + 1 / 1000"
  using rank_product [of "of_nat h / 100" n] hundredths [OF assms(1,2)] assms(3-5) by (metis float64.inject)

lemma percentileIndex_bounds:
  assumes h: "50 \<le> h" "h \<le> 99" and n: "0 < n" "n < 2 ^ 40" and q: "round64 (of_nat h / 100) = Fin q"
  shows "h * n \<le> 100 * (percentileIndex n (Fin q) + 1)" and "100 * percentileIndex n (Fin q) \<le> h * n" and "percentileIndex n (Fin q) < n"
proof -
  obtain r where r: "mulF (float64OfInt (int n)) (Fin q) = Fin r"
      "of_nat n * (of_nat h / 100) - 1 / 1000 < r" "r < of_nat n * (of_nat h / 100) + 1 / 1000"
    using hundredths_rank [OF assms] .
  define k where "k = h * n"
  define c where "c = \<lceil>r\<rceil>"
  have c: "r \<le> of_int c" "of_int c < r + 1" unfolding c_def by (simp_all add: le_of_int_ceiling) linarith
  have "(of_nat k :: rat) = of_nat n * (of_nat h / 100) * 100" by (simp add: k_def)
  with c r(2,3) have "of_int (int k) < (of_int (100 * c + 1) :: rat)" "of_int (100 * (c - 1)) < (of_int (int k + 1) :: rat)"
    by simp_all
  then have b: "int k \<le> 100 * c" "100 * (c - 1) \<le> int k" unfolding of_int_less_iff by simp_all
  have k: "50 * n \<le> k" "k \<le> 99 * n" using h by (simp_all add: k_def)
  have c1: "1 \<le> c" using b(1) k(1) n(1) by linarith
  have "100 * (c - 1) \<le> 99 * int n" using b(2) k(2) by linarith
  then have c2: "c - 1 < int n" using n(1) by simp
  from c1 c2 have "int (percentileIndex n (Fin q)) = c - 1"
    by (simp add: percentileIndex_def r(1) ceilInt_def c_def [symmetric])
  with b c2 show "h * n \<le> 100 * (percentileIndex n (Fin q) + 1)" and "100 * percentileIndex n (Fin q) \<le> h * n" and "percentileIndex n (Fin q) < n"
    unfolding k_def [symmetric] by simp_all
qed

section \<open>Quantiles\<close>

lemma percentile_eq:
  assumes "50 \<le> h" "h \<le> 99" and "0 < length xs" "length xs < 2 ^ 40"
  obtains q where "round64 (of_nat h / 100) = Fin q" and "percentile xs (round64 (of_nat h / 100)) = xs ! percentileIndex (length xs) (Fin q)"
proof -
  obtain q where "round64 (of_nat h / 100) = Fin q" "0 < q" "q < 1"
    using rank_product [of "of_nat h / 100" "length xs"] hundredths [OF assms(1,2)] assms(3,4) by metis
  with that [of q] assms(3) show ?thesis by (auto simp: percentile_def leF_def)
qed

lemma sorted_filter_le: "sorted (xs :: int list) \<Longrightarrow> i < length xs \<Longrightarrow> i < length (filter (\<lambda>x. x \<le> xs ! i) xs)"
proof -
  assume xs: "sorted xs" "i < length xs"
  have "filter (\<lambda>x. x \<le> xs ! i) (take (Suc i) xs) = take (Suc i) xs"
    using xs by (auto simp: filter_id_conv in_set_conv_nth less_Suc_eq_le intro!: sorted_nth_mono)
  then have "Suc i \<le> length (filter (\<lambda>x. x \<le> xs ! i) (take (Suc i) xs @ drop (Suc i) xs))"
    unfolding filter_append using xs(2) by simp
  then show ?thesis by simp
qed

lemma sorted_filter_less: "sorted (xs :: int list) \<Longrightarrow> i < length xs \<Longrightarrow> length (filter (\<lambda>x. x < xs ! i) xs) \<le> i"
proof -
  assume xs: "sorted xs" "i < length xs"
  have "filter (\<lambda>x. x < xs ! i) (drop i xs) = []"
    using xs by (auto simp: filter_empty_conv in_set_conv_nth not_less intro!: sorted_nth_mono)
  then have "length (filter (\<lambda>x. x < xs ! i) (take i xs @ drop i xs)) \<le> length (take i xs)"
    unfolding filter_append by (simp only: append_Nil2 length_filter_le)
  then show ?thesis using xs(2) by simp
qed

lemma length_filter_sort: "length (filter P (sort xs)) = length (filter P xs)"
  by (metis mset_filter mset_sort size_mset)

definition quantile :: "nat \<Rightarrow> int \<Rightarrow> int list \<Rightarrow> bool" where
  "quantile h x samples \<longleftrightarrow> x \<in> set samples
     \<and> h * length samples \<le> 100 * length (filter (\<lambda>y. y \<le> x) samples)
     \<and> 100 * length (filter (\<lambda>y. y < x) samples) \<le> h * length samples"

lemma percentile_quantile:
  assumes "50 \<le> h" "h \<le> 99" and "samples \<noteq> []" "length samples < 2 ^ 40"
  shows "quantile h (percentile (sort samples) (round64 (of_nat h / 100))) samples"
proof -
  let ?xs = "sort samples"
  have n: "0 < length ?xs" "length ?xs < 2 ^ 40" using assms(3,4) by auto
  obtain q where q: "round64 (of_nat h / 100) = Fin q" "percentile ?xs (round64 (of_nat h / 100)) = ?xs ! percentileIndex (length ?xs) (Fin q)"
    using percentile_eq [OF assms(1,2) n] .
  note index = percentileIndex_bounds [OF assms(1,2) n q(1)]
  with sorted_filter_le [of ?xs] sorted_filter_less [of ?xs] nth_mem [OF index(3)] show ?thesis
    unfolding quantile_def q(2) by (fastforce simp: length_filter_sort)
qed

text \<open>Larger percentiles have larger ranks.\<close>

lemma round64_mono_Fin:
  assumes "0 < x" "x \<le> y" and "round64 x = Fin a" "round64 y = Fin b"
  shows "a \<le> b"
  using assms roundPos_mono [OF assms(1,2)] by (auto simp: round64_def Let_def split: if_splits)

lemma clamp_mono:
  "(a :: int) \<le> b \<Longrightarrow> nat (if m \<le> (if a < 0 then 0 else a) then m - 1 else if a < 0 then 0 else a)
    \<le> nat (if m \<le> (if b < 0 then 0 else b) then m - 1 else if b < 0 then 0 else b)"
  by (rule nat_mono) (simp split: if_splits)

lemma percentileIndex_mono:
  assumes h: "50 \<le> h" "h \<le> k" "k \<le> 99" and n: "0 < n" "n < 2 ^ 40"
    and q: "round64 (of_nat h / 100) = Fin q" "round64 (of_nat k / 100) = Fin q'"
  shows "percentileIndex n (Fin q) \<le> percentileIndex n (Fin q')"
proof -
  obtain r where r: "0 < q" "mulF (float64OfInt (int n)) (Fin q) = Fin r"
    using hundredths_rank [OF h(1) order_trans [OF h(2,3)] n q(1)] .
  obtain r' where r': "mulF (float64OfInt (int n)) (Fin q') = Fin r'"
    using hundredths_rank [OF order_trans [OF h(1,2)] h(3) n q(2)] .
  have "q \<le> q'" using q h by (intro round64_mono_Fin [OF _ _ q]) (simp_all add: divide_right_mono)
  then have "of_nat n * q \<le> of_nat n * q'" by (simp add: mult_left_mono)
  moreover have "float64OfInt (int n) = Fin (of_nat n)" using round64_int [of "int n"] n(2) by (simp add: float64OfInt_def)
  then have "round64 (of_nat n * q) = Fin r" "round64 (of_nat n * q') = Fin r'" using r(2) r' by simp_all
  ultimately have "r \<le> r'" using r(1) n(1) by (metis mult_pos_pos of_nat_0_less_iff round64_mono_Fin)
  then have "\<lceil>r\<rceil> \<le> \<lceil>r'\<rceil>" by (rule ceiling_mono)
  then show ?thesis unfolding percentileIndex_def Let_def r(2) r' ceilInt_def float64.case
    by (intro clamp_mono diff_right_mono)
qed

lemma percentile_mono:
  assumes "50 \<le> h" "h \<le> k" "k \<le> 99" and "samples \<noteq> []" "length samples < 2 ^ 40"
  shows "percentile (sort samples) (round64 (of_nat h / 100)) \<le> percentile (sort samples) (round64 (of_nat k / 100))"
proof -
  let ?xs = "sort samples"
  have n: "0 < length ?xs" "length ?xs < 2 ^ 40" and hk: "h \<le> 99" "50 \<le> k" using assms by auto
  obtain q where q: "round64 (of_nat h / 100) = Fin q" "percentile ?xs (round64 (of_nat h / 100)) = ?xs ! percentileIndex (length ?xs) (Fin q)"
    using percentile_eq [OF assms(1) hk(1) n] .
  obtain q' where q': "round64 (of_nat k / 100) = Fin q'" "percentile ?xs (round64 (of_nat k / 100)) = ?xs ! percentileIndex (length ?xs) (Fin q')"
    using percentile_eq [OF hk(2) assms(3) n] .
  show ?thesis unfolding q(2) q'(2)
    using percentileIndex_mono [OF assms(1-3) n q(1) q'(1)] percentileIndex_bounds(3) [OF hk(2) assms(3) n q'(1)]
    by (intro sorted_nth_mono) auto
qed

section \<open>The average\<close>

lemma wrap64_id: "- (2 ^ 63) \<le> n \<Longrightarrow> n < 2 ^ 63 \<Longrightarrow> wrap64 n = n"
  by (simp add: wrap64_def)

lemma fold_wrap64:
  assumes "list_all (\<lambda>x. 0 \<le> x) xs" and "0 \<le> t" and "t + sum_list xs < 2 ^ 63"
  shows "fold (\<lambda>sample total. wrap64 (total + sample)) xs t = t + sum_list xs"
  using assms
proof (induction xs arbitrary: t)
  case (Cons x xs)
  have "0 \<le> sum_list xs" using Cons.prems(1) by (auto simp: list_all_iff intro: sum_list_nonneg)
  with Cons wrap64_id [of "t + x"] show ?case by simp
qed simp

lemma average_between:
  assumes "\<And>x. x \<in> set xs \<Longrightarrow> a \<le> x \<and> x \<le> b" and "0 \<le> a" and "xs \<noteq> []"
  shows "a \<le> quot (sum_list xs) (int (length xs))" and "quot (sum_list xs) (int (length xs)) \<le> b"
proof -
  have sum: "a * int (length xs) \<le> sum_list xs \<and> sum_list xs \<le> b * int (length xs)" using assms(1)
    by (induction xs) (fastforce simp: algebra_simps)+
  have n: "0 < int (length xs)" using assms(3) by simp
  have "0 \<le> a * int (length xs)" using assms(2) by simp
  with sum have "quot (sum_list xs) (int (length xs)) = sum_list xs div int (length xs)" by (simp add: quot_def)
  moreover have "a \<le> sum_list xs div int (length xs)" using zdiv_mono1 [OF conjunct1 [OF sum] n] n by simp
  moreover have "sum_list xs div int (length xs) \<le> b" using zdiv_mono1 [OF conjunct2 [OF sum] n] n by simp
  ultimately show "a \<le> quot (sum_list xs) (int (length xs))" and "quot (sum_list xs) (int (length xs)) \<le> b" by simp_all
qed

lemma sum_list_sort: "sum_list (sort xs) = sum_list (xs :: int list)"
  by (metis mset_sort sum_mset_sum_list)

lemma sort_nonempty: "sort xs \<noteq> [] \<longleftrightarrow> xs \<noteq> []"
  by (metis set_empty set_sort)

lemma sorted_ends:
  assumes "sorted (xs :: int list)" and "xs \<noteq> []"
  shows "xs ! 0 = Min (set xs)" and "xs ! (length xs - 1) = Max (set xs)"
proof -
  have "xs ! 0 \<le> x \<and> x \<le> xs ! (length xs - 1)" if "x \<in> set xs" for x
    using that assms(1) by (auto simp: in_set_conv_nth intro!: sorted_nth_mono)
  then show "xs ! 0 = Min (set xs)" and "xs ! (length xs - 1) = Max (set xs)"
    using assms(2) by (auto intro!: Min_eqI [symmetric] Max_eqI [symmetric])
qed

section \<open>Properties\<close>

text \<open>
  C32. The summary of the latencies of a run says what its names say, for fewer than 2 to the 40
  samples whose sum fits into 64 bits: the reported 50th, 95th and 99th percentiles are quantiles
  of the samples, in spite of the rounding of the rank, they are ordered between the smallest and the
  largest sample, the average is the mean rounded down and lies between them too, and
  the summary does not depend on the order in which the workers recorded the samples.
\<close>

theorem latency_summary_correct:
  assumes "samples \<noteq> []" and "length samples < 2 ^ 40" and "list_all (\<lambda>x. 0 \<le> x) samples" and "sum_list samples < 2 ^ 63"
    and s_def: "s = summarizeLatencies samples"
  shows "quantile 50 (P50 s) samples \<and> quantile 95 (P95 s) samples \<and> quantile 99 (P99 s) samples
    \<and> MinLatency s = Min (set samples) \<and> MaxLatency s = Max (set samples)
    \<and> P50 s \<le> P95 s \<and> P95 s \<le> P99 s \<and> P99 s \<le> MaxLatency s \<and> MinLatency s \<le> P50 s
    \<and> Average s = sum_list samples div int (length samples) \<and> MinLatency s \<le> Average s \<and> Average s \<le> MaxLatency s
    \<and> (mset other = mset samples \<longrightarrow> summarizeLatencies other = s)"
proof -
  have n: "0 < length samples" using assms(1) by simp
  have nonneg: "0 \<le> sum_list samples" using assms(3) by (auto simp: list_all_iff intro: sum_list_nonneg)
  have total: "fold (\<lambda>sample total. wrap64 (total + sample)) (sort samples) 0 = sum_list samples"
    using fold_wrap64 [of "sort samples" 0] assms(3,4) sum_list_sort [of samples] by (simp add: list_all_iff)
  have s: "P50 s = percentile (sort samples) (round64 (of_nat 50 / 100))" "P95 s = percentile (sort samples) (round64 (of_nat 95 / 100))"
      "P99 s = percentile (sort samples) (round64 (of_nat 99 / 100))" "MinLatency s = sort samples ! 0"
      "MaxLatency s = sort samples ! (length samples - 1)" "Average s = quot (sum_list samples) (int (length samples))"
    using assms(1) total by (simp_all add: s_def summarizeLatencies_def Let_def)
  note q = percentile_quantile [OF _ _ assms(1,2)] and le = percentile_mono [OF _ _ _ assms(1,2)]
  have ends: "MinLatency s = Min (set samples)" "MaxLatency s = Max (set samples)"
    using sorted_ends [of "sort samples"] assms(1) by (simp_all add: s sort_nonempty)
  have "quantile 50 (P50 s) samples" "quantile 95 (P95 s) samples" "quantile 99 (P99 s) samples" "P50 s \<le> P95 s" "P95 s \<le> P99 s"
    unfolding s(1-3) by (rule q le; simp)+
  moreover from this have "MinLatency s \<le> P50 s" "P99 s \<le> MaxLatency s" unfolding ends by (simp_all add: quantile_def)
  moreover have "MinLatency s \<le> Average s" "Average s \<le> MaxLatency s"
    using average_between [of samples "MinLatency s" "MaxLatency s"] assms(1,3) by (simp_all add: s(6) ends list_all_iff)
  moreover have "Average s = sum_list samples div int (length samples)" using nonneg by (simp add: s quot_def)
  moreover have "summarizeLatencies other = s" if "mset other = mset samples"
    using that unfolding s_def summarizeLatencies_def by (metis mset_zero_iff sorted_list_of_multiset_mset)
  ultimately show ?thesis using ends by blast
qed

theorem latency_summary_correct_witness:
  "quantile 95 (P95 (summarizeLatencies [30, 10, 20])) [30, 10, 20] \<and> Average (summarizeLatencies [30, 10, 20]) = 20
   \<and> MaxLatency (summarizeLatencies [30, 10, 20]) = 30"
  using latency_summary_correct [of "[30, 10, 20]" "summarizeLatencies [30, 10, 20]" "[]"] by simp

end
