(* ===== verification/Lab_Median.thy ===== *)
theory Lab_Median
  imports Lab_Statistics
begin

text \<open>
  What a median is, without sorting: a middle element by the numbers of smaller and larger elements, or the mean of the two in the middle. The functions of
  \<^verbatim>\<open>cmd/lab/main.go\<close> compute it for durations that are not longer than 146 years; above this the sum of two durations overflows.
\<close>

section \<open>Order statistics\<close>

text \<open>\<open>v\<close> stands at position \<open>k\<close> when the elements are in order.\<close>

definition kth :: "'a :: linorder list \<Rightarrow> nat \<Rightarrow> 'a \<Rightarrow> bool" where
  "kth xs k v \<longleftrightarrow> length (filter (\<lambda>x. x < v) xs) \<le> k \<and> k < length (filter (\<lambda>x. x \<le> v) xs)"

lemma kth_sorted:
  assumes "sorted ys" and "k < length ys"
  shows "kth ys k (ys ! k)"
proof -
  have tail: "drop k ys = ys ! k # drop (Suc k) ys" using assms(2) by (simp add: Cons_nth_drop_Suc)
  then have "sorted (ys ! k # drop (Suc k) ys)" using sorted_wrt_drop [OF assms(1), of k] by simp
  then have "filter (\<lambda>x. x < ys ! k) (drop k ys) = []" unfolding tail by (auto simp: filter_empty_conv)
  then have "filter (\<lambda>x. x < ys ! k) ys = filter (\<lambda>x. x < ys ! k) (take k ys)"
    by (metis append_Nil2 append_take_drop_id filter_append)
  then have "length (filter (\<lambda>x. x < ys ! k) ys) \<le> k" by (metis le_trans length_filter_le length_take min.cobounded2)
  moreover have "filter (\<lambda>x. x \<le> ys ! k) (take (Suc k) ys) = take (Suc k) ys"
    using sorted_wrt_take [OF assms(1), of "Suc k"] assms(2) by (auto simp: filter_id_conv take_Suc_conv_app_nth sorted_append)
  then have "length (filter (\<lambda>x. x \<le> ys ! k) (take (Suc k) ys @ drop (Suc k) ys)) = Suc k + length (filter (\<lambda>x. x \<le> ys ! k) (drop (Suc k) ys))"
    using assms(2) unfolding filter_append by simp
  then have "Suc k \<le> length (filter (\<lambda>x. x \<le> ys ! k) ys)" by simp
  ultimately show ?thesis by (simp add: kth_def)
qed

lemma kth_sort: "k < length xs \<Longrightarrow> kth xs k (sort xs ! k)"
  using kth_sorted [of "sort xs" k] by (simp add: kth_def length_filter_sort)

text \<open>There is only one such element.\<close>

lemma kth_unique:
  assumes "kth xs k v" and "kth xs k w"
  shows "v = w"
proof (rule ccontr)
  have less: False if "kth xs k a" "kth xs k b" "a < b" for a b
  proof -
    have "length (filter (\<lambda>x. x \<le> a) xs) \<le> length (filter (\<lambda>x. x < b) xs)"
      using that(3) by (induction xs) auto
    with that(1,2) show False by (simp add: kth_def)
  qed
  assume "v \<noteq> w"
  with less [OF assms] less [OF assms(2,1)] show False by (cases v w rule: linorder_cases) auto
qed

section \<open>Medians\<close>

text \<open>The mean of two integers, rounded towards zero.\<close>

definition meanOf :: "int \<Rightarrow> int \<Rightarrow> int \<Rightarrow> bool" where
  "meanOf a b m \<longleftrightarrow> \<bar>2 * m - (a + b)\<bar> \<le> 1 \<and> \<bar>2 * m\<bar> \<le> \<bar>a + b\<bar>"

definition medianOf :: "int list \<Rightarrow> int \<Rightarrow> bool" where
  "medianOf xs m \<longleftrightarrow>
     (let mid = length xs div 2 in
      if odd (length xs) then kth xs mid m else (\<exists>a b. kth xs (mid - 1) a \<and> kth xs mid b \<and> meanOf a b m))"

text \<open>For floating point numbers the mean is the rounded one.\<close>

definition medianOfF :: "float64 list \<Rightarrow> float64 \<Rightarrow> bool" where
  "medianOfF xs m \<longleftrightarrow>
     (let mid = length xs div 2 in
      if odd (length xs) then kth xs mid m else (\<exists>a b. kth xs (mid - 1) a \<and> kth xs mid b \<and> m = divF (addF a b) (Fin 2)))"

definition halfRange :: "int \<Rightarrow> bool" where
  "halfRange d \<longleftrightarrow> - (2 ^ 62) \<le> d \<and> d < 2 ^ 62"

lemma odd_or_half: "0 < (n :: nat) \<Longrightarrow> n mod 2 = 1 \<or> n div 2 \<noteq> 0"
  by presburger

lemma middle: "0 < (n :: nat) \<Longrightarrow> n div 2 - 1 < n \<and> n div 2 < n"
  by presburger

lemma kth_member: "kth xs k v \<Longrightarrow> v \<in> set xs"
proof (rule ccontr)
  assume "kth xs k v" "v \<notin> set xs"
  moreover from this have "filter (\<lambda>x. x \<le> v) xs = filter (\<lambda>x. x < v) xs" by (intro filter_cong) (auto simp: le_less)
  ultimately show False by (auto simp: kth_def)
qed

lemma quot_mean: "meanOf a b (quot (a + b) 2)"
  by (auto simp: meanOf_def quot_def sgn_if)

lemma wrap64_halves: "halfRange a \<Longrightarrow> halfRange b \<Longrightarrow> wrap64 (a + b) = a + b"
  by (intro wrap64_id) (simp_all add: halfRange_def)

lemma medianDuration_correct:
  assumes "xs \<noteq> []" and "list_all halfRange xs"
  shows "\<exists>m. medianDuration xs = Some m \<and> medianOf xs m"
proof (cases "odd (length xs)")
  case True
  with assms(1) kth_sort [of "length xs div 2" xs] middle [of "length xs"] show ?thesis
    by (auto simp: medianDuration_def medianOf_def Let_def odd_iff_mod_2_eq_one)
next
  case False
  let ?a = "sort xs ! (length xs div 2 - 1)" and ?b = "sort xs ! (length xs div 2)"
  have k: "kth xs (length xs div 2 - 1) ?a" "kth xs (length xs div 2) ?b"
    using assms(1) middle [of "length xs"] by (auto intro: kth_sort)
  then have "wrap64 (?a + ?b) = ?a + ?b" using assms(2) kth_member by (intro wrap64_halves) (auto simp: list_all_iff)
  with False assms(1) k quot_mean [of ?a ?b] odd_or_half [of "length xs"] show ?thesis
    by (auto simp: medianDuration_def medianOf_def Let_def odd_iff_mod_2_eq_one)
qed

lemma medianFloat64_correct:
  assumes "xs \<noteq> []"
  shows "\<exists>m. medianFloat64 xs = Some m \<and> medianOfF xs m"
proof -
  have k: "kth xs (length xs div 2 - 1) (sort xs ! (length xs div 2 - 1))" "kth xs (length xs div 2) (sort xs ! (length xs div 2))"
    using assms middle [of "length xs"] by (auto intro: kth_sort)
  with assms odd_or_half [of "length xs"] show ?thesis
    by (auto simp: medianFloat64_def medianOfF_def Let_def odd_iff_mod_2_eq_one)
qed

text \<open>Two durations of more than 146 years: their sum overflows, and the median of two equal durations is a negative one.\<close>

lemma median_of_long_durations_wraps: "medianDuration [2 ^ 63 - 1, 2 ^ 63 - 1] = Some (- 1)"
  by code_simp

end
