(* ===== verification/Lab_Benchmark.thy ===== *)
theory Lab_Benchmark
  imports Lab_Median Go_Steps "HOL-Library.AList" "HOL-Library.List_Lexorder"
begin

text \<open>
  The benchmark of \<^verbatim>\<open>cmd/lab/main.go\<close> and the summary of its reports. The workers of a run, the loop that feeds them and the timer
  of a soak run are a step relation on the state they share; what the HTTP client returns for
  a request and how long it takes is arbitrary. Report files are decoded by an argument.
\<close>

section \<open>The run\<close>

record benchmarkFlags =
  url :: string
  requests :: int
  concurrency :: int
  duration :: int
  keepalive :: bool

text \<open>
  What a worker does: it waits for a job or is about to look at the timer, is waiting for the answer to a
  request, or has returned. \<open>unsent\<close>, \<open>queued\<close> and \<open>jobsClosed\<close> are the state of the channel and of the loop that fills it.
\<close>

datatype benchWorker = Waiting | Issuing | Returned

record run =
  latencies :: "int list"
  statusCounts :: "(int \<times> int) list"
  errCount :: int
  benchWorkers :: "benchWorker list"
  unsent :: nat
  queued :: nat
  jobsClosed :: bool
  timedOut :: bool

datatype labError = BadRequests | BadConcurrency | CapacityPanic

text \<open>
  The checks of the flags. The number of requests is the capacity of the slice of latencies, also in a soak run: making it panics if the
  number is negative or above the largest capacity \<open>limit\<close> for which there is memory.
\<close>

definition startBenchmark :: "int \<Rightarrow> benchmarkFlags \<Rightarrow> labError + run" where
  "startBenchmark limit fl =
    (if duration fl \<le> 0 \<and> requests fl \<le> 0 then Inl BadRequests
     else if concurrency fl \<le> 0 then Inl BadConcurrency
     else if requests fl < 0 \<or> limit < requests fl then Inl CapacityPanic
     else Inr \<lparr>latencies = [], statusCounts = [], errCount = 0, benchWorkers = replicate (nat (concurrency fl)) Waiting,
               unsent = (if 0 < duration fl then 0 else nat (requests fl)), queued = 0, jobsClosed = False, timedOut = False\<rparr>)"

text \<open>The closure \<open>record\<close>, under its lock; \<open>None\<close> is a transport error.\<close>

definition recordResult :: "int \<Rightarrow> int option \<Rightarrow> run \<Rightarrow> run" where
  "recordResult latency answer r =
    (let r = r\<lparr>latencies := latencies r @ [latency]\<rparr>
     in case answer of
          None \<Rightarrow> r\<lparr>errCount := errCount r + 1\<rparr>
        | Some code \<Rightarrow> r\<lparr>statusCounts := AList.map_default code 1 (\<lambda>n. n + 1) (statusCounts r)\<rparr>)"

definition setWorker :: "nat \<Rightarrow> benchWorker \<Rightarrow> run \<Rightarrow> run" where
  "setWorker i w r = r\<lparr>benchWorkers := (benchWorkers r)[i := w]\<rparr>"

definition workerIs :: "nat \<Rightarrow> benchWorker \<Rightarrow> run \<Rightarrow> bool" where
  "workerIs i w r \<longleftrightarrow> i < length (benchWorkers r) \<and> benchWorkers r ! i = w"

inductive benchStep :: "benchmarkFlags \<Rightarrow> run \<Rightarrow> run \<Rightarrow> bool" for fl where
  feed: "\<not> 0 < duration fl \<Longrightarrow> unsent r = Suc n \<Longrightarrow> int (queued r) < requests fl \<Longrightarrow>
    benchStep fl r (r\<lparr>unsent := n, queued := Suc (queued r)\<rparr>)"
| closeJobs: "\<not> 0 < duration fl \<Longrightarrow> unsent r = 0 \<Longrightarrow> \<not> jobsClosed r \<Longrightarrow> benchStep fl r (r\<lparr>jobsClosed := True\<rparr>)"
| takeJob: "\<not> 0 < duration fl \<Longrightarrow> workerIs i Waiting r \<Longrightarrow> queued r = Suc n \<Longrightarrow>
    benchStep fl r (setWorker i Issuing (r\<lparr>queued := n\<rparr>))"
| drained: "\<not> 0 < duration fl \<Longrightarrow> workerIs i Waiting r \<Longrightarrow> queued r = 0 \<Longrightarrow> jobsClosed r \<Longrightarrow>
    benchStep fl r (setWorker i Returned r)"
| timeout: "0 < duration fl \<Longrightarrow> \<not> timedOut r \<Longrightarrow> benchStep fl r (r\<lparr>timedOut := True\<rparr>)"
| soak: "0 < duration fl \<Longrightarrow> workerIs i Waiting r \<Longrightarrow> \<not> timedOut r \<Longrightarrow> benchStep fl r (setWorker i Issuing r)"
| soakDone: "0 < duration fl \<Longrightarrow> workerIs i Waiting r \<Longrightarrow> timedOut r \<Longrightarrow> benchStep fl r (setWorker i Returned r)"
| answered: "workerIs i Issuing r \<Longrightarrow> benchStep fl r (setWorker i Waiting (recordResult latency answer r))"

inductive_cases benchStepE: "benchStep fl r r'"

text \<open>\<open>wg.Wait\<close> returns when all workers have.\<close>

definition finished :: "run \<Rightarrow> bool" where
  "finished r \<longleftrightarrow> list_all (\<lambda>w. w = Returned) (benchWorkers r)"

section \<open>The report\<close>

record latencyStats =
  statAverage :: string
  statMin :: string
  statP50 :: string
  statP95 :: string
  statP99 :: string
  statMax :: string

record benchmarkReport =
  URL :: string
  Requests :: int
  Concurrency :: int
  Duration :: string
  KeepAlive :: bool
  Elapsed :: string
  Throughput :: float64
  Errors :: int
  StatusCodes :: "(int \<times> int) list"
  Latency :: latencyStats

definition durationString :: "int \<Rightarrow> string" where
  "durationString d = (if d \<le> 0 then [] else DurationString d)"

definition throughputOf :: "int \<Rightarrow> int \<Rightarrow> float64" where
  "throughputOf completed elapsed = (if 0 < elapsed then divF (float64OfInt completed) (Seconds elapsed) else Fin 0)"

text \<open>A soak run has no number of requests of its own.\<close>

definition configuredRequests :: "benchmarkFlags \<Rightarrow> run \<Rightarrow> int" where
  "configuredRequests fl r = (if 0 < duration fl then int (length (latencies r)) else requests fl)"

definition reportOf :: "benchmarkFlags \<Rightarrow> int \<Rightarrow> run \<Rightarrow> benchmarkReport" where
  "reportOf fl elapsed r =
    (let completedRequests = int (length (latencies r));
         summary = summarizeLatencies (latencies r)
     in \<lparr>URL = url fl, Requests = configuredRequests fl r, Concurrency = concurrency fl, Duration = durationString (duration fl),
         KeepAlive = keepalive fl, Elapsed = DurationString elapsed, Throughput = throughputOf completedRequests elapsed,
         Errors = errCount r, StatusCodes = statusCounts r,
         Latency = \<lparr>statAverage = DurationString (Average summary), statMin = DurationString (MinLatency summary),
           statP50 = DurationString (P50 summary), statP95 = DurationString (P95 summary),
           statP99 = DurationString (P99 summary), statMax = DurationString (MaxLatency summary)\<rparr>\<rparr>)"

definition sortedStatusCodes :: "(int \<times> int) list \<Rightarrow> int list" where
  "sortedStatusCodes counts = sort (map fst counts)"

section \<open>The summary of reports\<close>

record benchmarkSummary =
  Runs :: int
  sumThroughput :: float64
  sumAverage :: int
  sumP50 :: int
  sumP95 :: int
  sumP99 :: int

record columns =
  throughputs :: "float64 list"
  averages :: "int list"
  p50s :: "int list"
  p95s :: "int list"
  p99s :: "int list"

datatype summaryError = NoReports | BadDuration | IndexPanic | NoFiles | BadGlob | BadFile string

fun collectColumns :: "benchmarkReport list \<Rightarrow> columns \<Rightarrow> summaryError + columns" where
  "collectColumns [] c = Inr c"
| "collectColumns (report # reports) c =
    (case ParseDuration (statAverage (Latency report)) of
       None \<Rightarrow> Inl BadDuration
     | Some average \<Rightarrow>
    (case ParseDuration (statP50 (Latency report)) of
       None \<Rightarrow> Inl BadDuration
     | Some p50 \<Rightarrow>
    (case ParseDuration (statP95 (Latency report)) of
       None \<Rightarrow> Inl BadDuration
     | Some p95 \<Rightarrow>
    (case ParseDuration (statP99 (Latency report)) of
       None \<Rightarrow> Inl BadDuration
     | Some p99 \<Rightarrow>
        collectColumns reports
          \<lparr>throughputs = throughputs c @ [Throughput report], averages = averages c @ [average],
           p50s = p50s c @ [p50], p95s = p95s c @ [p95], p99s = p99s c @ [p99]\<rparr>))))"

definition noColumns :: columns where
  "noColumns = \<lparr>throughputs = [], averages = [], p50s = [], p95s = [], p99s = []\<rparr>"

definition summarizeBenchmarkReports :: "benchmarkReport list \<Rightarrow> summaryError + benchmarkSummary" where
  "summarizeBenchmarkReports reports =
    (if reports = [] then Inl NoReports
     else
      (case collectColumns reports noColumns of
         Inl e \<Rightarrow> Inl e
       | Inr c \<Rightarrow>
          (case (medianFloat64 (throughputs c), medianDuration (averages c), medianDuration (p50s c), medianDuration (p95s c),
                 medianDuration (p99s c)) of
             (Some t, Some a, Some p50, Some p95, Some p99) \<Rightarrow>
               Inr \<lparr>Runs = int (length reports), sumThroughput = t, sumAverage = a, sumP50 = p50, sumP95 = p95, sumP99 = p99\<rparr>
           | _ \<Rightarrow> Inl IndexPanic)))"

text \<open>Reading and decoding a file is an argument; a report without a URL is refused.\<close>

definition readBenchmarkReport :: "(string \<Rightarrow> benchmarkReport option) \<Rightarrow> string \<Rightarrow> benchmarkReport option" where
  "readBenchmarkReport decode path =
    (case decode path of None \<Rightarrow> None | Some report \<Rightarrow> if URL report = [] then None else Some report)"

type_synonym grouped = "(string \<times> benchmarkReport list) list"

fun groupReports :: "(string \<Rightarrow> benchmarkReport option) \<Rightarrow> string list \<Rightarrow> grouped \<Rightarrow> summaryError + grouped" where
  "groupReports decode [] m = Inr m"
| "groupReports decode (path # paths) m =
    (case readBenchmarkReport decode path of
       None \<Rightarrow> Inl (BadFile path)
     | Some report \<Rightarrow> groupReports decode paths (AList.map_default (URL report) [report] (\<lambda>rs. rs @ [report]) m))"

definition sortedURLs :: "grouped \<Rightarrow> string list" where
  "sortedURLs m = sort (map fst m)"

text \<open>The rows that are printed, and the error that ends the loop.\<close>

fun summaryRows :: "grouped \<Rightarrow> string list \<Rightarrow> (string \<times> benchmarkSummary) list \<times> summaryError option" where
  "summaryRows m [] = ([], None)"
| "summaryRows m (u # us) =
    (case summarizeBenchmarkReports (case map_of m u of None \<Rightarrow> [] | Some rs \<Rightarrow> rs) of
       Inl e \<Rightarrow> ([], Some e)
     | Inr summary \<Rightarrow> (let (rows, e) = summaryRows m us in ((u, summary) # rows, e)))"

definition runSummarize ::
    "(string \<Rightarrow> benchmarkReport option) \<Rightarrow> (string \<Rightarrow> string list option) \<Rightarrow> string list \<Rightarrow> string \<Rightarrow>
     (string \<times> benchmarkSummary) list \<times> summaryError option" where
  "runSummarize decode globFiles args pattern =
    (case (if pattern \<noteq> [] then map_option (append args) (globFiles pattern) else Some args) of
       None \<Rightarrow> ([], Some BadGlob)
     | Some files \<Rightarrow>
        if files = [] then ([], Some NoFiles)
        else
         (case groupReports decode files [] of
            Inl e \<Rightarrow> ([], Some e)
          | Inr m \<Rightarrow> summaryRows m (sortedURLs m)))"

section \<open>Accounting\<close>

definition isIssuing :: "benchWorker \<Rightarrow> nat" where
  "isIssuing w = (if w = Issuing then 1 else 0)"

definition inFlight :: "run \<Rightarrow> nat" where
  "inFlight r = sum_list (map isIssuing (benchWorkers r))"

definition totalCount :: "(int \<times> int) list \<Rightarrow> int" where
  "totalCount counts = sum_list (map snd counts)"

lemma totalCount_default: "totalCount (AList.map_default k 1 (\<lambda>n. n + 1) m) = totalCount m + 1"
  by (induction m) (auto simp: totalCount_def)

lemma keys_default: "fst ` set (AList.map_default k v f m) = insert k (fst ` set m)"
  by (induction m) auto

lemma distinct_default: "distinct (map fst m) \<Longrightarrow> distinct (map fst (AList.map_default k v f m))"
  by (induction m) (auto simp: keys_default image_iff)

definition booksBalance :: "run \<Rightarrow> bool" where
  "booksBalance r \<longleftrightarrow> errCount r + totalCount (statusCounts r) = int (length (latencies r)) \<and> distinct (map fst (statusCounts r))"

definition runInv :: "benchmarkFlags \<Rightarrow> run \<Rightarrow> bool" where
  "runInv fl r \<longleftrightarrow> booksBalance r
     \<and> length (benchWorkers r) = nat (concurrency fl) \<and> 0 < concurrency fl
     \<and> (\<not> 0 < duration fl \<longrightarrow>
          int (length (latencies r) + inFlight r + queued r + unsent r) = requests fl
          \<and> (jobsClosed r \<longrightarrow> unsent r = 0)
          \<and> (Returned \<in> set (benchWorkers r) \<longrightarrow> jobsClosed r \<and> queued r = 0))
     \<and> (0 < duration fl \<longrightarrow> (Returned \<in> set (benchWorkers r) \<longrightarrow> timedOut r))"

lemma inFlight_setWorker:
  "i < length (benchWorkers r) \<Longrightarrow> inFlight (setWorker i w r) + isIssuing (benchWorkers r ! i) = inFlight r + isIssuing w"
  using sum_list_update [of i "benchWorkers r" isIssuing w] by (simp add: inFlight_def setWorker_def)

lemma recordResult_simps [simp]:
  "latencies (recordResult l a r) = latencies r @ [l]" "benchWorkers (recordResult l a r) = benchWorkers r"
  "queued (recordResult l a r) = queued r" "unsent (recordResult l a r) = unsent r" "jobsClosed (recordResult l a r) = jobsClosed r"
  "timedOut (recordResult l a r) = timedOut r"
  by (simp_all add: recordResult_def Let_def split: option.split)

lemma setWorker_simps [simp]:
  "latencies (setWorker i w r) = latencies r" "benchWorkers (setWorker i w r) = (benchWorkers r)[i := w]"
  "queued (setWorker i w r) = queued r" "unsent (setWorker i w r) = unsent r" "jobsClosed (setWorker i w r) = jobsClosed r"
  "timedOut (setWorker i w r) = timedOut r" "booksBalance (setWorker i w r) = booksBalance r"
  by (simp_all add: setWorker_def booksBalance_def)

lemma booksBalance_record: "booksBalance r \<Longrightarrow> booksBalance (recordResult l a r)"
  by (cases a) (simp_all add: booksBalance_def recordResult_def totalCount_default distinct_default)

lemma booksBalance_same [simp]:
  "booksBalance (r\<lparr>queued := n\<rparr>) = booksBalance r" "booksBalance (r\<lparr>unsent := m\<rparr>) = booksBalance r"
  "booksBalance (r\<lparr>jobsClosed := b\<rparr>) = booksBalance r" "booksBalance (r\<lparr>timedOut := b\<rparr>) = booksBalance r"
  by (simp_all add: booksBalance_def)

lemma inFlight_same [simp]:
  "inFlight (recordResult l a r) = inFlight r" "inFlight (r\<lparr>queued := n\<rparr>) = inFlight r" "inFlight (r\<lparr>unsent := m\<rparr>) = inFlight r"
  "inFlight (r\<lparr>jobsClosed := b\<rparr>) = inFlight r" "inFlight (r\<lparr>timedOut := b\<rparr>) = inFlight r"
  by (simp_all add: inFlight_def)

lemma runInv_step: "benchStep fl r r' \<Longrightarrow> runInv fl r \<Longrightarrow> runInv fl r'"
proof (induction rule: benchStep.induct)
  case (takeJob i r n)
  then show ?case using inFlight_setWorker [of i "r\<lparr>queued := n\<rparr>" Issuing]
    by (auto simp: runInv_def workerIs_def isIssuing_def dest!: set_list_updateD)
next
  case (drained i r)
  then show ?case using inFlight_setWorker [of i r Returned]
    by (auto simp: runInv_def workerIs_def isIssuing_def dest!: set_list_updateD)
next
  case (answered i r latency answer)
  then show ?case using inFlight_setWorker [of i "recordResult latency answer r" Waiting] booksBalance_record [of r latency answer]
    by (auto simp: runInv_def workerIs_def isIssuing_def dest!: set_list_updateD)
qed (auto simp: runInv_def workerIs_def dest!: set_list_updateD)

lemma runInv_start: "startBenchmark limit fl = Inr r \<Longrightarrow> runInv fl r"
  by (auto simp: startBenchmark_def runInv_def booksBalance_def totalCount_def inFlight_def isIssuing_def split: if_splits)

lemma runInv_run: "(benchStep fl)\<^sup>*\<^sup>* r q \<Longrightarrow> startBenchmark limit fl = Inr r \<Longrightarrow> runInv fl q"
  by (induction rule: rtranclp_induct) (auto intro: runInv_start runInv_step)

section \<open>The end of a run\<close>

fun benchRank :: "benchWorker \<Rightarrow> nat" where
  "benchRank Waiting = 1"
| "benchRank Issuing = 2"
| "benchRank Returned = 0"

definition work :: "run \<Rightarrow> nat" where
  "work r = 4 * unsent r + 3 * queued r + (if jobsClosed r then 0 else 1) + sum_list (map benchRank (benchWorkers r))"

definition ending :: "benchmarkFlags \<Rightarrow> run \<Rightarrow> bool" where
  "ending fl r \<longleftrightarrow> (0 < duration fl \<longrightarrow> timedOut r)"

lemma ending_step: "benchStep fl r r' \<Longrightarrow> ending fl r \<Longrightarrow> ending fl r' \<and> work r' < work r"
proof (induction rule: benchStep.induct)
  case (takeJob i r n)
  then show ?case using sum_list_update [of i "benchWorkers r" benchRank Issuing] by (simp add: ending_def work_def workerIs_def setWorker_def)
next
  case (drained i r)
  then show ?case using sum_list_update [of i "benchWorkers r" benchRank Returned] by (simp add: ending_def work_def workerIs_def)
next
  case (soakDone i r)
  then show ?case using sum_list_update [of i "benchWorkers r" benchRank Returned] by (simp add: ending_def work_def workerIs_def)
next
  case (answered i r latency answer)
  then show ?case using sum_list_update [of i "benchWorkers r" benchRank Waiting] by (simp add: ending_def work_def workerIs_def)
qed (auto simp: ending_def work_def)

interpretation benchmark: draining "benchStep fl" "ending fl" work for fl
  by unfold_locales (auto dest: ending_step)

lemma stuck_finished:
  assumes inv: "runInv fl r" and "ending fl r" and stuck: "\<nexists>r'. benchStep fl r r'"
  shows "finished r"
proof -
  have "benchWorkers r ! i = Returned" if i: "i < length (benchWorkers r)" for i
  proof (cases "benchWorkers r ! i")
    case Issuing
    then show ?thesis using stuck benchStep.answered i by (metis workerIs_def)
  next
    case Waiting
    then have w: "workerIs i Waiting r" using i by (simp add: workerIs_def)
    then have fixed: "\<not> 0 < duration fl" using stuck benchStep.soakDone assms(2) by (metis ending_def)
    then have q: "queued r = 0" using stuck benchStep.takeJob w by (metis not0_implies_Suc)
    have "unsent r = 0"
    proof (rule ccontr)
      assume "unsent r \<noteq> 0"
      then obtain n where n: "unsent r = Suc n" using not0_implies_Suc by blast
      then have "int (queued r) < requests fl" using inv fixed q by (simp add: runInv_def)
      with n fixed stuck benchStep.feed show False by blast
    qed
    with fixed q w stuck benchStep.closeJobs benchStep.drained show ?thesis by blast
  qed
  then show ?thesis by (simp add: finished_def list_all_length)
qed

lemma finished_complete:
  assumes "runInv fl r" and "finished r" and "\<not> 0 < duration fl"
  shows "int (length (latencies r)) = requests fl"
proof -
  have all: "\<forall>w \<in> set (benchWorkers r). w = Returned" using assms(2) by (simp add: finished_def list_all_iff)
  moreover have "benchWorkers r \<noteq> []" using assms(1) by (auto simp: runInv_def)
  ultimately have "Returned \<in> set (benchWorkers r)" by (metis last_in_set)
  moreover have "inFlight r = 0" using all by (auto simp: inFlight_def isIssuing_def)
  ultimately show ?thesis using assms(1,3) by (auto simp: runInv_def)
qed

section \<open>Reading reports\<close>

definition int64 :: "int \<Rightarrow> bool" where
  "int64 d \<longleftrightarrow> - (2 ^ 63) \<le> d \<and> d < 2 ^ 63"

lemma int64_wrap: "int64 (wrap64 n)"
  using pos_mod_bound [of "2 ^ 64" "n + 2 ^ 63"] by (simp add: int64_def wrap64_def)

lemma int64_quot: "int64 a \<Longrightarrow> 0 < n \<Longrightarrow> int64 (quot a n)"
proof -
  assume a: "int64 a" and n: "0 < n"
  have "b div n \<le> b" "0 \<le> b div n" if "0 \<le> b" for b :: int
    using that n zdiv_mono2 [of b 1 n] by (simp_all add: pos_imp_zdiv_nonneg_iff)
  from this [of a] this [of "- a"] a show ?thesis by (auto simp: int64_def quot_def split: if_splits)
qed

lemma int64_fold: "int64 t \<Longrightarrow> int64 (fold (\<lambda>sample total. wrap64 (total + sample)) xs t)"
  by (induction xs arbitrary: t) (simp_all add: int64_wrap)

lemma percentile_range: "percentile xs p \<in> insert 0 (set xs)"
proof (cases "xs = []")
  case False
  then have "percentileIndex (length xs) p < length xs" by (auto simp: percentileIndex_def Let_def nat_less_iff)
  with False show ?thesis by (auto simp: percentile_def)
qed (simp add: percentile_def)

lemma int64_percentile: "list_all int64 samples \<Longrightarrow> int64 (percentile (sort samples) p)"
  using percentile_range [of "sort samples" p] by (auto simp: list_all_iff int64_def)

lemma int64_summary:
  assumes "list_all int64 samples"
  shows "int64 (Average (summarizeLatencies samples))" "int64 (P50 (summarizeLatencies samples))"
    "int64 (P95 (summarizeLatencies samples))" "int64 (P99 (summarizeLatencies samples))"
proof -
  have zero: "int64 0" by (simp add: int64_def)
  show "int64 (Average (summarizeLatencies samples))"
    using zero by (cases "samples = []") (simp_all add: summarizeLatencies_def Let_def int64_quot int64_fold)
  show "int64 (P50 (summarizeLatencies samples))" "int64 (P95 (summarizeLatencies samples))" "int64 (P99 (summarizeLatencies samples))"
    using zero int64_percentile [OF assms] by (simp_all add: summarizeLatencies_def Let_def)
qed

lemma ParseDuration_int64: "int64 d \<Longrightarrow> ParseDuration (DurationString d) = Some d"
  using ParseDuration_String by (simp add: int64_def)

text \<open>One run of the benchmark, as its report sees it.\<close>

type_synonym completed = "benchmarkFlags \<times> int \<times> run"

definition reportFor :: "completed \<Rightarrow> benchmarkReport" where
  "reportFor = (\<lambda>(fl, elapsed, r). reportOf fl elapsed r)"

definition latencySummaryFor :: "completed \<Rightarrow> latencySummary" where
  "latencySummaryFor = (\<lambda>(fl, elapsed, r). summarizeLatencies (latencies r))"

definition soundTimes :: "completed \<Rightarrow> bool" where
  "soundTimes = (\<lambda>(fl, elapsed, r). list_all int64 (latencies r))"

lemma collectColumns_reports:
  "list_all soundTimes runs \<Longrightarrow> collectColumns (map reportFor runs) c = Inr
     \<lparr>throughputs = throughputs c @ map (\<lambda>x. Throughput (reportFor x)) runs,
      averages = averages c @ map (\<lambda>x. Average (latencySummaryFor x)) runs, p50s = p50s c @ map (\<lambda>x. P50 (latencySummaryFor x)) runs,
      p95s = p95s c @ map (\<lambda>x. P95 (latencySummaryFor x)) runs, p99s = p99s c @ map (\<lambda>x. P99 (latencySummaryFor x)) runs\<rparr>"
proof (induction runs arbitrary: c)
  case (Cons x runs)
  obtain fl elapsed r where x: "x = (fl, elapsed, r)" using prod_cases3 by blast
  with Cons.prems have "list_all int64 (latencies r)" by (simp add: soundTimes_def)
  note read = int64_summary [OF this, THEN ParseDuration_int64]
  have "Latency (reportFor x) = \<lparr>statAverage = DurationString (Average (summarizeLatencies (latencies r))),
      statMin = DurationString (MinLatency (summarizeLatencies (latencies r))), statP50 = DurationString (P50 (summarizeLatencies (latencies r))),
      statP95 = DurationString (P95 (summarizeLatencies (latencies r))), statP99 = DurationString (P99 (summarizeLatencies (latencies r))),
      statMax = DurationString (MaxLatency (summarizeLatencies (latencies r)))\<rparr>"
    by (simp add: x reportFor_def reportOf_def Let_def)
  with Cons read show ?case by (simp add: latencySummaryFor_def x)
qed simp

text \<open>Latencies of less than 146 years, in either direction, stay so in the summary.\<close>

definition shortTimes :: "completed \<Rightarrow> bool" where
  "shortTimes = (\<lambda>(fl, elapsed, r). list_all halfRange (latencies r))"

lemma halfRange_int64: "halfRange d \<Longrightarrow> int64 d"
  by (simp add: halfRange_def int64_def)

lemma shortTimes_sound: "shortTimes x \<Longrightarrow> soundTimes x"
  by (auto simp: shortTimes_def soundTimes_def halfRange_int64 list_all_iff split: prod.splits)

lemma halfRange_quot: "int64 a \<Longrightarrow> 2 \<le> n \<Longrightarrow> halfRange (quot a n)"
proof -
  assume a: "int64 a" and n: "2 \<le> n"
  have "b div n \<le> b div 2" "0 \<le> b div n" if "0 \<le> b" for b :: int
    using that n zdiv_mono2 [of b 2 n] by (simp_all add: pos_imp_zdiv_nonneg_iff)
  from this [of a] this [of "- a"] a show ?thesis by (auto simp: int64_def halfRange_def quot_def split: if_splits)
qed

lemma halfRange_average:
  assumes "samples \<noteq> []" and "list_all halfRange samples"
  shows "halfRange (quot (fold (\<lambda>sample total. wrap64 (total + sample)) (sort samples) 0) (int (length samples)))"
proof (cases "length samples = 1")
  case True
  then obtain x where "samples = [x]" by (cases samples) auto
  with assms(2) show ?thesis by (simp add: quot_def wrap64_id halfRange_def)
next
  case False
  with assms(1) have "2 \<le> int (length samples)" by (cases samples) (auto simp: Suc_le_eq)
  moreover have "int64 0" by (simp add: int64_def)
  ultimately show ?thesis by (intro halfRange_quot int64_fold)
qed

lemma halfRange_summary:
  assumes "shortTimes x"
  shows "halfRange (Average (latencySummaryFor x))" "halfRange (P50 (latencySummaryFor x))"
    "halfRange (P95 (latencySummaryFor x))" "halfRange (P99 (latencySummaryFor x))"
proof -
  obtain fl elapsed r where x: "x = (fl, elapsed, r)" using prod_cases3 by blast
  then have all: "list_all halfRange (latencies r)" using assms by (simp add: shortTimes_def)
  have zero: "halfRange 0" by (simp add: halfRange_def)
  show "halfRange (Average (latencySummaryFor x))"
    using zero halfRange_average [OF _ all] by (simp add: x latencySummaryFor_def summarizeLatencies_def Let_def)
  have "halfRange (percentile (sort (latencies r)) p)" for p
    using percentile_range [of "sort (latencies r)" p] all zero by (auto simp: list_all_iff)
  then show "halfRange (P50 (latencySummaryFor x))" "halfRange (P95 (latencySummaryFor x))" "halfRange (P99 (latencySummaryFor x))"
    using zero by (simp_all add: x latencySummaryFor_def summarizeLatencies_def Let_def)
qed

lemma medianDuration_runs:
  assumes "runs \<noteq> []" and "list_all shortTimes runs" and "\<And>x. shortTimes x \<Longrightarrow> halfRange (f x)"
  shows "\<exists>m. medianDuration (map f runs) = Some m \<and> medianOf (map f runs) m"
  using assms by (intro medianDuration_correct) (auto simp: list_all_iff)

section \<open>Grouping reports\<close>

definition reportsOf :: "grouped \<Rightarrow> string \<Rightarrow> benchmarkReport list" where
  "reportsOf m u = (case map_of m u of None \<Rightarrow> [] | Some rs \<Rightarrow> rs)"

lemma reportsOf_default:
  "reportsOf (AList.map_default k [report] (\<lambda>rs. rs @ [report]) m) u = (if u = k then reportsOf m u @ [report] else reportsOf m u)"
  by (induction m) (auto simp: reportsOf_def)

lemma groupReports_spec:
  "groupReports decode paths m = Inr m' \<Longrightarrow> distinct (map fst m) \<Longrightarrow>
   \<exists>reports. map decode paths = map Some reports
     \<and> (\<forall>u. reportsOf m' u = reportsOf m u @ filter (\<lambda>r. URL r = u) reports)
     \<and> fst ` set m' = fst ` set m \<union> URL ` set reports \<and> distinct (map fst m')"
proof (induction paths arbitrary: m)
  case (Cons path paths)
  then obtain report where d: "decode path = Some report"
      and g: "groupReports decode paths (AList.map_default (URL report) [report] (\<lambda>rs. rs @ [report]) m) = Inr m'"
    by (auto simp: readBenchmarkReport_def split: option.splits if_splits)
  from Cons.IH [OF g distinct_default [OF Cons.prems(2)]] obtain reports where reports: "map decode paths = map Some reports"
      "\<forall>u. reportsOf m' u = reportsOf (AList.map_default (URL report) [report] (\<lambda>rs. rs @ [report]) m) u @ filter (\<lambda>r. URL r = u) reports"
      "fst ` set m' = insert (URL report) (fst ` set m) \<union> URL ` set reports" "distinct (map fst m')"
    unfolding keys_default by blast
  then show ?case by (intro exI [of _ "report # reports"]) (auto simp: d reportsOf_default)
qed simp

lemma summaryRows_spec:
  "summaryRows m us = (rows, None) \<Longrightarrow>
   map fst rows = us \<and> list_all (\<lambda>(u, summary). summarizeBenchmarkReports (reportsOf m u) = Inr summary) rows"
  by (induction us arbitrary: rows) (auto simp: reportsOf_def split: sum.splits prod.splits)

lemma summary_Runs: "summarizeBenchmarkReports reports = Inr summary \<Longrightarrow> Runs summary = int (length reports)"
  by (auto simp: summarizeBenchmarkReports_def split: if_splits sum.splits option.splits)

lemma int_sum_list: "int (\<Sum>u\<leftarrow>us. f u) = (\<Sum>u\<leftarrow>us. int (f u))"
  by (induction us) simp_all

lemma one_key: "distinct us \<Longrightarrow> x \<in> set us \<Longrightarrow> (\<Sum>u\<leftarrow>us. if x = u then 1 else (0 :: nat)) = 1"
  by (induction us) (auto simp: sum_list_0)

lemma length_filter_partition:
  "distinct us \<Longrightarrow> URL ` set reports \<subseteq> set us \<Longrightarrow> (\<Sum>u\<leftarrow>us. length (filter (\<lambda>r. URL r = u) reports)) = length reports"
proof (induction reports)
  case (Cons r reports)
  have "(\<Sum>u\<leftarrow>us. if URL r = u then Suc (length (filter (\<lambda>r. URL r = u) reports)) else length (filter (\<lambda>r. URL r = u) reports))
      = (\<Sum>u\<leftarrow>us. length (filter (\<lambda>r. URL r = u) reports)) + (\<Sum>u\<leftarrow>us. if URL r = u then 1 else 0)"
    by (simp add: sum_list_addf [symmetric]) (rule arg_cong [where f = sum_list], simp)
  moreover have "(\<Sum>u\<leftarrow>us. if URL r = u then 1 else (0 :: nat)) = 1"
    using Cons.prems by (simp add: one_key)
  ultimately show ?case using Cons by (simp add: if_distrib [of length] cong: if_cong)
qed simp

text \<open>The check of the flags lets a negative number of requests pass in a soak run, which then panics, and a number without bound in any run.\<close>

lemma capacity_panics:
  "startBenchmark limit fl = Inl CapacityPanic \<longleftrightarrow>
   0 < concurrency fl \<and> (0 < duration fl \<and> requests fl < 0 \<or> limit < requests fl \<and> (0 < duration fl \<or> 0 < requests fl))"
  by (auto simp: startBenchmark_def)

section \<open>Properties\<close>

text \<open>
  C31. A benchmark loses no request. In every state of a run, however the workers are
  scheduled and whatever the client returns, the transport errors and the counts of the status
  codes add up to the recorded latencies. A run with a fixed number of requests ends under every
  schedule, a soak run does so once its time is over, and in a run that can make no further step all
  workers have returned; a fixed run has then recorded exactly the requested number of requests.
\<close>

theorem benchmark_accounts_for_requests:
  assumes "startBenchmark limit fl = Inr r0" and "(benchStep fl)\<^sup>*\<^sup>* r0 r"
  shows "errCount r + totalCount (statusCounts r) = int (length (latencies r))
    \<and> (\<not> 0 < duration fl \<or> timedOut r \<longrightarrow>
         (\<forall>n q. (benchStep fl ^^ n) r q \<longrightarrow> n \<le> work r)
         \<and> ((\<nexists>q. benchStep fl r q) \<longrightarrow> finished r))
    \<and> (finished r \<and> \<not> 0 < duration fl \<longrightarrow> int (length (latencies r)) = requests fl \<and> Requests (reportOf fl elapsed r) = int (length (latencies r)))"
proof -
  have inv: "runInv fl r" using runInv_run [OF assms(2,1)] .
  then have "errCount r + totalCount (statusCounts r) = int (length (latencies r))" by (simp add: runInv_def booksBalance_def)
  moreover have "n \<le> work r" if "\<not> 0 < duration fl \<or> timedOut r" "(benchStep fl ^^ n) r q" for n q
    using benchmark.run_bounded [OF that(2)] that(1) by (auto simp: ending_def)
  moreover have "finished r" if "\<not> 0 < duration fl \<or> timedOut r" "\<nexists>q. benchStep fl r q"
    using stuck_finished [OF inv _ that(2)] that(1) by (auto simp: ending_def)
  moreover have "int (length (latencies r)) = requests fl" "Requests (reportOf fl elapsed r) = int (length (latencies r))"
    if "finished r" "\<not> 0 < duration fl"
    using finished_complete [OF inv that] that(2) by (simp_all add: reportOf_def configuredRequests_def Let_def)
  ultimately show ?thesis by blast
qed

definition oneRequest :: benchmarkFlags where
  "oneRequest = \<lparr>url = ''http://h/'', requests = 1, concurrency = 1, duration = 0, keepalive = False\<rparr>"

definition oneRequestDone :: run where
  "oneRequestDone = \<lparr>latencies = [5], statusCounts = [(200, 1)], errCount = 0, benchWorkers = [Returned], unsent = 0, queued = 0,
     jobsClosed = True, timedOut = False\<rparr>"

lemma oneRequest_run:
  obtains r0 where "startBenchmark (2 ^ 45) oneRequest = Inr r0" and "(benchStep oneRequest)\<^sup>*\<^sup>* r0 oneRequestDone"
proof -
  let ?r = "\<lambda>l c ws u q b. \<lparr>latencies = l, statusCounts = c, errCount = 0, benchWorkers = ws, unsent = u, queued = q, jobsClosed = b, timedOut = False\<rparr>"
  have "benchStep oneRequest (?r [] [] [Waiting] 1 0 False) (?r [] [] [Waiting] 0 1 False)"
    using benchStep.feed [of oneRequest "?r [] [] [Waiting] 1 0 False" 0] by (simp add: oneRequest_def)
  moreover have "benchStep oneRequest (?r [] [] [Waiting] 0 1 False) (?r [] [] [Waiting] 0 1 True)"
    using benchStep.closeJobs [of oneRequest "?r [] [] [Waiting] 0 1 False"] by (simp add: oneRequest_def)
  moreover have "benchStep oneRequest (?r [] [] [Waiting] 0 1 True) (?r [] [] [Issuing] 0 0 True)"
    using benchStep.takeJob [of oneRequest 0 "?r [] [] [Waiting] 0 1 True" 0] by (simp add: oneRequest_def workerIs_def setWorker_def)
  moreover have "benchStep oneRequest (?r [] [] [Issuing] 0 0 True) (?r [5] [(200, 1)] [Waiting] 0 0 True)"
    using benchStep.answered [of 0 "?r [] [] [Issuing] 0 0 True" oneRequest 5 "Some 200"]
    by (simp add: oneRequest_def workerIs_def setWorker_def recordResult_def)
  moreover have "benchStep oneRequest (?r [5] [(200, 1)] [Waiting] 0 0 True) (?r [5] [(200, 1)] [Returned] 0 0 True)"
    using benchStep.drained [of oneRequest 0 "?r [5] [(200, 1)] [Waiting] 0 0 True"] by (simp add: oneRequest_def workerIs_def setWorker_def)
  ultimately have "(benchStep oneRequest)\<^sup>*\<^sup>* (?r [] [] [Waiting] 1 0 False) (?r [5] [(200, 1)] [Returned] 0 0 True)"
    by (meson converse_rtranclp_into_rtranclp rtranclp.rtrancl_refl)
  then show ?thesis by (intro that [of "?r [] [] [Waiting] 1 0 False"]) (simp_all add: startBenchmark_def oneRequest_def oneRequestDone_def)
qed

theorem benchmark_accounts_for_requests_witness:
  "\<exists>r. finished r \<and> latencies r = [5] \<and> errCount r + totalCount (statusCounts r) = 1 \<and> Requests (reportOf oneRequest 7 r) = 1"
proof -
  obtain r0 where r: "startBenchmark (2 ^ 45) oneRequest = Inr r0" "(benchStep oneRequest)\<^sup>*\<^sup>* r0 oneRequestDone" by (rule oneRequest_run)
  have "finished oneRequestDone" "latencies oneRequestDone = [5]" by (simp_all add: oneRequestDone_def finished_def)
  with benchmark_accounts_for_requests [OF r, of 7] show ?thesis by (auto simp: oneRequest_def)
qed

text \<open>
  C33. A summary gives the medians of the runs. The durations of a report are text, and \<open>summarize\<close> parses this text; still every figure of the
  summary is the median of what the runs computed: as many of the runs lie below as above, for an even number of runs it is the mean
  of the two runs in the middle, of durations rounded towards zero, of throughputs rounded to a floating point number. The latencies are
  shorter than 146 years; with longer ones the mean of two overflows.
\<close>

theorem summary_of_reports_exact:
  assumes "runs \<noteq> []" and "list_all shortTimes runs"
  shows "\<exists>summary. summarizeBenchmarkReports (map reportFor runs) = Inr summary
    \<and> Runs summary = int (length runs)
    \<and> medianOfF (map (\<lambda>x. Throughput (reportFor x)) runs) (sumThroughput summary)
    \<and> medianOf (map (\<lambda>x. Average (latencySummaryFor x)) runs) (sumAverage summary)
    \<and> medianOf (map (\<lambda>x. P50 (latencySummaryFor x)) runs) (sumP50 summary)
    \<and> medianOf (map (\<lambda>x. P95 (latencySummaryFor x)) runs) (sumP95 summary)
    \<and> medianOf (map (\<lambda>x. P99 (latencySummaryFor x)) runs) (sumP99 summary)"
proof -
  note median = medianDuration_runs [OF assms]
  have sound: "list_all soundTimes runs" using assms(2) shortTimes_sound by (auto simp: list_all_iff)
  show ?thesis
    using assms(1) median [of "\<lambda>x. Average (latencySummaryFor x)", OF halfRange_summary(1)] median [of "\<lambda>x. P50 (latencySummaryFor x)", OF halfRange_summary(2)]
      median [of "\<lambda>x. P95 (latencySummaryFor x)", OF halfRange_summary(3)] median [of "\<lambda>x. P99 (latencySummaryFor x)", OF halfRange_summary(4)]
      medianFloat64_correct [of "map (\<lambda>x. Throughput (reportFor x)) runs"]
    by (auto simp: summarizeBenchmarkReports_def collectColumns_reports [OF sound] noColumns_def)
qed

definition runWith :: "int list \<Rightarrow> completed" where
  "runWith ls = (oneRequest, 7, \<lparr>latencies = ls, statusCounts = [], errCount = 3, benchWorkers = [Returned],
     unsent = 0, queued = 0, jobsClosed = True, timedOut = False\<rparr>)"

lemma percentile_single: "percentile [x] p = x"
  by (simp add: percentile_def percentileIndex_def Let_def)

theorem summary_of_reports_exact_witness:
  "\<exists>summary. summarizeBenchmarkReports (map reportFor [runWith [20], runWith [7]]) = Inr summary \<and> Runs summary = 2 \<and> sumP50 summary = 13"
proof -
  let ?runs = "[runWith [20], runWith [7]]"
  have short: "list_all shortTimes ?runs" by code_simp
  have p50: "map (\<lambda>x. P50 (latencySummaryFor x)) ?runs = [20, 7]"
    by (simp add: runWith_def latencySummaryFor_def summarizeLatencies_def percentile_single)
  have thirteen: "m = 13" if m: "medianOf [20, 7] m" for m
  proof -
    have k: "kth [20, 7 :: int] 0 7" "kth [20, 7 :: int] 1 20" by (simp_all add: kth_def)
    obtain a b where ab: "kth [20, 7] 0 a" "kth [20, 7] 1 b" "meanOf a b m" using m by (auto simp: medianOf_def)
    show ?thesis using ab(3) unfolding kth_unique [OF ab(1) k(1)] kth_unique [OF ab(2) k(2)] meanOf_def by linarith
  qed
  obtain summary where "summarizeBenchmarkReports (map reportFor ?runs) = Inr summary" "Runs summary = int (length ?runs)"
      "medianOf (map (\<lambda>x. P50 (latencySummaryFor x)) ?runs) (sumP50 summary)"
    using summary_of_reports_exact [OF _ short] by blast
  with thirteen show ?thesis unfolding p50 by (intro exI [of _ summary]) simp
qed

text \<open>
  \<open>summarize\<close> counts every file once. When it ends without an error, every named file was a report, the rows
  are those of the URLs of the reports in ascending order, each the summary of exactly the reports of
  its URL in the order of the files, and the runs of the rows add up to the number of files.
\<close>

lemma summarize_counts_every_file:
  assumes "runSummarize decode globFiles args pattern = (rows, None)" and "pattern = [] \<or> globFiles pattern = Some found"
    and "files = (if pattern = [] then args else args @ found)"
  shows "\<exists>reports. map decode files = map Some reports
    \<and> map fst rows = sorted_list_of_set (URL ` set reports)
    \<and> list_all (\<lambda>(u, summary). summarizeBenchmarkReports (filter (\<lambda>r. URL r = u) reports) = Inr summary) rows
    \<and> (\<Sum>(u, summary)\<leftarrow>rows. Runs summary) = int (length files)"
proof -
  have "files \<noteq> []" and "\<exists>m. groupReports decode files [] = Inr m \<and> summaryRows m (sortedURLs m) = (rows, None)"
    using assms by (auto simp: runSummarize_def split: if_splits option.splits sum.splits)
  then obtain m where g: "groupReports decode files [] = Inr m" and rows: "summaryRows m (sortedURLs m) = (rows, None)" by blast
  obtain reports where reports: "map decode files = map Some reports" "\<And>u. reportsOf m u = filter (\<lambda>r. URL r = u) reports"
      "fst ` set m = URL ` set reports" "distinct (map fst m)"
    using groupReports_spec [OF g] by (auto simp: reportsOf_def)
  have urls: "sortedURLs m = sorted_list_of_set (URL ` set reports)"
    unfolding sortedURLs_def using reports(3,4) by (metis list.set_map sorted_list_of_set_sort_remdups distinct_remdups_id)
  note r = summaryRows_spec [OF rows]
  have "(\<Sum>(u, summary)\<leftarrow>rows. Runs summary) = (\<Sum>u\<leftarrow>map fst rows. int (length (reportsOf m u)))"
    using conjunct2 [OF r] by (induction rows) (auto simp: summary_Runs)
  also have "\<dots> = int (\<Sum>u\<leftarrow>sortedURLs m. length (reportsOf m u))" using conjunct1 [OF r] by (simp add: int_sum_list)
  also have "(\<Sum>u\<leftarrow>sortedURLs m. length (reportsOf m u)) = length reports"
    unfolding reports(2) urls by (intro length_filter_partition) auto
  also have "length reports = length files" using reports(1) by (metis length_map)
  finally show ?thesis using r reports(1,2) urls by (intro exI [of _ reports]) auto
qed

definition emptyReport :: benchmarkReport where
  "emptyReport = \<lparr>URL = ''http://h/'', Requests = 0, Concurrency = 1, Duration = [], KeepAlive = False, Elapsed = ''0s'', Throughput = Fin 0,
     Errors = 0, StatusCodes = [], Latency = \<lparr>statAverage = ''0s'', statMin = ''0s'', statP50 = ''0s'', statP95 = ''0s'', statP99 = ''0s'', statMax = ''0s''\<rparr>\<rparr>"

lemma emptyReport_rows:
  "runSummarize (\<lambda>path. Some (emptyReport\<lparr>URL := path\<rparr>)) (\<lambda>_. None) [''b'', ''a'', ''b''] []
   = ([(''a'', \<lparr>Runs = 1, sumThroughput = Fin 0, sumAverage = 0, sumP50 = 0, sumP95 = 0, sumP99 = 0\<rparr>),
       (''b'', \<lparr>Runs = 2, sumThroughput = Fin 0, sumAverage = 0, sumP50 = 0, sumP95 = 0, sumP99 = 0\<rparr>)], None)"
  by code_simp

lemma summarize_counts_every_file_witness:
  "(\<Sum>(u, summary)\<leftarrow>fst (runSummarize (\<lambda>path. Some (emptyReport\<lparr>URL := path\<rparr>)) (\<lambda>_. None) [''b'', ''a'', ''b''] []). Runs summary) = 3"
  using summarize_counts_every_file [OF emptyReport_rows, of "[]"] by (simp add: emptyReport_rows)

end
