(* ===== verification/Lab_Compare.thy ===== *)
theory Lab_Compare
  imports Config Server_Paths "HOL-Library.List_Lexorder"
begin

text \<open>
  The comparison of two servers in \<^verbatim>\<open>cmd/lab/main.go\<close>: loading the payloads, one exchange with a server, and the classification
  of the two answers. The directory, the files and the network are arguments: an exchange fails at
  one of its calls, or the peer sends a stream of bytes until the connection fails or is closed.
\<close>

section \<open>Payloads\<close>

fun replaceCRLF :: "string \<Rightarrow> string" where
  "replaceCRLF (a # b # s) = (if a = cr \<and> b = lf then lf # replaceCRLF s else a # replaceCRLF (b # s))"
| "replaceCRLF s = s"

definition replaceCR :: "string \<Rightarrow> string" where
  "replaceCR s = map (\<lambda>c. if c = cr then lf else c) s"

definition replaceLF :: "string \<Rightarrow> string" where
  "replaceLF s = concat (map (\<lambda>c. if c = lf then [cr, lf] else [c]) s)"

definition HasSuffix :: "string \<Rightarrow> string \<Rightarrow> bool" where
  "HasSuffix s t \<longleftrightarrow> suffix t s"

definition trimBreaks :: "string \<Rightarrow> string" where
  "trimBreaks s = rev (dropWhile (\<lambda>c. c = cr \<or> c = lf) (rev s))"

definition normalizeHTTPFixture :: "string \<Rightarrow> string" where
  "normalizeHTTPFixture body =
    (let text = replaceLF (replaceCR (replaceCRLF body))
     in if HasSuffix text [cr, lf, cr, lf] then text else trimBreaks text @ [cr, lf, cr, lf])"

record payloadCase =
  payloadName :: string
  payloadBody :: string

record dirEntry =
  entryName :: string
  entryIsDir :: bool

fun collectPayloads :: "(string \<Rightarrow> string option) \<Rightarrow> string \<Rightarrow> dirEntry list \<Rightarrow> payloadCase list option" where
  "collectPayloads readFile dir [] = Some []"
| "collectPayloads readFile dir (entry # entries) =
    (let ext = Ext (entryName entry) in
     if entryIsDir entry \<or> ext \<noteq> ''.http'' \<and> ext \<noteq> ''.raw'' then collectPayloads readFile dir entries
     else
      (case readFile (JoinPath dir (entryName entry)) of
         None \<Rightarrow> None
       | Some body \<Rightarrow>
          map_option (Cons \<lparr>payloadName = entryName entry,
                            payloadBody = (if ext = ''.http'' then normalizeHTTPFixture body else body)\<rparr>)
            (collectPayloads readFile dir entries)))"

text \<open>The names in a directory are distinct, so the order of the sorted list is determined.\<close>

definition loadPayloads ::
    "(string \<Rightarrow> dirEntry list option) \<Rightarrow> (string \<Rightarrow> string option) \<Rightarrow> string \<Rightarrow> payloadCase list option" where
  "loadPayloads readDir readFile dir =
    (case readDir dir of
       None \<Rightarrow> None
     | Some entries \<Rightarrow> map_option (sort_key payloadName) (collectPayloads readFile dir entries))"

section \<open>One exchange\<close>

record rawResult =
  rawStatusCode :: int
  rawStatusLine :: string
  rawErr :: "string option"

record rawResultJSON =
  jsonStatusCode :: int
  jsonStatusLine :: string
  jsonError :: string

definition Summary :: "rawResult \<Rightarrow> string" where
  "Summary r =
    (case rawErr r of
       Some e \<Rightarrow> ''error:'' @ e
     | None \<Rightarrow> if rawStatusLine r = [] then ''no-response'' else Itoa (rawStatusCode r) @ '' '' @ rawStatusLine r)"

definition toSerializable :: "rawResult \<Rightarrow> rawResultJSON" where
  "toSerializable r = \<lparr>jsonStatusCode = rawStatusCode r, jsonStatusLine = rawStatusLine r,
     jsonError = (case rawErr r of None \<Rightarrow> [] | Some e \<Rightarrow> e)\<rparr>"

datatype exchange = DialFailed string | DeadlineFailed string | SendFailed string | Received string string

text \<open>\<open>ReadString\<close> up to the first line feed; without one the error that ended the stream.\<close>

definition ReadString :: "string \<Rightarrow> string \<Rightarrow> string + string" where
  "ReadString stream err = (if lf \<in> set stream then Inr (takeWhile (\<lambda>c. c \<noteq> lf) stream @ [lf]) else Inl err)"

text \<open>
  \<open>fmt.Sscanf\<close> with the verb \<open>%d\<close> on a text without line feed: leading space is skipped, then an optional sign and digits up to the first
  other character, as a 64-bit number.
\<close>

definition scanInt :: "string \<Rightarrow> int option" where
  "scanInt s =
    (let (_, neg, t) = dropSign (trimLeft s);
         ds = takeWhile isDigit t;
         n = (if neg then - decval ds else decval ds)
     in if ds = [] \<or> n < - (2 ^ 63) \<or> 2 ^ 63 \<le> n then None else Some n)"

definition errorResult :: "string \<Rightarrow> rawResult" where
  "errorResult e = \<lparr>rawStatusCode = 0, rawStatusLine = [], rawErr = Some e\<rparr>"

definition readStatus :: "string \<Rightarrow> rawResult" where
  "readStatus line =
    (let statusLine = TrimSpace line;
         (proto, rest, found) = Cut statusLine sp;
         (part, _, _) = Cut rest sp
     in if \<not> found then \<lparr>rawStatusCode = 0, rawStatusLine = statusLine, rawErr = None\<rparr>
        else
         (case scanInt part of
            None \<Rightarrow> \<lparr>rawStatusCode = 0, rawStatusLine = statusLine, rawErr = None\<rparr>
          | Some code \<Rightarrow> \<lparr>rawStatusCode = code, rawStatusLine = statusLine, rawErr = None\<rparr>))"

fun executeRawRequest :: "exchange \<Rightarrow> rawResult" where
  "executeRawRequest (DialFailed e) = errorResult e"
| "executeRawRequest (DeadlineFailed e) = errorResult e"
| "executeRawRequest (SendFailed e) = errorResult e"
| "executeRawRequest (Received stream err) =
    (case ReadString stream err of Inl e \<Rightarrow> errorResult e | Inr line \<Rightarrow> readStatus line)"

section \<open>The comparison\<close>

definition classifyDifference :: "rawResult \<Rightarrow> rawResult \<Rightarrow> string" where
  "classifyDifference left right =
    (if rawErr left \<noteq> None \<and> rawErr right \<noteq> None then ''unavailable''
     else if (rawErr left \<noteq> None) \<noteq> (rawErr right \<noteq> None) then ''infra-gap''
     else if rawStatusCode left \<noteq> rawStatusCode right then ''yes''
     else ''no'')"

record compareEntry =
  entryPayload :: string
  entryMTWS :: rawResultJSON
  entryProxy :: rawResultJSON
  entryDivergence :: string

text \<open>
  The loop of \<open>runCompare\<close>: for every payload first one exchange with the server, then one with the
  proxy. \<open>network k addr request\<close> is how exchange number \<open>k\<close> goes.
\<close>

type_synonym network = "nat \<Rightarrow> string \<Rightarrow> string \<Rightarrow> exchange"

definition compareOne :: "network \<Rightarrow> string \<Rightarrow> string \<Rightarrow> nat \<Rightarrow> payloadCase \<Rightarrow> compareEntry" where
  "compareOne network mtwsAddr proxyAddr k payload =
    (let mtwsResult = executeRawRequest (network k mtwsAddr (payloadBody payload));
         proxyResult = executeRawRequest (network (k + 1) proxyAddr (payloadBody payload))
     in \<lparr>entryPayload = payloadName payload, entryMTWS = toSerializable mtwsResult, entryProxy = toSerializable proxyResult,
         entryDivergence = classifyDifference mtwsResult proxyResult\<rparr>)"

fun compareLoop :: "network \<Rightarrow> string \<Rightarrow> string \<Rightarrow> nat \<Rightarrow> payloadCase list \<Rightarrow> compareEntry list" where
  "compareLoop network mtwsAddr proxyAddr k [] = []"
| "compareLoop network mtwsAddr proxyAddr k (payload # payloads) =
    compareOne network mtwsAddr proxyAddr k payload # compareLoop network mtwsAddr proxyAddr (k + 2) payloads"

text \<open>The results of the report; \<open>None\<close> is an error of the payload directory.\<close>

definition runCompare ::
    "(string \<Rightarrow> dirEntry list option) \<Rightarrow> (string \<Rightarrow> string option) \<Rightarrow> network \<Rightarrow> string \<Rightarrow> string \<Rightarrow> string \<Rightarrow> compareEntry list option" where
  "runCompare readDir readFile network mtwsAddr proxyAddr dir =
    map_option (compareLoop network mtwsAddr proxyAddr 0) (loadPayloads readDir readFile dir)"

section \<open>Fixtures in canonical form\<close>

text \<open>Every line feed follows a carriage return and every carriage return is followed by a line feed.\<close>

fun pairedBreaks :: "string \<Rightarrow> bool" where
  "pairedBreaks [] \<longleftrightarrow> True"
| "pairedBreaks [c] \<longleftrightarrow> c \<noteq> cr \<and> c \<noteq> lf"
| "pairedBreaks (a # b # s) \<longleftrightarrow> (if a = cr then b = lf \<and> pairedBreaks s else a \<noteq> lf \<and> pairedBreaks (b # s))"

lemma replaceLF_Cons: "replaceLF (c # s) = (if c = lf then [cr, lf] else [c]) @ replaceLF s"
  by (simp add: replaceLF_def)

lemma pairedBreaks_Cons: "c \<noteq> cr \<Longrightarrow> c \<noteq> lf \<Longrightarrow> pairedBreaks (c # s) = pairedBreaks s"
  by (cases s) auto

lemma pairedBreaks_replaceLF: "cr \<notin> set s \<Longrightarrow> pairedBreaks (replaceLF s)"
  by (induction s) (auto simp: replaceLF_def pairedBreaks_Cons)

lemma pairedBreaks_append: "pairedBreaks s \<Longrightarrow> pairedBreaks t \<Longrightarrow> pairedBreaks (s @ t)"
  by (induction s rule: pairedBreaks.induct) (auto simp: pairedBreaks_Cons)

text \<open>A text in this form is its own normal form up to the final blank line.\<close>

lemma replaceCRLF_no_cr: "pairedBreaks s \<Longrightarrow> cr \<notin> set (replaceCRLF s) \<and> replaceLF (replaceCRLF s) = s"
proof (induction s rule: pairedBreaks.induct)
  case (3 a b s)
  then show ?case by (cases "a = cr") (auto simp: replaceLF_Cons)
qed (auto simp: replaceLF_def)

lemma replaceCR_id: "cr \<notin> set s \<Longrightarrow> replaceCR s = s"
  by (induction s) (auto simp: replaceCR_def)

lemma cr_replaceCR: "cr \<notin> set (replaceCR s)"
  by (auto simp: replaceCR_def)

lemma replace_id: "pairedBreaks s \<Longrightarrow> replaceLF (replaceCR (replaceCRLF s)) = s"
  using replaceCRLF_no_cr replaceCR_id by simp

text \<open>Cutting the breaks at the end off keeps the pairs.\<close>

lemma pairedBreaks_prefix: "pairedBreaks (s @ t) \<Longrightarrow> s = [] \<or> last s \<noteq> cr \<Longrightarrow> pairedBreaks s"
proof (induction s rule: pairedBreaks.induct)
  case (2 c)
  then show ?case by (cases t) auto
next
  case (3 a b s)
  then show ?case by (auto split: if_splits)
qed simp

lemma trimBreaks_split: "\<exists>t. s = trimBreaks s @ t \<and> set t \<subseteq> {cr, lf}"
proof -
  have "rev s = takeWhile (\<lambda>c. c = cr \<or> c = lf) (rev s) @ dropWhile (\<lambda>c. c = cr \<or> c = lf) (rev s)" by simp
  then have "s = trimBreaks s @ rev (takeWhile (\<lambda>c. c = cr \<or> c = lf) (rev s))"
    by (metis rev_append rev_rev_ident trimBreaks_def)
  then show ?thesis by (intro exI conjI) (auto dest: set_takeWhileD)
qed

lemma trimBreaks_last: "trimBreaks s = [] \<or> last (trimBreaks s) \<noteq> cr \<and> last (trimBreaks s) \<noteq> lf"
  using hd_dropWhile [of "\<lambda>c. c = cr \<or> c = lf" "rev s"] by (auto simp: trimBreaks_def last_rev)

lemma pairedBreaks_trim: "pairedBreaks s \<Longrightarrow> pairedBreaks (trimBreaks s)"
  using trimBreaks_split [of s] trimBreaks_last [of s] pairedBreaks_prefix [of "trimBreaks s"] by metis

lemma fixture_normal: "pairedBreaks (normalizeHTTPFixture s) \<and> suffix [cr, lf, cr, lf] (normalizeHTTPFixture s)"
proof -
  have "pairedBreaks (replaceLF (replaceCR (replaceCRLF s)))" by (rule pairedBreaks_replaceLF [OF cr_replaceCR])
  then show ?thesis
    by (auto simp: normalizeHTTPFixture_def Let_def HasSuffix_def pairedBreaks_append pairedBreaks_trim intro: suffix_appendI)
qed

lemma fixture_idempotent: "pairedBreaks s \<Longrightarrow> suffix [cr, lf, cr, lf] s \<Longrightarrow> normalizeHTTPFixture s = s"
  by (simp add: normalizeHTTPFixture_def replace_id HasSuffix_def)

text \<open>Only line breaks are touched.\<close>

definition withoutBreaks :: "string \<Rightarrow> string" where
  "withoutBreaks s = filter (\<lambda>c. c \<noteq> cr \<and> c \<noteq> lf) s"

lemma withoutBreaks_replace:
  "withoutBreaks (replaceCRLF s) = withoutBreaks s" "withoutBreaks (replaceCR s) = withoutBreaks s" "withoutBreaks (replaceLF s) = withoutBreaks s"
proof -
  show "withoutBreaks (replaceCRLF s) = withoutBreaks s"
    by (induction s rule: replaceCRLF.induct) (auto simp: withoutBreaks_def)
  show "withoutBreaks (replaceCR s) = withoutBreaks s" "withoutBreaks (replaceLF s) = withoutBreaks s"
    by (induction s) (auto simp: withoutBreaks_def replaceCR_def replaceLF_def)
qed

lemma withoutBreaks_trim: "withoutBreaks (trimBreaks s) = withoutBreaks s"
proof -
  obtain t where t: "s = trimBreaks s @ t" "set t \<subseteq> {cr, lf}" using trimBreaks_split by blast
  then have "withoutBreaks t = []" by (auto simp: withoutBreaks_def filter_empty_conv)
  then show ?thesis by (subst (2) t(1)) (simp add: withoutBreaks_def)
qed

lemma fixture_content: "withoutBreaks (normalizeHTTPFixture s) = withoutBreaks s"
  by (simp add: normalizeHTTPFixture_def Let_def withoutBreaks_replace withoutBreaks_trim)
    (simp add: withoutBreaks_def withoutBreaks_replace [unfolded withoutBreaks_def] withoutBreaks_trim [unfolded withoutBreaks_def])

end
