(* ===== verification/Lab_Properties.thy ===== *)
theory Lab_Properties
  imports Lab_Compare Core_Properties
begin

text \<open>
  Properties of the comparison in \<^verbatim>\<open>cmd/lab/main.go\<close>, together with the server it talks to.
\<close>

section \<open>Reading a status line\<close>

lemma scanInt_Itoa:
  assumes "0 \<le> n" "n < 2 ^ 63"
  shows "scanInt (Itoa n) = Some n"
proof -
  have d: "Itoa n = digits (nat n)" "decval (digits (nat n)) = n" "list_all isDigit (digits (nat n))" "digits (nat n) \<noteq> []"
    using assms digits_spec [of "nat n"] by (simp_all add: Itoa_def)
  then obtain c cs where c: "digits (nat n) = c # cs" "isDigit c" by (cases "digits (nat n)") auto
  then have "trimLeft (c # cs) = c # cs" "dropSign (c # cs) = (False, False, c # cs)"
    by (auto simp: isDigit_def less_eq_char_def isSpace_def dropSign_def intro!: trimLeft_id)
  moreover have "takeWhile isDigit (c # cs) = c # cs" using d(3) c by (simp add: list_all_iff takeWhile_eq_all_conv)
  ultimately show ?thesis using d(1,2) c(1) assms by (simp add: scanInt_def)
qed

lemma trimRight_break:
  assumes "s \<noteq> []" and "byteval (last s) < 0x80" and "\<not> isSpace (byteval (last s))"
  shows "trimRight (s @ [cr, lf]) = s"
proof -
  have cut: "trimRight (t @ [c]) = trimRight t" if "byteval c < 0x80" "isSpace (byteval c)" for t c
    using that by (subst trimRight.simps) (simp add: decodeLastRune_def)
  have "trimRight ((s @ [cr]) @ [lf]) = trimRight (s @ [cr])" by (rule cut) (simp_all add: isSpace_def)
  also have "\<dots> = trimRight s" by (rule cut) (simp_all add: isSpace_def)
  also have "\<dots> = s" using assms by (rule trimRight_id)
  finally show ?thesis by simp
qed

text \<open>A status whose line the peer reads back: the reason ends with a printable letter and breaks no line.\<close>

definition printable :: "StatusCode \<Rightarrow> bool" where
  "printable status \<longleftrightarrow> 0 \<le> Code status \<and> Code status < 2 ^ 63 \<and> Reason status \<noteq> [] \<and> lf \<notin> set (Reason status)
     \<and> byteval (last (Reason status)) < 0x80 \<and> \<not> isSpace (byteval (last (Reason status)))"

definition statusText :: "StatusCode \<Rightarrow> string" where
  "statusText status = ''HTTP/1.1 '' @ Itoa (Code status) @ [sp] @ Reason status"

lemma readStatus_line:
  assumes "printable status"
  shows "readStatus (statusText status @ [cr, lf]) = \<lparr>rawStatusCode = Code status, rawStatusLine = statusText status, rawErr = None\<rparr>"
proof -
  let ?s = "statusText status"
  have "?s \<noteq> []" "last ?s = last (Reason status)" using assms by (simp_all add: statusText_def printable_def)
  moreover have "trimLeft (?s @ [cr, lf]) = ?s @ [cr, lf]"
    by (simp add: statusText_def) (rule trimLeft_id; simp add: isSpace_def)
  ultimately have trim: "TrimSpace (?s @ [cr, lf]) = ?s"
    using assms by (simp add: TrimSpace_def trimRight_break printable_def)
  have "Cut ?s sp = (''HTTP/1.1'', Itoa (Code status) @ sp # Reason status, True)"
    using Cut_append [of sp "''HTTP/1.1''" "Itoa (Code status) @ sp # Reason status"] by (simp add: statusText_def)
  moreover have "sp \<notin> set (Itoa (Code status))" using Itoa_set [of sp] by (auto simp: isDigit_def less_eq_char_def)
  then have "Cut (Itoa (Code status) @ sp # Reason status) sp = (Itoa (Code status), Reason status, True)" by (rule Cut_append)
  ultimately show ?thesis using assms by (simp add: readStatus_def trim scanInt_Itoa printable_def)
qed

lemma executeRawRequest_response:
  assumes "printable status" and "httpVersion w = ''HTTP/1.1''"
  shows "executeRawRequest (Received (responseHead w date status contentType n @ rest) e)
    = \<lparr>rawStatusCode = Code status, rawStatusLine = statusText status, rawErr = None\<rparr>"
proof -
  have "lf \<notin> set (statusText status @ [cr])" using assms(1) by (simp add: statusText_def printable_def)
  moreover obtain tail where "responseHead w date status contentType n @ rest = (statusText status @ [cr]) @ lf # tail"
    using assms(2) by (auto simp: responseHead_def Let_def statusText_def)
  ultimately have "ReadString (responseHead w date status contentType n @ rest) e = Inr (statusText status @ [cr, lf])"
    by (simp add: ReadString_def takeWhile_append)
  then show ?thesis using readStatus_line [OF assms(1)] by simp
qed

section \<open>Properties\<close>

text \<open>
  C35. The laboratory reports the verdict of the server. If the parser of the server refuses a payload, then the entry of the
  comparison for this payload, computed from the bytes that the connection handler sends, holds
  the status 403 when a rule of the policy matched and 400 otherwise, and the payload
  counts as a divergence exactly if the proxy answers with another status.
\<close>

theorem comparison_reports_refusal:
  assumes "deadlineOk env 0" and "parseMessage (defaultWAF env) (connection chunks) = (Inl err, r')" and "err \<noteq> Panic"
    and "attempts s = []" and "sent s = []" and "metrics s = Some m"
    and "HandleConnectionWithOptions env options ro (connection chunks) s = (r'', s')"
    and "network k mtwsAddr (concat chunks) = Received (sent s') e"
    and "proxy = executeRawRequest (network (k + 1) proxyAddr (concat chunks))"
    and "entry = compareOne network mtwsAddr proxyAddr k \<lparr>payloadName = name, payloadBody = concat chunks\<rparr>"
  shows "jsonStatusCode (entryMTWS entry) = (case err of Security _ \<Rightarrow> 403 | _ \<Rightarrow> 400) \<and> jsonError (entryMTWS entry) = []
    \<and> (entryDivergence entry = ''yes'' \<longleftrightarrow> rawErr proxy = None \<and> rawStatusCode proxy \<noteq> (case err of Security _ \<Rightarrow> 403 | _ \<Rightarrow> 400))"
proof -
  let ?code = "case err of Security _ \<Rightarrow> 403 | _ \<Rightarrow> (400 :: int)"
  have "printable (refusal err)" "Code (refusal err) = ?code"
    by (cases err; simp add: refusal_def printable_def StatusForbidden_def StatusBadRequest_def isSpace_def)+
  moreover have "sent s' = plainResponse (NewResponseWriterWithOptions True ''HTTP/1.1'' (errorOptions (effectiveOptions options))) (dateAt env 0) (refusal err)"
    using refused_outcome [OF assms(1-4,6,7)] assms(5) by simp
  ultimately have mtws: "executeRawRequest (network k mtwsAddr (concat chunks)) = \<lparr>rawStatusCode = ?code, rawStatusLine = statusText (refusal err), rawErr = None\<rparr>"
    unfolding assms(8)
    by (simp add: plainResponse_def executeRawRequest_response NewResponseWriterWithOptions_def del: executeRawRequest.simps)
  show ?thesis by (auto simp: assms(9,10) compareOne_def Let_def toSerializable_def mtws classifyDifference_def)
qed

definition attackAnswer :: network where
  "attackAnswer k addr request =
    (if k = 0 then Received (sent (snd (HandleConnectionWithOptions exampleEnv defaultOptions None (connection [attackText]) freshWorld))) ''EOF''
     else DialFailed ''refused'')"

theorem comparison_reports_refusal_witness:
  "jsonStatusCode (entryMTWS (compareOne attackAnswer ''mtws'' ''proxy'' 0 \<lparr>payloadName = ''x.raw'', payloadBody = concat [attackText]\<rparr>)) = 403"
proof -
  obtain se r' where p: "parseMessage (NewPatterns id exampleRules) (connection [attackText]) = (Inl (Security se), r')"
    using attack_refused by (auto split: sum.splits error.splits) (metis surjective_pairing)
  have e: "deadlineOk exampleEnv 0" "parseMessage (defaultWAF exampleEnv) (connection [attackText]) = (Inl (Security se), r')"
      "attempts freshWorld = []" "sent freshWorld = []" "metrics freshWorld = Some NewMetrics"
    using p by (simp_all add: exampleEnv_def freshWorld_def)
  obtain r'' s' where h: "HandleConnectionWithOptions exampleEnv defaultOptions None (connection [attackText]) freshWorld = (r'', s')" by fastforce
  have "attackAnswer 0 ''mtws'' (concat [attackText]) = Received (sent s') ''EOF''" by (simp add: attackAnswer_def h)
  from comparison_reports_refusal [OF e(1,2) _ e(3-5) h, where network = attackAnswer and mtwsAddr = "''mtws''", OF _ this refl refl] show ?thesis by simp
qed

text \<open>
  C0. Fixtures are canonical. The normal form of a \<^verbatim>\<open>.http\<close> file has every line break as a pair of carriage return and line feed,
  ends with a blank line, keeps everything but the line breaks, and is its own normal form.
\<close>

theorem fixture_canonical:
  "pairedBreaks (normalizeHTTPFixture body) \<and> suffix [cr, lf, cr, lf] (normalizeHTTPFixture body)
   \<and> withoutBreaks (normalizeHTTPFixture body) = withoutBreaks body
   \<and> normalizeHTTPFixture (normalizeHTTPFixture body) = normalizeHTTPFixture body"
  using fixture_normal [of body] fixture_content [of body] fixture_idempotent by blast

end
