(* ===== verification/Go_Flags.thy ===== *)
theory Go_Flags
  imports Config
begin

text \<open>
  Command lines as \<^verbatim>\<open>flag.FlagSet\<close> parses them, for sets that return their errors. A set is the list of its flags with their values, at
  first the defaults; the constructor of a value is the type of the flag. The messages and the usage
  text that a failed parse writes to the standard error output are not modelled.
\<close>

section \<open>Values\<close>

datatype flagValue = StringValue string | IntValue int | BoolValue bool | DurationValue int

type_synonym flagSet = "(string \<times> flagValue) list"

datatype flagError = BadSyntax string | HelpRequested | Undefined string | NeedsArgument string | InvalidValue string string

text \<open>\<open>strconv.ParseInt\<close> with base 0 and 64 bits: the base is in the prefix, underscores may separate digits.\<close>

definition digitOf :: "byte \<Rightarrow> nat option" where
  "digitOf c =
    (if isDigit c then Some (byteval c - 48)
     else if asciiLowerCase (asciiLower c) then Some (byteval (asciiLower c) - 97 + 10)
     else None)"

fun digitsValue :: "nat \<Rightarrow> int \<Rightarrow> string \<Rightarrow> int option" where
  "digitsValue base n [] = Some n"
| "digitsValue base n (c # s) =
    (if c = CHR ''_'' then digitsValue base n s
     else
      (case digitOf c of
         None \<Rightarrow> None
       | Some d \<Rightarrow> if base \<le> d then None else digitsValue base (n * int base + int d) s))"

definition basePrefix :: "string \<Rightarrow> nat \<times> string" where
  "basePrefix s =
    (if hd s \<noteq> CHR ''0'' then (10, s)
     else if 3 \<le> length s \<and> asciiLower (s ! 1) = CHR ''b'' then (2, drop 2 s)
     else if 3 \<le> length s \<and> asciiLower (s ! 1) = CHR ''o'' then (8, drop 2 s)
     else if 3 \<le> length s \<and> asciiLower (s ! 1) = CHR ''x'' then (16, drop 2 s)
     else (8, tl s))"

definition ParseUint0 :: "string \<Rightarrow> int option" where
  "ParseUint0 s =
    (if s = [] then None
     else
      (let (base, t) = basePrefix s in
       case digitsValue base 0 t of
         None \<Rightarrow> None
       | Some n \<Rightarrow> if 2 ^ 64 \<le> n \<or> CHR ''_'' \<in> set t \<and> \<not> underscoreOK s then None else Some n))"

definition ParseInt0 :: "string \<Rightarrow> int option" where
  "ParseInt0 s =
    (let (_, neg, t) = dropSign s in
     case ParseUint0 t of
       None \<Rightarrow> None
     | Some n \<Rightarrow>
        if \<not> neg \<and> 2 ^ 63 \<le> n \<or> neg \<and> 2 ^ 63 < n then None else Some (if neg then - n else n))"

definition ParseBool :: "string \<Rightarrow> bool option" where
  "ParseBool s =
    (if s \<in> set [''1'', ''t'', ''T'', ''true'', ''TRUE'', ''True''] then Some True
     else if s \<in> set [''0'', ''f'', ''F'', ''false'', ''FALSE'', ''False''] then Some False
     else None)"

text \<open>The method \<open>Set\<close> of the four types of flags.\<close>

fun setValue :: "flagValue \<Rightarrow> string \<Rightarrow> flagValue option" where
  "setValue (StringValue _) s = Some (StringValue s)"
| "setValue (IntValue _) s = map_option IntValue (ParseInt0 s)"
| "setValue (BoolValue _) s = map_option BoolValue (ParseBool s)"
| "setValue (DurationValue _) s = map_option DurationValue (ParseDuration s)"

fun isBoolFlag :: "flagValue \<Rightarrow> bool" where
  "isBoolFlag (BoolValue _) = True"
| "isBoolFlag _ = False"

definition setFlag :: "string \<Rightarrow> flagValue \<Rightarrow> flagSet \<Rightarrow> flagSet" where
  "setFlag name v fs = map (\<lambda>(n, old). if n = name then (n, v) else (n, old)) fs"

section \<open>Parsing\<close>

text \<open>The name and the value after an equals sign, which is not the first character.\<close>

definition splitName :: "string \<Rightarrow> string \<times> string option" where
  "splitName name =
    (let (a, b, found) = Cut (tl name) (CHR ''='') in (hd name # a, if found then Some b else None))"

definition assign :: "flagSet \<Rightarrow> string \<Rightarrow> flagValue \<Rightarrow> string \<Rightarrow> flagError + flagSet" where
  "assign fs name old value =
    (case setValue old value of None \<Rightarrow> Inl (InvalidValue value name) | Some v \<Rightarrow> Inr (setFlag name v fs))"

text \<open>A flag, given its name and value and the arguments behind it.\<close>

definition applyFlag :: "flagSet \<Rightarrow> string \<Rightarrow> string option \<Rightarrow> string list \<Rightarrow> flagError + (flagSet \<times> string list)" where
  "applyFlag fs name value args =
    (case map_of fs name of
       None \<Rightarrow> Inl (if name = ''help'' \<or> name = ''h'' then HelpRequested else Undefined name)
     | Some old \<Rightarrow>
        if isBoolFlag old then
          map_sum id (\<lambda>fs'. (fs', args)) (assign fs name old (case value of Some v \<Rightarrow> v | None \<Rightarrow> ''true''))
        else
          (case value of
             Some v \<Rightarrow> map_sum id (\<lambda>fs'. (fs', args)) (assign fs name old v)
           | None \<Rightarrow>
              (case args of
                 [] \<Rightarrow> Inl (NeedsArgument name)
               | v # rest \<Rightarrow> map_sum id (\<lambda>fs'. (fs', rest)) (assign fs name old v))))"

text \<open>\<open>parseOne\<close>: an error, or whether a flag was seen, with the set and the arguments that are left.\<close>

definition parseOne :: "flagSet \<Rightarrow> string list \<Rightarrow> flagError + (bool \<times> flagSet \<times> string list)" where
  "parseOne fs args =
    (case args of
       [] \<Rightarrow> Inr (False, fs, args)
     | s # rest \<Rightarrow>
        if length s < 2 \<or> hd s \<noteq> CHR ''-'' then Inr (False, fs, args)
        else if s = ''--'' then Inr (False, fs, rest)
        else
         (let name = (if s ! 1 = CHR ''-'' then drop 2 s else drop 1 s) in
          if name = [] \<or> hd name = CHR ''-'' \<or> hd name = CHR ''='' then Inl (BadSyntax s)
          else
           (let (name, value) = splitName name in map_sum id (Pair True) (applyFlag fs name value rest))))"

lemma map_sum_Inr: "map_sum f g x = Inr y \<longleftrightarrow> (\<exists>z. x = Inr z \<and> y = g z)"
  by (cases x) auto

lemma applyFlag_args: "applyFlag fs name value args = Inr (fs', rest) \<Longrightarrow> length rest \<le> length args"
  by (auto simp: applyFlag_def assign_def split: option.splits if_splits list.splits sum.splits)

lemma parseOne_args: "parseOne fs args = Inr (True, fs', rest) \<Longrightarrow> length rest < length args"
  by (cases args) (auto simp: parseOne_def Let_def map_sum_Inr split: if_splits prod.splits dest!: applyFlag_args)

function Parse :: "flagSet \<Rightarrow> string list \<Rightarrow> flagError + (flagSet \<times> string list)" where
  "Parse fs args =
    (case parseOne fs args of
       Inl e \<Rightarrow> Inl e
     | Inr (seen, fs', rest) \<Rightarrow> if seen then Parse fs' rest else Inr (fs', rest))"
  by pat_completeness auto
termination by (relation "measure (length \<circ> snd)") (auto dest: parseOne_args)

declare Parse.simps [simp del]

text \<open>The values of the flags, for a set whose flags keep their types.\<close>

fun stringOf :: "flagValue option \<Rightarrow> string" where
  "stringOf (Some (StringValue s)) = s"
| "stringOf _ = []"

fun intOf :: "flagValue option \<Rightarrow> int" where
  "intOf (Some (IntValue n)) = n"
| "intOf (Some (DurationValue n)) = n"
| "intOf _ = 0"

fun boolOf :: "flagValue option \<Rightarrow> bool" where
  "boolOf (Some (BoolValue b)) = b"
| "boolOf _ = False"

section \<open>What a command line means\<close>

text \<open>A parsed set has the same flags, each of its own type.\<close>

fun sameType :: "flagValue \<Rightarrow> flagValue \<Rightarrow> bool" where
  "sameType (StringValue _) (StringValue _) = True"
| "sameType (IntValue _) (IntValue _) = True"
| "sameType (BoolValue _) (BoolValue _) = True"
| "sameType (DurationValue _) (DurationValue _) = True"
| "sameType _ _ = False"

definition sameFlags :: "flagSet \<Rightarrow> flagSet \<Rightarrow> bool" where
  "sameFlags fs fs' \<longleftrightarrow> list_all2 (\<lambda>(n, v) (n', v'). n = n' \<and> sameType v v') fs fs'"

lemma sameType_refl [simp]: "sameType v v"
  by (cases v) auto

lemma sameType_trans: "sameType u v \<Longrightarrow> sameType v w \<Longrightarrow> sameType u w"
  by (cases u; cases v; cases w) auto

lemma sameFlags_refl: "sameFlags fs fs"
  by (auto simp: sameFlags_def intro: list.rel_refl)

lemma sameFlags_trans: "sameFlags fs gs \<Longrightarrow> sameFlags gs hs \<Longrightarrow> sameFlags fs hs"
  unfolding sameFlags_def by (rule list_all2_trans [of "\<lambda>(n, v) (n', v'). n = n' \<and> sameType v v'"]) (auto intro: sameType_trans)

lemma setValue_sameType: "setValue old s = Some v \<Longrightarrow> sameType old v"
  by (cases old) auto

lemma setFlag_same:
  assumes "distinct (map fst fs)" and "map_of fs name = Some old" and "sameType old v"
  shows "sameFlags fs (setFlag name v fs)"
proof -
  have "sameType u v" if "(name, u) \<in> set fs" for u using assms(2,3) map_of_is_SomeI [OF assms(1) that] by simp
  then show ?thesis by (auto simp: sameFlags_def setFlag_def list_all2_map2 intro!: list.rel_refl_strong split: if_splits)
qed

lemma sameFlags_names: "sameFlags fs fs' \<Longrightarrow> map fst fs' = map fst fs"
  unfolding sameFlags_def by (induction rule: list_all2_induct) auto

lemma applyFlag_same: "distinct (map fst fs) \<Longrightarrow> applyFlag fs name value args = Inr (fs', rest) \<Longrightarrow> sameFlags fs fs'"
  by (auto simp: applyFlag_def assign_def map_sum_Inr split: option.splits if_splits list.splits intro!: setFlag_same dest: setValue_sameType)

lemma parseOne_same: "distinct (map fst fs) \<Longrightarrow> parseOne fs args = Inr (seen, fs', rest) \<Longrightarrow> sameFlags fs fs'"
  by (cases args) (auto simp: parseOne_def Let_def map_sum_Inr sameFlags_refl split: if_splits prod.splits intro: applyFlag_same)

lemma Parse_same: "distinct (map fst fs) \<Longrightarrow> Parse fs args = Inr (fs', rest) \<Longrightarrow> sameFlags fs fs'"
proof (induction fs args rule: Parse.induct)
  case (1 fs args)
  then obtain seen gs as where one: "parseOne fs args = Inr (seen, gs, as)"
    by (cases "parseOne fs args") (auto simp: Parse.simps [of fs args])
  note same = parseOne_same [OF "1.prems"(1) one]
  show ?case
  proof (cases seen)
    case True
    with 1 one have "Parse gs as = Inr (fs', rest)" by (simp add: Parse.simps [of fs args])
    moreover have "distinct (map fst gs)" using sameFlags_names [OF same] "1.prems"(1) by simp
    ultimately have "sameFlags gs fs'" using "1.IH" [OF one refl refl] True by blast
    with same show ?thesis by (rule sameFlags_trans)
  next
    case False
    with 1 one same show ?thesis by (simp add: Parse.simps [of fs args])
  qed
qed

text \<open>Arguments that do not begin with a minus sign end the flags; a flag with its value after an equals sign is set.\<close>

lemma Parse_positional: "args = [] \<or> hd args = [] \<or> hd (hd args) \<noteq> CHR ''-'' \<Longrightarrow> Parse fs args = Inr (fs, args)"
  by (cases args) (auto simp: Parse.simps [of fs] parseOne_def)

lemma Parse_assignment:
  assumes "name \<noteq> []" and "hd name \<noteq> CHR ''-''" and "CHR ''='' \<notin> set name" and "map_of fs name = Some old" and "setValue old s = Some v"
  shows "Parse fs ((CHR ''-'' # name @ CHR ''='' # s) # args) = Parse (setFlag name v fs) args"
proof -
  obtain c cs where name: "name = c # cs" using assms(1) by (cases name) auto
  have "splitName (name @ CHR ''='' # s) = (name, Some s)" using assms(3) name by (simp add: splitName_def Cut_append)
  moreover have "c \<noteq> CHR ''-''" "c \<noteq> CHR ''=''" using assms(2,3) name by auto
  moreover have "applyFlag fs name (Some s) args = Inr (setFlag name v fs, args)" using assms(4,5) by (simp add: applyFlag_def assign_def)
  ultimately have "parseOne fs ((CHR ''-'' # name @ CHR ''='' # s) # args) = Inr (True, setFlag name v fs, args)"
    using name by (simp add: parseOne_def Let_def)
  then show ?thesis by (simp add: Parse.simps [of fs "_ # _"])
qed

end
