(* ===== verification/Go_Files.thy ===== *)
theory Go_Files
  imports Main
begin

text \<open>
  Files as the tools write them: a map from paths to contents and permissions, with the outcomes of \<^verbatim>\<open>os.Stat\<close>, \<^verbatim>\<open>os.MkdirAll\<close> and \<^verbatim>\<open>os.WriteFile\<close> on
  it. Directories are made, but not represented.
\<close>

section \<open>Definitions\<close>

datatype perm = OwnerRead | OwnerWrite | GroupRead | OtherRead

type_synonym files = "string \<Rightarrow> (string \<times> perm set) option"

text \<open>How \<open>os.WriteFile\<close> ends: completely, without having opened the file, or after some bytes.\<close>

datatype writeOutcome = Written | NotOpened | CutShort nat

record system =
  umask :: "perm set"
  statFails :: "string \<Rightarrow> bool"
  mkdirFails :: "string \<Rightarrow> bool"
  writeEnds :: "string \<Rightarrow> writeOutcome"

text \<open>The permissions are those of the call only if the file is created; an existing file is truncated and keeps its own.\<close>

definition putFile :: "system \<Rightarrow> string \<Rightarrow> string \<Rightarrow> perm set \<Rightarrow> files \<Rightarrow> files" where
  "putFile sys path content perms fs =
    fs(path \<mapsto> (content, case fs path of Some (_, old) \<Rightarrow> old | None \<Rightarrow> perms - umask sys))"

definition WriteFile :: "system \<Rightarrow> string \<Rightarrow> string \<Rightarrow> perm set \<Rightarrow> files \<Rightarrow> bool \<times> files" where
  "WriteFile sys path content perms fs =
    (case writeEnds sys path of
       Written \<Rightarrow> (True, putFile sys path content perms fs)
     | NotOpened \<Rightarrow> (False, fs)
     | CutShort n \<Rightarrow> (False, putFile sys path (take n content) perms fs))"

definition ownerOnly :: "perm set" where "ownerOnly = {OwnerRead, OwnerWrite}"
definition worldReadable :: "perm set" where "worldReadable = {OwnerRead, OwnerWrite, GroupRead, OtherRead}"

section \<open>What a write changes\<close>

lemma WriteFile_other: "WriteFile sys path content perms fs = (ok, fs') \<Longrightarrow> p \<noteq> path \<Longrightarrow> fs' p = fs p"
  by (auto simp: WriteFile_def putFile_def split: writeOutcome.splits)

lemma WriteFile_True:
  "WriteFile sys path content perms fs = (True, fs') \<Longrightarrow>
   fs' path = Some (content, case fs path of Some (_, old) \<Rightarrow> old | None \<Rightarrow> perms - umask sys)"
  by (auto simp: WriteFile_def putFile_def split: writeOutcome.splits)

end
