(* ===== verification/Lab_Commands.thy ===== *)
theory Lab_Commands
  imports Server_Routes Lab_Compare Lab_Benchmark Go_Flags Go_Files
begin

text \<open>
  The laboratory \<^verbatim>\<open>cmd/lab/main.go\<close> as a command: the dispatch on the subcommand, its flags, the lines it prints, the report it
  writes and its exit status. \<open>Lab_Compare\<close> and \<open>Lab_Benchmark\<close> hold what happens in between. The texts of errors on
  the standard error output are not modelled.
\<close>

section \<open>Reports\<close>

text \<open>The values that are encoded as JSON. A slice without elements is \<open>null\<close>; the keys of a map are sorted as text.\<close>

definition rawResultFields :: "rawResultJSON \<Rightarrow> json" where
  "rawResultFields r = JObject
    ([(''status_code'', JInt (jsonStatusCode r)), (''status_line'', JString (jsonStatusLine r))]
     @ (if jsonError r = [] then [] else [(''error'', JString (jsonError r))]))"

definition compareEntryFields :: "compareEntry \<Rightarrow> json" where
  "compareEntryFields e = JObject
    [(''payload'', JString (entryPayload e)), (''mtws'', rawResultFields (entryMTWS e)), (''proxy'', rawResultFields (entryProxy e)),
     (''divergence'', JString (entryDivergence e))]"

record compareReport =
  GeneratedAt :: string
  MTWSAddr :: string
  ProxyAddr :: string
  PayloadDir :: string
  Results :: "compareEntry list"

definition compareFields :: "compareReport \<Rightarrow> json" where
  "compareFields r = JObject
    [(''generated_at'', JString (GeneratedAt r)), (''mtws_addr'', JString (MTWSAddr r)), (''proxy_addr'', JString (ProxyAddr r)),
     (''payload_dir'', JString (PayloadDir r)),
     (''results'', if Results r = [] then JNull else JList (map compareEntryFields (Results r)))]"

definition latencyFields :: "latencyStats \<Rightarrow> json" where
  "latencyFields l = JObject
    [(''average'', JString (statAverage l)), (''min'', JString (statMin l)), (''p50'', JString (statP50 l)),
     (''p95'', JString (statP95 l)), (''p99'', JString (statP99 l)), (''max'', JString (statMax l))]"

definition statusFields :: "(int \<times> int) list \<Rightarrow> json" where
  "statusFields counts = JObject (map (\<lambda>(code, n). (Itoa code, JInt n)) (sort_key (\<lambda>(code, n). Itoa code) counts))"

definition benchmarkFields :: "string \<Rightarrow> benchmarkReport \<Rightarrow> json" where
  "benchmarkFields generated r = JObject
    ([(''generated_at'', JString generated), (''url'', JString (URL r)), (''requests'', JInt (Requests r)), (''concurrency'', JInt (Concurrency r))]
     @ (if Duration r = [] then [] else [(''duration'', JString (Duration r))])
     @ [(''keep_alive'', JBool (KeepAlive r)), (''elapsed'', JString (Elapsed r)), (''throughput'', JFloat (Throughput r)),
        (''errors'', JInt (Errors r)), (''status_codes'', statusFields (StatusCodes r)), (''latency'', latencyFields (Latency r))])"

section \<open>The world of the commands\<close>

text \<open>
  What the commands ask the system: directories, files, exchanges with a server, the decoder of reports, file patterns, the
  encoder of JSON, the time as text, the largest capacity for which a slice or a channel can be made, and for a benchmark how long it took and in which state its threads ended.
\<close>

record labWorld =
  labReadDir :: "string \<Rightarrow> dirEntry list option"
  labReadFile :: "string \<Rightarrow> string option"
  labExchanges :: "int \<Rightarrow> network"
  labDecode :: "string \<Rightarrow> benchmarkReport option"
  labGlob :: "string \<Rightarrow> string list option"
  labMarshal :: "json \<Rightarrow> string option"
  labNow :: string
  labCapacity :: int
  labSchedule :: "int \<Rightarrow> benchmarkFlags \<Rightarrow> run \<Rightarrow> int \<times> run"
  labSystem :: system

datatype commandError =
    FlagError flagError
  | PayloadError
  | MkdirError
  | EncodeError
  | WriteFileError
  | BenchmarkError labError
  | SummarizeError summaryError

definition writeJSONFile :: "labWorld \<Rightarrow> string \<Rightarrow> json \<Rightarrow> files \<Rightarrow> commandError option \<times> files" where
  "writeJSONFile w path value fs =
    (if mkdirFails (labSystem w) (Dir path) then (Some MkdirError, fs)
     else
      (case labMarshal w value of
         None \<Rightarrow> (Some EncodeError, fs)
       | Some data \<Rightarrow>
          (case WriteFile (labSystem w) path (data @ [lf]) worldReadable fs of
             (True, fs') \<Rightarrow> (None, fs')
           | (False, fs') \<Rightarrow> (Some WriteFileError, fs'))))"

definition writeReport :: "labWorld \<Rightarrow> string \<Rightarrow> json \<Rightarrow> files \<Rightarrow> commandError option \<times> files" where
  "writeReport w jsonOut value fs = (if jsonOut \<noteq> [] then writeJSONFile w jsonOut value fs else (None, fs))"

type_synonym printed = "string list \<times> commandError option \<times> files"

section \<open>compare\<close>

definition second :: int where "second = 1000000000"

definition compareFlags :: flagSet where
  "compareFlags =
    [(''mtws'', StringValue ''127.0.0.1:8080''), (''proxy'', StringValue ''127.0.0.1:8081''),
     (''payload-dir'', StringValue ''experiments/payloads''), (''timeout'', DurationValue (3 * second)), (''json-out'', StringValue [])]"

definition compareLine :: "string \<Rightarrow> string \<Rightarrow> string \<Rightarrow> string \<Rightarrow> string" where
  "compareLine payload mtws proxy divergence =
    padRight 28 payload @ '' '' @ padRight 18 mtws @ '' '' @ padRight 18 proxy @ '' '' @ padRight 12 divergence"

fun compareLines :: "network \<Rightarrow> string \<Rightarrow> string \<Rightarrow> nat \<Rightarrow> payloadCase list \<Rightarrow> string list" where
  "compareLines network mtwsAddr proxyAddr k [] = []"
| "compareLines network mtwsAddr proxyAddr k (payload # payloads) =
    (let mtwsResult = executeRawRequest (network k mtwsAddr (payloadBody payload));
         proxyResult = executeRawRequest (network (k + 1) proxyAddr (payloadBody payload))
     in compareLine (payloadName payload) (Summary mtwsResult) (Summary proxyResult) (classifyDifference mtwsResult proxyResult)
        # compareLines network mtwsAddr proxyAddr (k + 2) payloads)"

definition compareCommand :: "labWorld \<Rightarrow> string list \<Rightarrow> files \<Rightarrow> printed" where
  "compareCommand w args fs =
    (case Parse compareFlags args of
       Inl e \<Rightarrow> ([], Some (FlagError e), fs)
     | Inr (opts, _) \<Rightarrow>
        (let mtwsAddr = stringOf (map_of opts ''mtws''); proxyAddr = stringOf (map_of opts ''proxy'');
             dir = stringOf (map_of opts ''payload-dir''); network = labExchanges w (intOf (map_of opts ''timeout''))
         in case loadPayloads (labReadDir w) (labReadFile w) dir of
              None \<Rightarrow> ([], Some PayloadError, fs)
            | Some payloads \<Rightarrow>
               (let report = \<lparr>GeneratedAt = labNow w, MTWSAddr = mtwsAddr, ProxyAddr = proxyAddr, PayloadDir = dir,
                      Results = compareLoop network mtwsAddr proxyAddr 0 payloads\<rparr>
                in (''Payload comparison'' # compareLine ''Payload'' ''MTWS'' ''Proxy'' ''Divergence''
                      # compareLines network mtwsAddr proxyAddr 0 payloads,
                    writeReport w (stringOf (map_of opts ''json-out'')) (compareFields report) fs))))"

section \<open>benchmark\<close>

definition benchmarkFlagSet :: flagSet where
  "benchmarkFlagSet =
    [(''url'', StringValue ''http://127.0.0.1:8080/health''), (''requests'', IntValue 200), (''concurrency'', IntValue 10),
     (''duration'', DurationValue 0), (''timeout'', DurationValue (5 * second)), (''keepalive'', BoolValue False), (''json-out'', StringValue [])]"

definition flagsOf :: "flagSet \<Rightarrow> benchmarkFlags" where
  "flagsOf opts =
    \<lparr>url = stringOf (map_of opts ''url''), requests = intOf (map_of opts ''requests''), concurrency = intOf (map_of opts ''concurrency''),
     duration = intOf (map_of opts ''duration''), keepalive = boolOf (map_of opts ''keepalive'')\<rparr>"

definition statusLines :: "(int \<times> int) list \<Rightarrow> string list" where
  "statusLines counts =
    (if counts = [] then []
     else ''Status codes:'' #
       map (\<lambda>code. ''  '' @ Itoa code @ '' -> '' @ Itoa (case map_of counts code of None \<Rightarrow> 0 | Some n \<Rightarrow> n)) (sortedStatusCodes counts))"

definition tooManyRequests :: "(int \<times> int) list \<Rightarrow> string list" where
  "tooManyRequests counts =
    (if 0 < (case map_of counts 429 of None \<Rightarrow> 0 | Some n \<Rightarrow> n)
     then [''Warning: 429 responses observed; do not use this run as clean parser/WAF latency evidence.''] else [])"

definition benchmarkLines :: "benchmarkFlags \<Rightarrow> int \<Rightarrow> run \<Rightarrow> string list" where
  "benchmarkLines fl elapsed r =
    (let completedRequests = int (length (latencies r)); summary = summarizeLatencies (latencies r)
     in [''Benchmark'', ''URL: '' @ url fl]
        @ (if 0 < duration fl then [''Mode: soak'', ''Duration target: '' @ DurationString (duration fl)] else [''Mode: fixed-requests''])
        @ [''Requests: '' @ Itoa completedRequests, ''Concurrency: '' @ Itoa (concurrency fl), ''Keep-alive: '' @ boolText (keepalive fl),
           ''Elapsed: '' @ DurationString elapsed, ''Throughput: '' @ formatFixed 2 (throughputOf completedRequests elapsed) @ '' req/s'',
           ''Latency avg: '' @ DurationString (Average summary), ''Latency min: '' @ DurationString (MinLatency summary),
           ''Latency p50: '' @ DurationString (P50 summary), ''Latency p95: '' @ DurationString (P95 summary),
           ''Latency p99: '' @ DurationString (P99 summary), ''Latency max: '' @ DurationString (MaxLatency summary),
           ''Transport errors: '' @ Itoa (errCount r)]
        @ statusLines (statusCounts r) @ tooManyRequests (statusCounts r))"

definition benchmarkCommand :: "labWorld \<Rightarrow> string list \<Rightarrow> files \<Rightarrow> printed" where
  "benchmarkCommand w args fs =
    (case Parse benchmarkFlagSet args of
       Inl e \<Rightarrow> ([], Some (FlagError e), fs)
     | Inr (opts, _) \<Rightarrow>
        (case startBenchmark (labCapacity w) (flagsOf opts) of
           Inl e \<Rightarrow> ([], Some (BenchmarkError e), fs)
         | Inr r0 \<Rightarrow>
            (let (elapsed, r) = labSchedule w (intOf (map_of opts ''timeout'')) (flagsOf opts) r0
             in (benchmarkLines (flagsOf opts) elapsed r,
                 writeReport w (stringOf (map_of opts ''json-out'')) (benchmarkFields (labNow w) (reportOf (flagsOf opts) elapsed r)) fs))))"

section \<open>summarize\<close>

definition summarizeFlags :: flagSet where
  "summarizeFlags = [(''glob'', StringValue [])]"

definition summaryLine :: "string list \<Rightarrow> string" where
  "summaryLine cols = concat (map2 (\<lambda>w c. padRight w c @ '' '') [34, 5, 12, 12, 12, 12] cols) @ padRight 12 (last cols)"

definition summaryHeader :: string where
  "summaryHeader = summaryLine [''URL'', ''Runs'', ''Median RPS'', ''Median Avg'', ''Median P50'', ''Median P95'', ''Median P99'']"

definition summaryRow :: "string \<times> benchmarkSummary \<Rightarrow> string" where
  "summaryRow row =
    (let (u, s) = row in
     summaryLine [u, Itoa (Runs s), formatFixed 2 (sumThroughput s), DurationString (sumAverage s), DurationString (sumP50 s),
       DurationString (sumP95 s), DurationString (sumP99 s)])"

text \<open>The errors before the table is begun.\<close>

definition beforeTable :: "summaryError \<Rightarrow> bool" where
  "beforeTable e \<longleftrightarrow> (case e of BadGlob \<Rightarrow> True | NoFiles \<Rightarrow> True | BadFile _ \<Rightarrow> True | _ \<Rightarrow> False)"

definition summarizeCommand :: "labWorld \<Rightarrow> string list \<Rightarrow> files \<Rightarrow> printed" where
  "summarizeCommand w args fs =
    (case Parse summarizeFlags args of
       Inl e \<Rightarrow> ([], Some (FlagError e), fs)
     | Inr (opts, rest) \<Rightarrow>
        (let (rows, e) = runSummarize (labDecode w) (labGlob w) rest (stringOf (map_of opts ''glob''))
         in (if (case e of None \<Rightarrow> False | Some x \<Rightarrow> beforeTable x) then [] else ''Benchmark summary'' # summaryHeader # map summaryRow rows,
             map_option SummarizeError e, fs)))"

section \<open>main\<close>

definition printUsage :: "string list" where
  "printUsage =
    [''Usage:'', ''  go run ./cmd/lab compare -mtws 127.0.0.1:8080 -proxy 127.0.0.1:8081'',
     ''  go run ./cmd/lab benchmark -url http://127.0.0.1:8080/health -requests 200 -concurrency 10'',
     ''  go run ./cmd/lab benchmark -url http://127.0.0.1:8080/health -duration 2m -concurrency 10 -keepalive'',
     ''  go run ./cmd/lab summarize -glob '' @ [CHR 0x22] @ ''experiments/results/benchmark-*.json'' @ [CHR 0x22]]"

fun exitStatus :: "commandError option \<Rightarrow> int" where
  "exitStatus None = 0"
| "exitStatus (Some (BenchmarkError CapacityPanic)) = 2"
| "exitStatus (Some (SummarizeError IndexPanic)) = 2"
| "exitStatus (Some _) = 1"

definition finish :: "printed \<Rightarrow> int \<times> string list \<times> files" where
  "finish p = (let (lines, e, fs) = p in (exitStatus e, lines, fs))"

definition labMain :: "labWorld \<Rightarrow> string list \<Rightarrow> files \<Rightarrow> int \<times> string list \<times> files" where
  "labMain w osArgs fs =
    (if length osArgs < 2 then (2, printUsage, fs)
     else if osArgs ! 1 = ''compare'' then finish (compareCommand w (drop 2 osArgs) fs)
     else if osArgs ! 1 = ''benchmark'' then finish (benchmarkCommand w (drop 2 osArgs) fs)
     else if osArgs ! 1 = ''summarize'' then finish (summarizeCommand w (drop 2 osArgs) fs)
     else (2, printUsage, fs))"

section \<open>Reports and exit status\<close>

lemma writeReport_other: "writeReport w out v fs = (e, fs') \<Longrightarrow> fs' p \<noteq> fs p \<Longrightarrow> p = out \<and> out \<noteq> []"
  by (auto simp: writeReport_def writeJSONFile_def split: if_splits option.splits prod.splits bool.splits dest: WriteFile_other)

lemma writeReport_written:
  "writeReport w out v fs = (None, fs') \<Longrightarrow> out \<noteq> [] \<Longrightarrow> \<exists>data. labMarshal w v = Some data \<and> map_option fst (fs' out) = Some (data @ [lf])"
  by (auto simp: writeReport_def writeJSONFile_def split: if_splits option.splits prod.splits bool.splits dest!: WriteFile_True)

lemma exitStatus_0 [simp]: "exitStatus e = 0 \<longleftrightarrow> e = None"
  by (cases e rule: exitStatus.cases) auto

text \<open>The schedule of a command is fair when it is a run of the threads, from their start until all of them ended.\<close>

definition fairSchedule :: "labWorld \<Rightarrow> string list \<Rightarrow> bool" where
  "fairSchedule w args \<longleftrightarrow>
     (\<forall>opts rest r0. Parse benchmarkFlagSet args = Inr (opts, rest) \<and> startBenchmark (labCapacity w) (flagsOf opts) = Inr r0 \<longrightarrow>
        (let r = snd (labSchedule w (intOf (map_of opts ''timeout'')) (flagsOf opts) r0)
         in (benchStep (flagsOf opts))\<^sup>*\<^sup>* r0 r \<and> finished r))"

text \<open>The report of a comparison holds the results of the loop, one for every printed line below the header.\<close>

lemma length_compareLines: "length (compareLines network a b k ps) = length ps" and length_compareLoop: "length (compareLoop network a b k ps) = length ps"
  by (induction ps arbitrary: k) (simp_all add: Let_def)

lemma compare_command_complete:
  assumes "compareCommand w args fs = (lines, None, fs')"
  obtains opts rest results where "Parse compareFlags args = Inr (opts, rest)"
    and "runCompare (labReadDir w) (labReadFile w) (labExchanges w (intOf (map_of opts ''timeout''))) (stringOf (map_of opts ''mtws''))
      (stringOf (map_of opts ''proxy'')) (stringOf (map_of opts ''payload-dir'')) = Some results"
    and "length lines = 2 + length results"
  using assms by (auto simp: compareCommand_def runCompare_def Let_def length_compareLines length_compareLoop split: sum.splits prod.splits option.splits)

text \<open>The summary as a command, for arguments that are files: it prints a row for every URL, the runs of the rows add up to the files.\<close>

lemma summarize_command_counts:
  assumes "labMain w (prog # ''summarize'' # files) fs = (0, lines, fs')" and "files \<noteq> [] \<longrightarrow> hd files \<noteq> [] \<and> hd (hd files) \<noteq> CHR ''-''"
  shows "fs' = fs \<and> (\<exists>reports rows. map (labDecode w) files = map Some reports
    \<and> lines = ''Benchmark summary'' # summaryHeader # map summaryRow rows
    \<and> map fst rows = sorted_list_of_set (URL ` set reports) \<and> (\<Sum>(u, summary)\<leftarrow>rows. Runs summary) = int (length files))"
proof -
  have parse: "Parse summarizeFlags files = Inr (summarizeFlags, files)" using assms(2) by (intro Parse_positional) auto
  have glob: "stringOf (map_of summarizeFlags ''glob'') = []" by (simp add: summarizeFlags_def)
  obtain rows e where rows: "runSummarize (labDecode w) (labGlob w) files [] = (rows, e)" by fastforce
  then have "e = None" "fs' = fs" "lines = ''Benchmark summary'' # summaryHeader # map summaryRow rows"
    using assms(1) by (auto simp: labMain_def finish_def summarizeCommand_def parse glob split: if_splits)
  with summarize_counts_every_file [of "labDecode w" "labGlob w" files "[]" rows "[]" files] rows show ?thesis by auto
qed

section \<open>Properties\<close>

text \<open>
  C34. The benchmark as a command. With whatever arguments it is called and however its threads are scheduled, the only file it may change is the
  one named by \<^verbatim>\<open>-json-out\<close>. When it exits with status 0 the arguments were well-formed, the printed lines are those of a run in which every request
  is accounted for, without \<^verbatim>\<open>-duration\<close> one of exactly as many requests as were asked for, and the report that was asked for has been written.
\<close>

theorem benchmark_command_sound:
  assumes "fairSchedule w args" and "labMain w (prog # ''benchmark'' # args) fs = (code, lines, fs')"
  shows "(\<forall>p. fs' p \<noteq> fs p \<longrightarrow> (\<exists>opts rest. Parse benchmarkFlagSet args = Inr (opts, rest) \<and> stringOf (map_of opts ''json-out'') = p))
    \<and> (code = 0 \<longrightarrow> (\<exists>opts rest elapsed r.
         Parse benchmarkFlagSet args = Inr (opts, rest) \<and> lines = benchmarkLines (flagsOf opts) elapsed r
         \<and> errCount r + totalCount (statusCounts r) = int (length (latencies r))
         \<and> (duration (flagsOf opts) \<le> 0 \<longrightarrow> int (length (latencies r)) = requests (flagsOf opts)
              \<and> ''Requests: '' @ Itoa (requests (flagsOf opts)) \<in> set lines)
         \<and> (stringOf (map_of opts ''json-out'') \<noteq> [] \<longrightarrow>
              (\<exists>data. labMarshal w (benchmarkFields (labNow w) (reportOf (flagsOf opts) elapsed r)) = Some data
                \<and> map_option fst (fs' (stringOf (map_of opts ''json-out''))) = Some (data @ [lf])))))"
proof (cases "Parse benchmarkFlagSet args")
  case (Inl e)
  with assms(2) show ?thesis by (auto simp: labMain_def benchmarkCommand_def finish_def)
next
  case (Inr parsed)
  obtain opts rest where parsed: "parsed = (opts, rest)" by (cases parsed)
  let ?fl = "flagsOf opts" and ?out = "stringOf (map_of opts ''json-out'')"
  show ?thesis
  proof (cases "startBenchmark (labCapacity w) ?fl")
    case Inl': (Inl e)
    then have "code \<noteq> 0 \<and> fs' = fs"
      using assms(2) Inr parsed exitStatus_0 [of "Some (BenchmarkError e)"] by (auto simp: labMain_def benchmarkCommand_def finish_def)
    then show ?thesis by simp
  next
    case started: (Inr r0)
    obtain elapsed r where sched: "labSchedule w (intOf (map_of opts ''timeout'')) ?fl r0 = (elapsed, r)" by fastforce
    obtain e where out: "writeReport w ?out (benchmarkFields (labNow w) (reportOf ?fl elapsed r)) fs = (e, fs')"
        and lines: "lines = benchmarkLines ?fl elapsed r" and code: "code = exitStatus e"
      using assms(2) Inr parsed started sched by (auto simp: labMain_def benchmarkCommand_def finish_def split: prod.splits)
    have run: "(benchStep ?fl)\<^sup>*\<^sup>* r0 r" "finished r"
      using assms(1) Inr parsed started sched by (simp_all add: fairSchedule_def)
    have inv: "runInv ?fl r" using runInv_run [OF run(1) started] .
    then have books: "errCount r + totalCount (statusCounts r) = int (length (latencies r))" by (simp add: runInv_def booksBalance_def)
    have count: "int (length (latencies r)) = requests ?fl" if "duration ?fl \<le> 0" using finished_complete [OF inv run(2)] that by simp
    have line: "''Requests: '' @ Itoa (int (length (latencies r))) \<in> set lines" by (simp add: lines benchmarkLines_def Let_def)
    have written: "\<exists>data. labMarshal w (benchmarkFields (labNow w) (reportOf ?fl elapsed r)) = Some data \<and> map_option fst (fs' ?out) = Some (data @ [lf])"
      if "code = 0" "?out \<noteq> []"
      using writeReport_written [of w ?out "benchmarkFields (labNow w) (reportOf ?fl elapsed r)" fs fs'] out code that by simp
    have frame: "p = ?out" if "fs' p \<noteq> fs p" for p using writeReport_other [OF out that] by simp
    show ?thesis unfolding Inr parsed
      by (intro conjI allI impI exI [of _ opts] exI [of _ rest] exI [of _ elapsed] exI [of _ r])
        (use books count line written frame lines in simp_all)
  qed
qed

definition quietWorld :: labWorld where
  "quietWorld = \<lparr>labReadDir = (\<lambda>_. None), labReadFile = (\<lambda>_. None), labExchanges = (\<lambda>_ _ _ _. DialFailed ''refused''), labDecode = (\<lambda>_. None),
     labGlob = (\<lambda>_. None), labMarshal = (\<lambda>_. Some ''{}''), labNow = ''2024-01-01T00:00:00Z'', labCapacity = 2 ^ 45, labSchedule = (\<lambda>_ _ _. (7, oneRequestDone)),
     labSystem = \<lparr>umask = {}, statFails = (\<lambda>_. False), mkdirFails = (\<lambda>_. False), writeEnds = (\<lambda>_. Written)\<rparr>\<rparr>"

definition oneRequestArgs :: "string list" where
  "oneRequestArgs = [''-url=http://h/'', ''--requests'', ''0x1'', ''-concurrency=1'', ''-json-out'', ''out.json'']"

lemma oneRequest_parse:
  "\<exists>opts rest. Parse benchmarkFlagSet oneRequestArgs = Inr (opts, rest) \<and> flagsOf opts = oneRequest \<and> stringOf (map_of opts ''json-out'') = ''out.json''"
proof -
  have "(case Parse benchmarkFlagSet oneRequestArgs of Inl e \<Rightarrow> False
      | Inr (opts, rest) \<Rightarrow> flagsOf opts = oneRequest \<and> stringOf (map_of opts ''json-out'') = ''out.json'')" by code_simp
  then show ?thesis by (auto split: sum.splits prod.splits)
qed

lemma oneRequest_fair: "fairSchedule quietWorld oneRequestArgs"
proof -
  obtain r0 where "startBenchmark (2 ^ 45) oneRequest = Inr r0" "(benchStep oneRequest)\<^sup>*\<^sup>* r0 oneRequestDone" by (rule oneRequest_run)
  moreover have "finished oneRequestDone" by (simp add: oneRequestDone_def finished_def)
  ultimately show ?thesis using oneRequest_parse by (auto simp: fairSchedule_def quietWorld_def)
qed

lemma oneRequest_exit: "fst (labMain quietWorld (''lab'' # ''benchmark'' # oneRequestArgs) Map.empty) = 0"
proof -
  obtain r0 where "startBenchmark (2 ^ 45) oneRequest = Inr r0" by (rule oneRequest_run)
  with oneRequest_parse show ?thesis
    by (auto simp: labMain_def finish_def benchmarkCommand_def quietWorld_def writeReport_def writeJSONFile_def WriteFile_def)
qed

theorem benchmark_command_sound_witness:
  "\<exists>lines fs'. labMain quietWorld (''lab'' # ''benchmark'' # oneRequestArgs) Map.empty = (0, lines, fs')
     \<and> ''Requests: 1'' \<in> set lines \<and> map_option fst (fs' ''out.json'') = Some (''{}'' @ [lf])"
proof -
  obtain lines fs' where run: "labMain quietWorld (''lab'' # ''benchmark'' # oneRequestArgs) Map.empty = (0, lines, fs')"
    using oneRequest_exit by (cases "labMain quietWorld (''lab'' # ''benchmark'' # oneRequestArgs) Map.empty") auto
  have "Itoa (requests oneRequest) = ''1''" by code_simp
  with benchmark_command_sound [OF oneRequest_fair run] oneRequest_parse run show ?thesis
    by (auto simp: oneRequest_def quietWorld_def)
qed

end
