(* ===== verification/Backend.thy ===== *)
theory Backend
  imports Server_Routes
begin

text \<open>
  The backend of the comparison, \<^verbatim>\<open>cmd/backend/main.go\<close>: three handlers behind \<^verbatim>\<open>http.ServeMux\<close>, for requests with a clean path. It stands in for
  the server behind the proxy, so on the shared routes it must answer as the server does.
\<close>

record backendAnswer =
  answerStatus :: int
  answerType :: string
  answerBody :: string

definition plainAnswer :: "string \<Rightarrow> backendAnswer" where
  "plainAnswer body = \<lparr>answerStatus = 200, answerType = ''text/plain; charset=utf-8'', answerBody = body\<rparr>"

definition backendRoot :: backendAnswer where
  "backendRoot = plainAnswer (''standard backend is running'' @ [lf])"

definition backendHealth :: backendAnswer where
  "backendHealth = plainAnswer (''ok'' @ [lf])"

definition backendSearch :: "string \<Rightarrow> backendAnswer" where
  "backendSearch rawQuery = plainAnswer (''query='' @ rawQuery @ [lf])"

text \<open>The pattern \<open>/\<close> matches every path that no other pattern matches.\<close>

definition backend :: "string \<Rightarrow> string \<Rightarrow> backendAnswer" where
  "backend path rawQuery =
    (if path = ''/health'' then backendHealth else if path = ''/search'' then backendSearch rawQuery else backendRoot)"

text \<open>\<open>main\<close>: \<^verbatim>\<open>http.ListenAndServe\<close> returns only with an error, so the exit status is 1 and the error is the last line of the log.\<close>

definition backendMain :: "(string \<Rightarrow> string) \<Rightarrow> int \<times> string list" where
  "backendMain listenAndServe = (1, [''Standard comparison backend listening on :8080'', listenAndServe '':8080''])"

lemma textRoute_answer:
  assumes "Method req = meth" and "hasConn w" "\<not> wrote w" "attempts s = []" and "body req s \<noteq> []"
  shows "sent (snd (textRoute meth body date req (w, s)))
    = sent s @ responseHead w date StatusOK ''text/plain; charset=utf-8'' (length (body req s)) @ body req s"
  using assms writeResponse_reliable [OF assms(2-4)]
  by (simp add: textRoute_def guarded_def requireMethod_def logError_def WriteText_def)

text \<open>
  On the shared routes the server and the backend give the same answer to a GET request: status, content type and body.
\<close>

lemma backend_agrees_with_server:
  assumes "Method req = ''GET''" and "Cut (Path req) (CHR ''?'') = (path, rawQuery, found)" and "path = ''/health'' \<or> path = ''/search''"
    and "hasConn w" "\<not> wrote w" "attempts s = []"
  defines "answer \<equiv> backend path rawQuery"
  shows "answerStatus answer = Code StatusOK
    \<and> sent (snd (ServeHTTP (serverRouter st staticDir) date req (w, s)))
        = sent s @ responseHead w date StatusOK (answerType answer) (length (answerBody answer)) @ answerBody answer"
  using assms
  by (auto simp: ServeHTTP_def serverRouter_def healthRoute_def searchRoute_def textRoute_answer answer_def backend_def backendHealth_def
      backendSearch_def plainAnswer_def StatusOK_def)

end
