(* ===== verification/Certgen.thy ===== *)
theory Certgen
  imports Server_Paths Go_Files Go_Flags
begin

text \<open>
  The certificate generator \<^verbatim>\<open>cmd/certgen/main.go\<close>: from its command line to the two files. Keys, certificates and the PEM encoding are
  those of the Go library and arguments here, as are the clock and the outcome of system calls.
\<close>

section \<open>The certificate\<close>

definition fileExists :: "system \<Rightarrow> files \<Rightarrow> string \<Rightarrow> bool" where
  "fileExists sys fs path \<longleftrightarrow> fs path \<noteq> None \<and> \<not> statFails sys path"

record certFlags =
  certOut :: string
  keyOut :: string
  hosts :: string
  validFor :: int
  force :: bool

record 'ip certificate =
  SerialNumber :: int
  Organization :: "string list"
  CommonName :: string
  NotBefore :: int
  NotAfter :: int
  KeyUsage :: "string list"
  ExtKeyUsage :: "string list"
  BasicConstraintsValid :: bool
  IPAddresses :: "'ip list"
  DNSNames :: "string list"

text \<open>The functions of \<^verbatim>\<open>crypto\<close>, \<^verbatim>\<open>net\<close> and \<^verbatim>\<open>pem\<close> that are called; \<open>None\<close> is an error.\<close>

record ('key, 'ip) library =
  GenerateKey :: "'key option"
  randInt :: "int \<Rightarrow> int option"
  ParseIP :: "string \<Rightarrow> 'ip option"
  CreateCertificate :: "'ip certificate \<Rightarrow> 'key \<Rightarrow> string option"
  MarshalKey :: "'key \<Rightarrow> string"
  EncodePEM :: "string \<Rightarrow> string \<Rightarrow> string"

datatype certError = NotPositive | OutputExists | KeyFailed | SerialFailed | NoHost | CreateFailed | MkdirFailed | WriteCertFailed | WriteKeyFailed

definition splitHosts :: "string \<Rightarrow> string list" where
  "splitHosts value = filter (\<lambda>part. part \<noteq> []) (map TrimSpace (Split value (CHR '','')))"

fun addHosts :: "(string \<Rightarrow> 'ip option) \<Rightarrow> string list \<Rightarrow> 'ip certificate \<Rightarrow> 'ip certificate" where
  "addHosts parseIP [] t = t"
| "addHosts parseIP (host # hs) t =
    (case parseIP host of
       Some ip \<Rightarrow> addHosts parseIP hs (t\<lparr>IPAddresses := IPAddresses t @ [ip]\<rparr>)
     | None \<Rightarrow> addHosts parseIP hs (t\<lparr>DNSNames := DNSNames t @ [host]\<rparr>))"

definition minute :: int where "minute = 60000000000"

definition newTemplate :: "int \<Rightarrow> int \<Rightarrow> int \<Rightarrow> 'ip certificate" where
  "newTemplate serial now valid =
    \<lparr>SerialNumber = serial, Organization = [''MTWS Local Development''], CommonName = ''MTWS Local Development Certificate'',
     NotBefore = now - minute, NotAfter = now + valid, KeyUsage = [''DigitalSignature'', ''KeyEncipherment''],
     ExtKeyUsage = [''ServerAuth''], BasicConstraintsValid = True, IPAddresses = [], DNSNames = []\<rparr>"

definition makeTemplate :: "('key, 'ip) library \<Rightarrow> int \<Rightarrow> certFlags \<Rightarrow> certError + ('key \<times> 'ip certificate)" where
  "makeTemplate lib now fl =
    (case GenerateKey lib of
       None \<Rightarrow> Inl KeyFailed
     | Some privateKey \<Rightarrow>
        (case randInt lib (2 ^ 128) of
           None \<Rightarrow> Inl SerialFailed
         | Some serial \<Rightarrow>
            (let template = addHosts (ParseIP lib) (splitHosts (hosts fl)) (newTemplate serial now (validFor fl))
             in if DNSNames template = [] \<and> IPAddresses template = [] then Inl NoHost else Inr (privateKey, template))))"

definition writeFiles :: "system \<Rightarrow> certFlags \<Rightarrow> string \<Rightarrow> string \<Rightarrow> files \<Rightarrow> certError option \<times> files" where
  "writeFiles sys fl certPEM keyPEM fs =
    (if mkdirFails sys (Dir (certOut fl)) \<or> mkdirFails sys (Dir (keyOut fl)) then (Some MkdirFailed, fs)
     else
      (case WriteFile sys (certOut fl) certPEM worldReadable fs of
         (False, fs1) \<Rightarrow> (Some WriteCertFailed, fs1)
       | (True, fs1) \<Rightarrow>
          (case WriteFile sys (keyOut fl) keyPEM ownerOnly fs1 of
             (False, fs2) \<Rightarrow> (Some WriteKeyFailed, fs2)
           | (True, fs2) \<Rightarrow> (None, fs2))))"

definition runCertgen :: "('key, 'ip) library \<Rightarrow> system \<Rightarrow> int \<Rightarrow> certFlags \<Rightarrow> files \<Rightarrow> certError option \<times> files" where
  "runCertgen lib sys now fl fs =
    (if validFor fl \<le> 0 then (Some NotPositive, fs)
     else if \<not> force fl \<and> (fileExists sys fs (certOut fl) \<or> fileExists sys fs (keyOut fl)) then (Some OutputExists, fs)
     else
      (case makeTemplate lib now fl of
         Inl e \<Rightarrow> (Some e, fs)
       | Inr (privateKey, template) \<Rightarrow>
          (case CreateCertificate lib template privateKey of
             None \<Rightarrow> (Some CreateFailed, fs)
           | Some certDER \<Rightarrow>
              writeFiles sys fl (EncodePEM lib ''CERTIFICATE'' certDER)
                (EncodePEM lib ''RSA PRIVATE KEY'' (MarshalKey lib privateKey)) fs)))"

section \<open>The command\<close>

definition certgenFlags :: flagSet where
  "certgenFlags =
    [(''cert-out'', StringValue ''certs/mtws-local.crt''), (''key-out'', StringValue ''certs/mtws-local.key''),
     (''hosts'', StringValue ''localhost,127.0.0.1,::1''), (''valid-for'', DurationValue (365 * 24 * 60 * minute)), (''force'', BoolValue False)]"

definition certFlagsOf :: "flagSet \<Rightarrow> certFlags" where
  "certFlagsOf opts =
    \<lparr>certOut = stringOf (map_of opts ''cert-out''), keyOut = stringOf (map_of opts ''key-out''), hosts = stringOf (map_of opts ''hosts''),
     validFor = intOf (map_of opts ''valid-for''), force = boolOf (map_of opts ''force'')\<rparr>"

definition successLines :: "certFlags \<Rightarrow> string list" where
  "successLines fl =
    [''Wrote certificate: '' @ certOut fl, ''Wrote private key: '' @ keyOut fl, ''Use MTWS_TLS_CERT_FILE and MTWS_TLS_KEY_FILE to enable TLS.'']"

text \<open>\<open>main\<close>: the exit status, the printed lines and the files.\<close>

definition certgenMain :: "('key, 'ip) library \<Rightarrow> system \<Rightarrow> int \<Rightarrow> string list \<Rightarrow> files \<Rightarrow> int \<times> string list \<times> files" where
  "certgenMain lib sys now args fs =
    (case Parse certgenFlags args of
       Inl e \<Rightarrow> (1, [], fs)
     | Inr (opts, _) \<Rightarrow>
        (case runCertgen lib sys now (certFlagsOf opts) fs of
           (None, fs') \<Rightarrow> (0, successLines (certFlagsOf opts), fs')
         | (Some e, fs') \<Rightarrow> (1, [], fs')))"

section \<open>Hosts\<close>

lemma addHosts_spec:
  "IPAddresses (addHosts parseIP hs t) = IPAddresses t @ List.map_filter parseIP hs
   \<and> DNSNames (addHosts parseIP hs t) = DNSNames t @ filter (\<lambda>h. parseIP h = None) hs
   \<and> SerialNumber (addHosts parseIP hs t) = SerialNumber t \<and> NotBefore (addHosts parseIP hs t) = NotBefore t
   \<and> NotAfter (addHosts parseIP hs t) = NotAfter t"
  by (induction parseIP hs t rule: addHosts.induct) (auto simp: List.map_filter_simps split: option.split)

lemma makeTemplate_Inr:
  assumes "makeTemplate lib now fl = Inr (key, t)"
  shows "GenerateKey lib = Some key" and "IPAddresses t = List.map_filter (ParseIP lib) (splitHosts (hosts fl))"
    and "DNSNames t = filter (\<lambda>h. ParseIP lib h = None) (splitHosts (hosts fl))" and "splitHosts (hosts fl) \<noteq> []"
    and "NotBefore t = now - minute" and "NotAfter t = now + validFor fl"
  using assms addHosts_spec [of "ParseIP lib" "splitHosts (hosts fl)"]
  by (auto simp: makeTemplate_def newTemplate_def Let_def List.map_filter_simps split: option.splits if_splits)

lemma writeFiles_other:
  "writeFiles sys fl c k fs = (e, fs') \<Longrightarrow> p \<noteq> certOut fl \<Longrightarrow> p \<noteq> keyOut fl \<Longrightarrow> fs' p = fs p"
  by (auto simp: writeFiles_def split: if_splits prod.splits bool.splits dest!: WriteFile_other [of _ _ _ _ _ _ _ p])

lemma writeFiles_None:
  assumes "writeFiles sys fl c k fs = (None, fs')" and "certOut fl \<noteq> keyOut fl"
  shows "map_option fst (fs' (certOut fl)) = Some c"
    and "fs' (keyOut fl) = Some (k, case fs (keyOut fl) of Some (_, old) \<Rightarrow> old | None \<Rightarrow> ownerOnly - umask sys)"
proof -
  obtain fs1 where 1: "WriteFile sys (certOut fl) c worldReadable fs = (True, fs1)" and 2: "WriteFile sys (keyOut fl) k ownerOnly fs1 = (True, fs')"
    using assms(1) by (auto simp: writeFiles_def split: if_splits prod.splits bool.splits)
  show "map_option fst (fs' (certOut fl)) = Some c" using WriteFile_True [OF 1] WriteFile_other [OF 2 assms(2)] by simp
  show "fs' (keyOut fl) = Some (k, case fs (keyOut fl) of Some (_, old) \<Rightarrow> old | None \<Rightarrow> ownerOnly - umask sys)"
    using WriteFile_True [OF 2] WriteFile_other [OF 1, of "keyOut fl"] assms(2) by metis
qed

lemma runCertgen_other:
  assumes "runCertgen lib sys now fl fs = (e, fs')" and "p \<noteq> certOut fl" and "p \<noteq> keyOut fl"
  shows "fs' p = fs p"
  using assms(1) writeFiles_other [OF _ assms(2,3)] by (auto simp: runCertgen_def split: if_splits sum.splits option.splits prod.splits)

text \<open>Called without arguments, the command changes at most the two files of its defaults.\<close>

lemma certgen_defaults:
  assumes "certgenMain lib sys now [] fs = (code, lines, fs')" and "p \<noteq> ''certs/mtws-local.crt''" and "p \<noteq> ''certs/mtws-local.key''"
  shows "fs' p = fs p"
proof -
  have "Parse certgenFlags [] = Inr (certgenFlags, [])" by (rule Parse_positional) simp
  moreover have "certOut (certFlagsOf certgenFlags) = ''certs/mtws-local.crt''" "keyOut (certFlagsOf certgenFlags) = ''certs/mtws-local.key''"
    by (simp_all add: certFlagsOf_def certgenFlags_def)
  ultimately show ?thesis using assms runCertgen_other [of lib sys now "certFlagsOf certgenFlags" fs _ fs' p]
    by (auto simp: certgenMain_def split: prod.splits option.splits)
qed

section \<open>Properties\<close>

text \<open>
  C36. The generator touches nothing but its two output files, and without the flag to overwrite not even
  these when one of them is there. When it reports success and the two paths are different, naming different files, the files hold the
  certificate and the key that were created together: for exactly the listed hosts, each once and in order, as address or as name,
  valid from one minute ago until exactly the given time from now, which is positive. A key file that is new is readable and writable by nobody but
  its owner; one that is overwritten keeps the permissions it had.
\<close>

theorem certgen_writes_only_its_files:
  assumes "runCertgen lib sys now fl fs = (e, fs')"
  shows "(p \<noteq> certOut fl \<and> p \<noteq> keyOut fl \<longrightarrow> fs' p = fs p)
    \<and> (\<not> force fl \<and> (fileExists sys fs (certOut fl) \<or> fileExists sys fs (keyOut fl)) \<longrightarrow> e \<noteq> None \<and> fs' = fs)
    \<and> (e = None \<and> certOut fl \<noteq> keyOut fl \<longrightarrow> (\<exists>key template der.
          GenerateKey lib = Some key \<and> CreateCertificate lib template key = Some der
          \<and> IPAddresses template = List.map_filter (ParseIP lib) (splitHosts (hosts fl))
          \<and> DNSNames template = filter (\<lambda>h. ParseIP lib h = None) (splitHosts (hosts fl))
          \<and> splitHosts (hosts fl) \<noteq> []
          \<and> NotBefore template = now - minute \<and> NotAfter template = now + validFor fl \<and> 0 < validFor fl
          \<and> map_option fst (fs' (certOut fl)) = Some (EncodePEM lib ''CERTIFICATE'' der)
          \<and> fs' (keyOut fl) = Some (EncodePEM lib ''RSA PRIVATE KEY'' (MarshalKey lib key),
               case fs (keyOut fl) of None \<Rightarrow> {OwnerRead, OwnerWrite} - umask sys | Some (_, old) \<Rightarrow> old)))"
proof -
  have other: "fs' p = fs p" if "p \<noteq> certOut fl" "p \<noteq> keyOut fl" using runCertgen_other [OF assms that] .
  have kept: "e \<noteq> None \<and> fs' = fs" if "\<not> force fl" "fileExists sys fs (certOut fl) \<or> fileExists sys fs (keyOut fl)"
    using assms that by (auto simp: runCertgen_def split: if_splits)
  show ?thesis
  proof (cases "e = None \<and> certOut fl \<noteq> keyOut fl")
    case True
    then obtain key t der where t: "makeTemplate lib now fl = Inr (key, t)" "CreateCertificate lib t key = Some der" "0 < validFor fl"
        "writeFiles sys fl (EncodePEM lib ''CERTIFICATE'' der) (EncodePEM lib ''RSA PRIVATE KEY'' (MarshalKey lib key)) fs = (None, fs')"
      using assms by (auto simp: runCertgen_def split: if_splits sum.splits option.splits prod.splits)
    note w = writeFiles_None [OF t(4) conjunct2 [OF True]]
    show ?thesis
      by (intro conjI impI exI [of _ key] exI [of _ t] exI [of _ der])
        (use other kept t(2,3) makeTemplate_Inr [OF t(1)] w in \<open>auto simp: ownerOnly_def split: option.splits\<close>)
  qed (use other kept in auto)
qed

text \<open>
  With one path for both outputs the command reports success, but the key has overwritten the certificate, in a file that was made readable for everyone.
\<close>

lemma writeFiles_same:
  assumes "writeFiles sys fl c k fs = (None, fs')" and "certOut fl = keyOut fl" and "fs (keyOut fl) = None"
  shows "fs' (keyOut fl) = Some (k, worldReadable - umask sys)"
proof -
  obtain fs1 where 1: "WriteFile sys (keyOut fl) c worldReadable fs = (True, fs1)" and 2: "WriteFile sys (keyOut fl) k ownerOnly fs1 = (True, fs')"
    using assms(1,2) by (auto simp: writeFiles_def split: if_splits prod.splits bool.splits)
  from WriteFile_True [OF 2] WriteFile_True [OF 1] assms(3) show ?thesis by simp
qed

lemma same_path_loses_certificate:
  assumes "runCertgen lib sys now fl fs = (None, fs')" and "certOut fl = keyOut fl" and "fs (keyOut fl) = None"
  shows "\<exists>key. GenerateKey lib = Some key
    \<and> fs' (certOut fl) = Some (EncodePEM lib ''RSA PRIVATE KEY'' (MarshalKey lib key), worldReadable - umask sys)"
proof -
  obtain key t c where t: "makeTemplate lib now fl = Inr (key, t)"
      and w: "writeFiles sys fl c (EncodePEM lib ''RSA PRIVATE KEY'' (MarshalKey lib key)) fs = (None, fs')"
    using assms(1) by (auto simp: runCertgen_def split: if_splits sum.splits option.splits prod.splits)
  from makeTemplate_Inr(1) [OF t] writeFiles_same [OF w assms(2,3)] assms(2) show ?thesis by simp
qed

text \<open>The permissions of the call do not bind an existing file: with the flag to overwrite a key goes into a file that others may read.\<close>

lemma forced_key_keeps_permissions:
  assumes "runCertgen lib sys now fl fs = (None, fs')" and "certOut fl \<noteq> keyOut fl" and "fs (keyOut fl) = Some (old, worldReadable)"
  shows "map_option snd (fs' (keyOut fl)) = Some worldReadable"
proof -
  obtain c k where "writeFiles sys fl c k fs = (None, fs')"
    using assms(1) by (auto simp: runCertgen_def split: if_splits sum.splits option.splits prod.splits)
  from writeFiles_None(2) [OF this assms(2)] assms(3) show ?thesis by simp
qed

definition exampleLibrary :: "(string, string) library" where
  "exampleLibrary = \<lparr>GenerateKey = Some ''secret'', randInt = (\<lambda>limit. Some (limit - 1)), ParseIP = (\<lambda>s. if s = ''::1'' then Some s else None),
     CreateCertificate = (\<lambda>t key. Some (concat (DNSNames t))), MarshalKey = id, EncodePEM = append\<rparr>"

definition exampleSystem :: system where
  "exampleSystem = \<lparr>umask = {GroupRead}, statFails = (\<lambda>_. False), mkdirFails = (\<lambda>_. False), writeEnds = (\<lambda>_. Written)\<rparr>"

definition exampleFlags :: certFlags where
  "exampleFlags = \<lparr>certOut = ''certs/a.crt'', keyOut = ''certs/a.key'', hosts = ''localhost, ::1 ,'', validFor = 5, force = False\<rparr>"

lemma example_success: "fst (runCertgen exampleLibrary exampleSystem 0 exampleFlags Map.empty) = None"
  by code_simp

theorem certgen_writes_only_its_files_witness:
  "\<exists>fs'. runCertgen exampleLibrary exampleSystem 0 exampleFlags Map.empty = (None, fs') \<and> fs' ''other'' = None
     \<and> map_option fst (fs' ''certs/a.key'') = Some ''RSA PRIVATE KEYsecret''"
proof -
  obtain fs' where run: "runCertgen exampleLibrary exampleSystem 0 exampleFlags Map.empty = (None, fs')"
    using example_success by (metis prod.collapse)
  from certgen_writes_only_its_files [OF run, of "''other''"] run show ?thesis
    by (auto simp: exampleFlags_def exampleLibrary_def)
qed

end
