(* ===== verification/Page_Loader.thy ===== *)
theory Page_Loader
  imports Main
begin

text \<open>
  The page loader of \<^verbatim>\<open>router/router.go\<close>, which no other package calls. Reading a file is an argument; its error is passed on.
\<close>

record Page =
  Title :: string
  Body :: string

definition LoadPage :: "(string \<Rightarrow> 'e + string) \<Rightarrow> string \<Rightarrow> 'e + Page" where
  "LoadPage readFile title =
    (case readFile (title @ ''.txt'') of Inl e \<Rightarrow> Inl e | Inr body \<Rightarrow> Inr \<lparr>Title = title, Body = body\<rparr>)"

text \<open>A page is loaded exactly if its file can be read, and it holds the content of no other file.\<close>

lemma LoadPage_iff: "LoadPage readFile title = Inr page \<longleftrightarrow> Title page = title \<and> readFile (title @ ''.txt'') = Inr (Body page)"
  by (cases page) (auto simp: LoadPage_def split: sum.split)

end
