(* ===== verification/Spec2Isabelle.thy ===== *)
theory Spec2Isabelle
  imports Waf_Properties Http_Properties Core_Properties Core_Json Core_Scrape Server_Properties Server_Start Limiter_Rate Config
    Lab_Benchmark Lab_Properties Lab_Commands Backend Certgen Page_Loader
begin

text \<open>
  Verification library of MTWS, a multi-threaded web server with a request firewall, written in Go.

  \<^bold>\<open>The program.\<close> The accept loop (\<^verbatim>\<open>cmd/server/main.go\<close>) takes connections, asks the token bucket limiter
  (\<^verbatim>\<open>security/ratelimiter\<close>) and puts them into a bounded channel, from which the workers of the pool
  (\<^verbatim>\<open>pool\<close>) take them. A worker runs the connection loop (\<^verbatim>\<open>core/connection.go\<close>): it parses a request (\<^verbatim>\<open>http\<close>), whose
  fields the parser feeds to the rule automaton of the firewall (\<^verbatim>\<open>security/waf\<close>) while it
  reads them, lets the router (\<^verbatim>\<open>core/router.go\<close>) choose a handler, and the handler answers through the
  response writer (\<^verbatim>\<open>core/response.go\<close>). All threads share the metrics (\<^verbatim>\<open>core/metrics.go\<close>) and the log. Two tools stand beside the
  server: the laboratory (\<^verbatim>\<open>cmd/lab\<close>) compares its answers with those of a proxy and measures latencies, the
  certificate generator (\<^verbatim>\<open>cmd/certgen\<close>) makes the files for TLS.

  \<^bold>\<open>Theories.\<close>
  \<^item> \<open>Go_Prelude\<close>, \<open>Go_Strings\<close>, \<open>Go_Reader\<close>, \<open>Go_Float\<close>, \<open>Go_Round\<close>: fallible operations with state, the parts of
    \<^verbatim>\<open>strings\<close>, \<^verbatim>\<open>unicode/utf8\<close>, \<^verbatim>\<open>strconv\<close>, \<^verbatim>\<open>net/url\<close> and \<^verbatim>\<open>net/textproto\<close> that the code
    calls, \<^verbatim>\<open>bufio.Reader\<close> over a connection that delivers its bytes in arbitrary pieces, and
    \<^verbatim>\<open>float64\<close> with IEEE rounding and its error bounds. \<open>Go_Format\<close>, \<open>Go_Flags\<close>, \<open>Go_Files\<close>: the verbs of \<^verbatim>\<open>fmt\<close>, command lines as
    \<^verbatim>\<open>flag\<close> parses them, files with permissions and writes that fail.
  \<^item> \<open>Waf_Normalize\<close>, \<open>Waf_Automaton\<close>, \<open>Waf_Scanner\<close>, \<open>Waf_Policy\<close> model \<^verbatim>\<open>security/waf\<close>: nodes are
    addresses in a heap, the construction is the one of the code, the iteration order of Go maps
    is an argument. \<open>Waf_Words\<close> and \<open>Waf_Build\<close> prove that the construction yields the longest-suffix
    automaton of the rules, \<open>Waf_Engine\<close> states the contract of the streaming scanner as a locale.
    \<open>Waf_Properties\<close>: the scanner finds exactly what a search in the normalized field finds.
  \<^item> \<open>Http_Parser\<close> models \<^verbatim>\<open>http/parser.go\<close> and \<^verbatim>\<open>http/request.go\<close>, every error a value. \<open>Http_Reading\<close>,
    \<open>Http_Accepted\<close> and \<open>Http_Roundtrip\<close> hold what an operation consumes, what an accepted
    request satisfies and what printed requests parse to. \<open>Http_Properties\<close>: no attack passes, the framing is
    unambiguous, the limits hold, the delivery does not matter, printed requests are read back.
  \<^item> \<open>Core_Metrics\<close>, \<open>Core_Prometheus\<close>: the counters as 64-bit words, the compare-and-swap loop as steps
    of concurrent threads, the Prometheus text. \<open>Core_Scrape\<close>: what a monitoring system reads from this text.
  \<^item> \<open>Core_Response\<close>, \<open>Core_Router\<close>, \<open>Core_Connection\<close>: the record \<open>world\<close> holds what an operation on a
    connection can touch. The locales \<open>answering\<close> and \<open>responsive\<close> are the contract between the
    connection loop and the handlers; they are interpreted on the router of the server.
    \<open>Core_Properties\<close>: the loop refines its specification on lists of requests, refused requests
    never reach a handler, responses cannot be split, accounts balance.
  \<^item> \<open>Core_Logs\<close>: the ring of recent log lines of \<^verbatim>\<open>core/logsink.go\<close>, equal to the tail of the log. \<open>Core_Json\<close>: the entries of
    \<^verbatim>\<open>core/logging.go\<close> as JSON lines, which clients cannot forge.
  \<^item> \<open>Limiter\<close>, \<open>Limiter_Rate\<close>: the token bucket with its rounding arithmetic; bursts exactly, and a
    bound for every window of time that carries the rounding errors.
  \<^item> \<open>Config\<close>: \<^verbatim>\<open>config/config.go\<close> with \<^verbatim>\<open>strconv.ParseFloat\<close> and \<^verbatim>\<open>time.ParseDuration\<close>.
  \<^item> \<open>Server_Paths\<close>, \<open>Server_Files\<close>, \<open>Server_Static\<close>, \<open>Server_Routes\<close>, \<open>Server_Pool\<close>: \<^verbatim>\<open>cmd/server/main.go\<close> and \<^verbatim>\<open>pool/pool.go\<close>.
    \<open>Server_Files\<close> is the file system under the static handler: directories, files and symbolic links, and the functions that follow them.
    \<open>Server_Pool\<close> has the accept loop, the workers and the shutdown as an inductive step relation.
    \<open>Server_Properties\<close>: only files that lie below the root are sent, over no links, every pipelined request is answered, refused
    connections get their response. \<open>Server_Pool\<close>: no connection is lost, the shutdown drains.
  \<^item> \<open>Server_Start\<close>: the process around them, \<^verbatim>\<open>main\<close>, \<^verbatim>\<open>run\<close>, \<^verbatim>\<open>listen\<close> and the logger, as a step relation from the environment to the exit
    status in which the threads of \<open>Server_Pool\<close> run. TLS is never left out by accident; this theory shows that the exit status is right.
  \<^item> \<open>Go_Steps\<close>: the locale \<open>draining\<close> of step relations that make a rank smaller, interpreted on the shutdown of
    the server, on the end of its process and on the end of a benchmark.
  \<^item> \<open>Lab_Duration\<close>, \<open>Lab_Statistics\<close>, \<open>Lab_Benchmark\<close>, \<open>Lab_Compare\<close>: \<^verbatim>\<open>cmd/lab/main.go\<close>. \<^verbatim>\<open>Duration.String\<close> and its inverse \<^verbatim>\<open>ParseDuration\<close>,
    percentiles and medians, the workers of a benchmark as a step relation, reports and their summary, payloads and the comparison
    of two servers. \<open>Lab_Median\<close> says what a median is without sorting.
    They show that percentiles are quantiles, that medians are medians as long as sums of two durations do not overflow, that no request and no report is lost, and in \<open>Lab_Properties\<close>, together
    with the connection loop, that a refused payload is reported as refused. \<open>Lab_Commands\<close>: the program around them, from the command line to
    the printed lines, the report file and the exit status.
  \<^item> \<open>Backend\<close>: the handlers of \<^verbatim>\<open>cmd/backend/main.go\<close>, which agree with those of the server on the shared routes.
  \<^item> \<open>Certgen\<close>: \<^verbatim>\<open>cmd/certgen/main.go\<close>, which changes nothing but its two files. \<open>Page_Loader\<close>: \<^verbatim>\<open>router/router.go\<close>, which nothing calls.

  \<^bold>\<open>Choices.\<close> Integers of Go are unbounded where no path of the code can leave 64 bits (lengths, counts and
  durations are bounded by the limits of the parser and the configuration), and words or explicit
  reductions where they wrap: the metrics, chunk sizes, \<^verbatim>\<open>ParseDuration\<close>, sums of latencies. Loops over input are recursive functions with a proved measure;
  no fuel is used. The loop that follows failure links is a partial function, and it is proved that it ends on
  every built automaton. The clock, the outcome of system calls, the environment, the content of the file system and
  \<^verbatim>\<open>json.Marshal\<close> are arguments. The file system of the server has links, which \<^verbatim>\<open>EvalSymlinks\<close> follows up to 255 times and the kernel up to 40 times, the
  limits of the Go library and of Linux; it does not change while one request is served. The files that the tools write are known by their paths: two
  paths are taken to be two files. The largest capacity of a slice or a channel is an argument. The sign of floating point
  zero is not represented. In the state of a connection the log lines are events without time, address and duration.

  \<^bold>\<open>Not modelled.\<close> What is behind the calls of the standard library that reach the system: sockets and signals, the TLS protocol, the cryptography behind certificates,
  the JSON encoder for payloads and reports and the decoder, \<^verbatim>\<open>net/http\<close> around the backend and the client of the benchmark. The texts of errors that the tools write to the standard error
  output, and in the state of a connection the text of log lines. Interleavings of two
  connections are modelled for the shared maximum of the metrics and for the pool; the other counters are independent atomic
  additions.
\<close>

section \<open>Configuration and limiter together\<close>

text \<open>
  The value NaN for the rate passes the checks of the configuration, and with it the limiter
  allows every call of every client.
\<close>

lemma NaN_rate_disables_limiter:
  assumes "map asciiLower (TrimSpace (env ''MTWS_RATE_LIMIT_RATE'')) = ''nan''"
  shows "fst (allowAll calls (NewLimiter start (cfgRateLimitRate (Load lower env)) (cfgRateLimitCapacity (Load lower env))))
    = replicate (length calls) True"
proof (rule allowAll_NaN)
  let ?v = "TrimSpace (env ''MTWS_RATE_LIMIT_RATE'')"
  obtain c cs where v: "?v = c # cs" and c: "asciiLower c = CHR ''n''" using assms by (cases ?v) auto
  have "c \<noteq> CHR ''+'' \<and> c \<noteq> CHR ''-''" using c by (auto simp: asciiLower_def asciiUpperCase_def split: if_splits)
  then have "dropSign ?v = (False, False, ?v)" by (simp add: dropSign_def v)
  with assms have "ParseFloat ?v = Some NaN" by (simp add: ParseFloat_def)
  with v have "RateLimitRate env = NaN" by (simp add: RateLimitRate_def envPositiveFloat_def envFloat_def leF_def)
  then show "rate (NewLimiter start (cfgRateLimitRate (Load lower env)) (cfgRateLimitCapacity (Load lower env))) = NaN"
    by (simp add: NewLimiter_def NewWithTTL_def Load_def)
qed

lemma NaN_rate_disables_limiter_witness:
  "fst (allowAll (replicate 1000 (0, ''a'')) (NewLimiter 0 (cfgRateLimitRate (Load id (\<lambda>_. ''NaN'')))
     (cfgRateLimitCapacity (Load id (\<lambda>_. ''NaN''))))) = replicate 1000 True"
proof -
  have "map asciiLower (TrimSpace ''NaN'') = ''nan''" by code_simp
  then show ?thesis using NaN_rate_disables_limiter [of "\<lambda>_. ''NaN''" "replicate 1000 (0, ''a'')" 0 id] by simp
qed

section \<open>From the environment to the exit status\<close>

text \<open>
  C15. The exit status tells the truth. The process can always do a step until it has an exit status. Status 0 means that a signal ended the
  accept loop and that every connection that was accepted has been settled exactly once. Status 1 means that the last line of the log
  says why: the start was refused, or the workers did not end within the configured time. And once the
  listener is closed, every run of the process is at most one step longer than what is left for its threads.
\<close>

theorem exit_status_sound:
  assumes "mayBe host quote lower env now s"
  shows "((\<nexists>s'. serverStep host quote lower env now s s') \<longrightarrow> status s \<noteq> None)
    \<and> (status s = Some 0 \<longrightarrow> (\<exists>p. threads s = Some p \<and> contextDone p \<and> mset (map fst (outcomes p)) = mset [0..<accepted p]))
    \<and> (status s = Some 1 \<longrightarrow>
         launch host (Load lower env) now = Inl (Refused (last (said s)))
         \<or> last (said s) = ''shutdown timed out after '' @ DurationString (ShutdownTimeout (Load lower env)))
    \<and> (\<forall>p n s'. threads s = Some p \<and> listenerClosed p \<and> (serverStep host quote lower env now ^^ n) s s' \<longrightarrow> n \<le> Suc (remaining p))"
proof -
  have inv: "serverInv host (Load lower env) now s" using assms by (rule mayBe_inv)
  have "contextDone p \<and> mset (map fst (outcomes p)) = mset [0..<accepted p]" if "status s = Some 0" "threads s = Some p" for p
  proof -
    have p: "reachable (Load lower env) now p" "acceptor p = Stopped" using inv that by (auto simp: serverInv_def exitReason_def)
    with stopped_settled [OF reachable_inv [OF p(1)]] Load_workers ended_context [OF p(1)] show ?thesis by simp
  qed
  moreover have "\<exists>p. threads s = Some p" if "status s = Some 0" using inv that by (auto simp: serverInv_def exitReason_def split: option.splits)
  moreover have "launch host (Load lower env) now = Inl (Refused (last (said s)))
      \<or> last (said s) = ''shutdown timed out after '' @ DurationString (ShutdownTimeout (Load lower env))" if "status s = Some 1"
    using inv that by (auto simp: serverInv_def exitReason_def split: option.splits)
  moreover have "n \<le> Suc (remaining p)" if "threads s = Some p" "listenerClosed p" "(serverStep host quote lower env now ^^ n) s s'" for p n s'
  proof -
    have "reachable (Load lower env) now p" using inv that(1) by (simp add: serverInv_def)
    then have "serverClosing s" using that(1,2) listener_context by (auto simp: serverClosing_def closing_def)
    from exiting.run_bounded [OF that(3) this] that(1) show ?thesis by (simp add: serverRank_def split: if_splits)
  qed
  ultimately show ?thesis using server_progress [of s] by blast
qed

definition busyEnv :: getenv where
  "busyEnv name = (if name = ''MTWS_ADDR'' then '':80'' else [])"

lemma busy_launch: "launch plainHost (Load id busyEnv) 0 = Inl (Refused ''permission denied'')"
proof -
  have "TrimSpace '':80'' = '':80''" by code_simp
  then show ?thesis
    by (simp add: launch_def listen_def TLSPartiallyConfigured_def TLSEnabled_def Load_def busyEnv_def plainHost_def envString_def)
qed

theorem exit_status_sound_witness:
  "\<exists>s. mayBe plainHost id id busyEnv 0 s \<and> status s = Some 1 \<and> last (said s) = ''permission denied''"
proof -
  let ?s = "unstarted\<lparr>said := LoadLog id busyEnv @ [''permission denied''], status := Some 1\<rparr> :: string server"
  have "serverStep plainHost id id busyEnv 0 unstarted ?s"
    using serverStep.refuses [OF _ _ busy_launch, of unstarted id] by (simp add: unstarted_def)
  then have may: "mayBe plainHost id id busyEnv 0 ?s" by (simp add: mayBe_def)
  from exit_status_sound [OF may] may show ?thesis by (intro exI [of _ ?s]) simp
qed

end
